(* ===== verification/Px_Prelude.thy ===== *)
theory Px_Prelude
  imports Main "HOL-Library.Word" "HOL-Library.Sublist"
begin

text \<open>
  Shared vocabulary of the development: the result type of fallible Go code, the theorem
  collections that carry the component proofs, and generic facts on lists, options,
  association lists and words that more than one component needs.
\<close>

section \<open>Theorem collections\<close>

named_theorems go_simps \<open>characteristic equations of the modelled Go library\<close>
named_theorems inv_intros \<open>every operation keeps its component's invariant\<close>

section \<open>Results of Go code\<close>

text \<open>
  A Go function either returns normally, returns a non-nil error, or panics.  A panic is kept
  apart from an error because the callers in the source test errors and never recover.
\<close>

datatype 'a go_result = Return 'a | Error string | Panic string

fun go_bind :: "'a go_result \<Rightarrow> ('a \<Rightarrow> 'b go_result) \<Rightarrow> 'b go_result" where
  "go_bind (Return a) f = f a"
| "go_bind (Error e) f = Error e"
| "go_bind (Panic p) f = Panic p"

fun is_return :: "'a go_result \<Rightarrow> bool" where
  "is_return (Return a) = True"
| "is_return (Error e) = False"
| "is_return (Panic p) = False"

fun is_panic :: "'a go_result \<Rightarrow> bool" where
  "is_panic (Panic p) = True"
| "is_panic (Return a) = False"
| "is_panic (Error e) = False"

lemma go_bind_Return_iff:
  "go_bind r f = Return b \<longleftrightarrow> (\<exists>a. r = Return a \<and> f a = Return b)"
  by (cases r) auto

lemma go_bind_Panic_iff:
  "go_bind r f = Panic p \<longleftrightarrow> r = Panic p \<or> (\<exists>a. r = Return a \<and> f a = Panic p)"
  by (cases r) auto

section \<open>Lists\<close>

lemma dropWhile_id_iff: "dropWhile P xs = xs \<longleftrightarrow> xs = [] \<or> \<not> P (hd xs)"
proof (cases xs)
  case (Cons a ys)
  have "dropWhile P ys \<noteq> a # ys"
    using length_dropWhile_le [of P ys] by (metis impossible_Cons)
  with Cons show ?thesis by simp
qed simp

lemma dropWhile_not_hd: "dropWhile P xs = y # ys \<Longrightarrow> \<not> P y"
  by (metis hd_dropWhile list.distinct(1) list.sel(1))

lemma subseq_distinct: "subseq xs ys \<Longrightarrow> distinct ys \<Longrightarrow> distinct xs"
  by (induction rule: list_emb.induct) (auto dest: list_emb_set)

section \<open>Words and numbers\<close>

unbundle bit_operations_syntax

lemma unat_byte_lt [simp]: "unat (b :: 8 word) < 256"
  using unsigned_less [of b, where 'a = nat] by simp

lemma unat32_lt: "unat (w :: 32 word) < 4294967296"
  using unsigned_less [of w, where 'a = nat] by simp

lemma of_nat_word64_inject:
  assumes "a < 2 ^ 64" "b < 2 ^ 64" "(of_nat a :: 64 word) = of_nat b"
  shows "a = b"
  using of_nat_inverse [OF assms(3)] of_nat_inverse [OF refl, where 'a = 64, of b] assms(1,2) by simp

lemma word_xor_eq_0_iff: "a XOR b = 0 \<longleftrightarrow> a = (b :: 'a::len word)"
  by (metis xor.assoc xor.left_neutral xor.right_neutral xor_self_eq)

lemma lex256_less:
  fixes x y d e :: nat
  assumes "d < 256" "e < 256"
  shows "x * 256 + d < y * 256 + e \<longleftrightarrow> x < y \<or> (x = y \<and> d < e)"
  using assms by arith

lemma div256 [simp]:
  fixes x d :: nat
  shows "d < 256 \<Longrightarrow> (x * 256 + d) div 256 = x" "d < 256 \<Longrightarrow> (x * 256 + d) mod 256 = d"
  by simp_all

lemma recompose4:
  fixes n :: nat
  shows "((n div 2 ^ 24 * 256 + n div 2 ^ 16 mod 256) * 256 + n div 2 ^ 8 mod 256) * 256 + n mod 256 = n"
proof -
  have "n div 2 ^ 24 = n div 2 ^ 16 div 256" and "n div 2 ^ 16 = n div 2 ^ 8 div 256"
    by (simp_all add: div_mult2_eq [symmetric])
  then show ?thesis by (simp del: div_mult2_eq)
qed

lemma interval_div_iff:
  fixes n x k :: nat
  assumes "0 < k"
  shows "x * k \<le> n \<and> n \<le> x * k + (k - 1) \<longleftrightarrow> n div k = x"
proof
  assume "x * k \<le> n \<and> n \<le> x * k + (k - 1)"
  then show "n div k = x" using assms by (intro div_nat_eqI) (auto simp: mult.commute)
next
  assume "n div k = x"
  then show "x * k \<le> n \<and> n \<le> x * k + (k - 1)"
    using assms div_times_less_eq_dividend [of n k] dividend_less_div_times [of k n] by auto
qed

lemma split256_iff:
  fixes x q d :: nat
  assumes "d < 256"
  shows "x = q * 256 + d \<longleftrightarrow> x div 256 = q \<and> x mod 256 = d"
  using assms by (metis div256 div_mult_mod_eq)

end
