(* ===== verification/Go_Strings.thy ===== *)
theory Go_Strings
  imports Px_Prelude
begin

text \<open>
  The functions of Go's packages \<^verbatim>\<open>strings\<close> and \<^verbatim>\<open>strconv\<close> that the sources call.
  A Go string is a byte sequence, here a \<^typ>\<open>string\<close>.  Case mapping and white space are those
  of the ASCII range, on which Go's Unicode tables and these definitions agree; bytes above 127
  are left alone.
\<close>

section \<open>Characters\<close>

definition isSpace :: "char \<Rightarrow> bool" where
  "isSpace c \<longleftrightarrow> c = CHR '' '' \<or> c = CHR 0x09 \<or> c = CHR 0x0A \<or> c = CHR 0x0B \<or> c = CHR 0x0C \<or> c = CHR 0x0D"

definition lowerChar :: "char \<Rightarrow> char" where
  "lowerChar c = (let n = of_char c :: nat in if 65 \<le> n \<and> n \<le> 90 then char_of (n + 32) else c)"

definition upperChar :: "char \<Rightarrow> char" where
  "upperChar c = (let n = of_char c :: nat in if 97 \<le> n \<and> n \<le> 122 then char_of (n - 32) else c)"

definition digitVal :: "char \<Rightarrow> nat option" where
  "digitVal c = (let n = of_char c in if 48 \<le> n \<and> n \<le> 57 then Some (n - 48) else None)"

definition digitChar :: "nat \<Rightarrow> char" where
  "digitChar n = char_of (48 + n)"

section \<open>Package strings\<close>

definition trimLeftFunc :: "(char \<Rightarrow> bool) \<Rightarrow> string \<Rightarrow> string" where
  "trimLeftFunc p s = dropWhile p s"

definition trimRightFunc :: "(char \<Rightarrow> bool) \<Rightarrow> string \<Rightarrow> string" where
  "trimRightFunc p s = rev (dropWhile p (rev s))"

definition trimFunc :: "(char \<Rightarrow> bool) \<Rightarrow> string \<Rightarrow> string" where
  "trimFunc p s = trimRightFunc p (trimLeftFunc p s)"

definition trimSpace :: "string \<Rightarrow> string" where
  "trimSpace = trimFunc isSpace"

definition trimCut :: "string \<Rightarrow> string \<Rightarrow> string" where
  "trimCut s cutset = trimFunc (\<lambda>c. c \<in> set cutset) s"

definition toLower :: "string \<Rightarrow> string" where
  "toLower s = map lowerChar s"

definition toUpper :: "string \<Rightarrow> string" where
  "toUpper s = map upperChar s"

definition equalFold :: "string \<Rightarrow> string \<Rightarrow> bool" where
  "equalFold a b \<longleftrightarrow> toLower a = toLower b"

fun hasPrefix :: "string \<Rightarrow> string \<Rightarrow> bool" where
  "hasPrefix s [] = True"
| "hasPrefix [] (y # p) = False"
| "hasPrefix (x # s) (y # p) = (x = y \<and> hasPrefix s p)"

definition hasSuffix :: "string \<Rightarrow> string \<Rightarrow> bool" where
  "hasSuffix s p = hasPrefix (rev s) (rev p)"

definition trimPrefix :: "string \<Rightarrow> string \<Rightarrow> string" where
  "trimPrefix s p = (if hasPrefix s p then drop (length p) s else s)"

definition trimSuffix :: "string \<Rightarrow> string \<Rightarrow> string" where
  "trimSuffix s p = (if hasSuffix s p then take (length s - length p) s else s)"

text \<open>\<^verbatim>\<open>strings.Contains\<close> and \<^verbatim>\<open>strings.ReplaceAll\<close> for a non-empty pattern.\<close>

fun containsStr :: "string \<Rightarrow> string \<Rightarrow> bool" where
  "containsStr [] p = (p = [])"
| "containsStr (x # s) p = (hasPrefix (x # s) p \<or> containsStr s p)"

function replaceAll :: "string \<Rightarrow> string \<Rightarrow> string \<Rightarrow> string" where
  "replaceAll [] old new = []"
| "replaceAll (x # s) old new =
     (if old \<noteq> [] \<and> hasPrefix (x # s) old
      then new @ replaceAll (drop (length old) (x # s)) old new
      else x # replaceAll s old new)"
  by pat_completeness auto
termination
  by (relation "measure (\<lambda>(s, old, new). length s)") auto

text \<open>\<^verbatim>\<open>strings.Split\<close> on a one-byte separator, \<^verbatim>\<open>strings.Cut\<close> at one, and
  \<^verbatim>\<open>strings.SplitN(s, sep, 2)\<close>.\<close>

fun splitChar :: "char \<Rightarrow> string \<Rightarrow> string list" where
  "splitChar c [] = [[]]"
| "splitChar c (x # xs) =
     (if x = c then [] # splitChar c xs
      else (case splitChar c xs of [] \<Rightarrow> [[x]] | y # ys \<Rightarrow> (x # y) # ys))"

fun cutChar :: "char \<Rightarrow> string \<Rightarrow> string \<times> string \<times> bool" where
  "cutChar c [] = ([], [], False)"
| "cutChar c (x # xs) =
     (if x = c then ([], xs, True)
      else (case cutChar c xs of (a, b, ok) \<Rightarrow> (x # a, b, ok)))"

definition splitN2 :: "char \<Rightarrow> string \<Rightarrow> string list" where
  "splitN2 c s = (case cutChar c s of (a, b, ok) \<Rightarrow> if ok then [a, b] else [s])"

fun joinStr :: "string \<Rightarrow> string list \<Rightarrow> string" where
  "joinStr sep [] = []"
| "joinStr sep [x] = x"
| "joinStr sep (x # y # xs) = x @ sep @ joinStr sep (y # xs)"

text \<open>\<^verbatim>\<open>strings.FieldsFunc\<close>: maximal runs of bytes that do not satisfy the predicate.\<close>

fun splitWhen :: "(char \<Rightarrow> bool) \<Rightarrow> string \<Rightarrow> string list" where
  "splitWhen p [] = [[]]"
| "splitWhen p (x # xs) =
     (if p x then [] # splitWhen p xs
      else (case splitWhen p xs of [] \<Rightarrow> [[x]] | y # ys \<Rightarrow> (x # y) # ys))"

definition fieldsFunc :: "(char \<Rightarrow> bool) \<Rightarrow> string \<Rightarrow> string list" where
  "fieldsFunc p s = filter (\<lambda>f. f \<noteq> []) (splitWhen p s)"

section \<open>Package strconv\<close>

fun itoaNat :: "nat \<Rightarrow> string" where
  "itoaNat n = (if n < 10 then [digitChar n] else itoaNat (n div 10) @ [digitChar (n mod 10)])"

declare itoaNat.simps [simp del]

definition itoa :: "int \<Rightarrow> string" where
  "itoa i = (if i < 0 then CHR ''-'' # itoaNat (nat (- i)) else itoaNat (nat i))"

fun parseDigits :: "nat \<Rightarrow> string \<Rightarrow> nat option" where
  "parseDigits acc [] = Some acc"
| "parseDigits acc (c # cs) =
     (case digitVal c of None \<Rightarrow> None | Some d \<Rightarrow> parseDigits (10 * acc + d) cs)"

text \<open>\<^verbatim>\<open>strconv.Atoi\<close>: an optional sign, at least one decimal digit, and a value of a 64-bit
  \<^verbatim>\<open>int\<close>; anything else is an error.\<close>

definition atoi :: "string \<Rightarrow> int option" where
  "atoi s =
     (let neg = hasPrefix s ''-'';
          body = (if neg \<or> hasPrefix s ''+'' then tl s else s)
      in if body = [] then None
         else (case parseDigits 0 body of
             None \<Rightarrow> None
           | Some n \<Rightarrow>
               (let v = (if neg then - int n else int n)
                in if - (2 ^ 63) \<le> v \<and> v < 2 ^ 63 then Some v else None)))"

section \<open>Facts\<close>

subsection \<open>Case mapping\<close>

lemma of_char_lowerChar:
  "of_char (lowerChar c) = (let n = of_char c :: nat in if 65 \<le> n \<and> n \<le> 90 then n + 32 else n)"
  by (simp add: lowerChar_def Let_def)

lemma of_char_upperChar:
  "of_char (upperChar c) = (let n = of_char c :: nat in if 97 \<le> n \<and> n \<le> 122 then n - 32 else n)"
  by (auto simp: upperChar_def Let_def)

lemma char_eq_nat_iff: "c = d \<longleftrightarrow> (of_char c :: nat) = of_char d"
  by simp

lemma lowerChar_idem [simp]: "lowerChar (lowerChar c) = lowerChar c"
  by (simp only: char_eq_nat_iff of_char_lowerChar Let_def) simp

lemma upperChar_idem [simp]: "upperChar (upperChar c) = upperChar c"
  by (simp only: char_eq_nat_iff of_char_upperChar Let_def) arith

lemma lowerChar_upperChar [simp]: "lowerChar (upperChar c) = lowerChar c"
  by (simp only: char_eq_nat_iff of_char_upperChar of_char_lowerChar Let_def) arith

lemma toLower_idem [simp]: "toLower (toLower s) = toLower s"
  by (simp add: toLower_def)

lemma toUpper_idem [simp]: "toUpper (toUpper s) = toUpper s"
  by (simp add: toUpper_def)

lemma toLower_toUpper [simp]: "toLower (toUpper s) = toLower s"
  by (simp add: toLower_def toUpper_def)

lemma length_toLower [simp]: "length (toLower s) = length s"
  by (simp add: toLower_def)

lemma length_toUpper [simp]: "length (toUpper s) = length s"
  by (simp add: toUpper_def)

lemma toUpper_Nil_iff [simp]: "toUpper s = [] \<longleftrightarrow> s = []"
  by (simp add: toUpper_def)

lemma toLower_Nil_iff [simp]: "toLower s = [] \<longleftrightarrow> s = []"
  by (simp add: toLower_def)

lemma equalFold_refl [simp]: "equalFold s s"
  by (simp add: equalFold_def)

lemma equalFold_sym: "equalFold a b \<Longrightarrow> equalFold b a"
  by (simp add: equalFold_def)

lemma equalFold_trans: "equalFold a b \<Longrightarrow> equalFold b c \<Longrightarrow> equalFold a c"
  by (simp add: equalFold_def)

lemma upperChar_lowerChar [simp]: "upperChar (lowerChar c) = upperChar c"
  by (simp only: char_eq_nat_iff of_char_upperChar of_char_lowerChar Let_def) arith

lemma equalFold_upper_iff: "equalFold a b \<longleftrightarrow> toUpper a = toUpper b"
proof
  assume "equalFold a b"
  then have "map upperChar (toLower a) = map upperChar (toLower b)"
    by (simp add: equalFold_def)
  then show "toUpper a = toUpper b"
    by (simp add: toLower_def toUpper_def comp_def)
next
  assume "toUpper a = toUpper b"
  then have "toLower (toUpper a) = toLower (toUpper b)" by simp
  then show "equalFold a b" by (simp add: equalFold_def)
qed

lemma isSpace_lowerChar [simp]: "isSpace (lowerChar c) = isSpace c"
proof -
  have space: "isSpace d \<longleftrightarrow> (of_char d :: nat) \<in> {32, 9, 10, 11, 12, 13}" for d
    by (simp add: isSpace_def char_eq_nat_iff)
  show ?thesis
    by (simp add: space of_char_lowerChar Let_def)
qed

lemma isSpace_upperChar [simp]: "isSpace (upperChar c) = isSpace c"
  by (metis isSpace_lowerChar lowerChar_upperChar)

subsection \<open>Trimming\<close>

definition trimmed :: "(char \<Rightarrow> bool) \<Rightarrow> string \<Rightarrow> bool" where
  "trimmed p s \<longleftrightarrow> s = [] \<or> (\<not> p (hd s) \<and> \<not> p (last s))"

lemma trimRightFunc_prefix: "\<exists>t. s = trimRightFunc p s @ t"
  by (metis rev_append rev_rev_ident takeWhile_dropWhile_id trimRightFunc_def)

lemma set_trimFunc: "set (trimFunc p s) \<subseteq> set s"
  by (auto simp: trimFunc_def trimRightFunc_def trimLeftFunc_def dest!: set_dropWhileD)

lemma set_trimSpace: "set (trimSpace s) \<subseteq> set s"
  by (simp add: trimSpace_def set_trimFunc)

lemma trimmed_trimFunc [simp]: "trimmed p (trimFunc p s)"
proof -
  let ?m = "trimLeftFunc p s" and ?r = "trimFunc p s"
  obtain t where t: "?m = ?r @ t"
    using trimRightFunc_prefix [of ?m p] by (auto simp: trimFunc_def)
  have "\<not> p (last ?r)" if "?r \<noteq> []"
    using that hd_dropWhile [of p "rev ?m"]
    by (auto simp: trimFunc_def trimRightFunc_def last_rev)
  moreover have "\<not> p (hd ?r)" if "?r \<noteq> []"
  proof -
    have "?m \<noteq> []" using that t by auto
    then have "\<not> p (hd ?m)" unfolding trimLeftFunc_def by (rule hd_dropWhile)
    then show ?thesis using that t by auto
  qed
  ultimately show ?thesis by (auto simp: trimmed_def)
qed

lemma trimFunc_id:
  assumes "trimmed p s"
  shows "trimFunc p s = s"
proof (cases "s = []")
  case False
  with assms have "dropWhile p s = s" and "dropWhile p (rev s) = rev s"
    by (auto simp: trimmed_def dropWhile_id_iff hd_rev)
  then show ?thesis by (simp add: trimFunc_def trimRightFunc_def trimLeftFunc_def)
qed (simp add: trimFunc_def trimRightFunc_def trimLeftFunc_def)

lemma trimFunc_idem [simp]: "trimFunc p (trimFunc p s) = trimFunc p s"
  by (simp add: trimFunc_id)

lemma trimSpace_idem [simp]: "trimSpace (trimSpace s) = trimSpace s"
  by (simp add: trimSpace_def)

lemma trimSpace_Nil [simp]: "trimSpace [] = []"
  by (simp add: trimSpace_def trimFunc_def trimLeftFunc_def trimRightFunc_def)

lemma trimSpace_id: "trimmed isSpace s \<Longrightarrow> trimSpace s = s"
  by (simp add: trimSpace_def trimFunc_id)

lemma trimmed_trimSpace [simp]: "trimmed isSpace (trimSpace s)"
  by (simp add: trimSpace_def)

lemma trimmed_no_space: "(\<forall>c\<in>set s. \<not> isSpace c) \<Longrightarrow> trimmed isSpace s"
  by (cases "s = []") (auto simp: trimmed_def)

lemma trimSpace_toUpper: "trimSpace (toUpper s) = toUpper (trimSpace s)"
  by (simp add: trimSpace_def trimFunc_def trimLeftFunc_def trimRightFunc_def toUpper_def
      dropWhile_map comp_def rev_map)

lemma trimSpace_toLower: "trimSpace (toLower s) = toLower (trimSpace s)"
  by (simp add: trimSpace_def trimFunc_def trimLeftFunc_def trimRightFunc_def toLower_def
      dropWhile_map comp_def rev_map)

subsection \<open>Prefixes and substrings\<close>

lemma hasPrefix_iff: "hasPrefix s p \<longleftrightarrow> (\<exists>t. s = p @ t)"
  by (induction s p rule: hasPrefix.induct) auto

lemma hasPrefix_append [simp]: "hasPrefix (p @ t) p"
  by (auto simp: hasPrefix_iff)

lemma hasSuffix_iff: "hasSuffix s p \<longleftrightarrow> (\<exists>t. s = t @ p)"
  unfolding hasSuffix_def hasPrefix_iff by (metis rev_append rev_rev_ident)

lemma trimPrefix_append [simp]: "trimPrefix (p @ t) p = t"
  by (simp add: trimPrefix_def)

lemma containsStr_iff: "containsStr s p \<longleftrightarrow> (\<exists>a b. s = a @ p @ b)"
proof (induction s)
  case (Cons x s)
  show ?case
  proof
    assume "containsStr (x # s) p"
    then consider "hasPrefix (x # s) p" | "containsStr s p" by auto
    then show "\<exists>a b. x # s = a @ p @ b"
    proof cases
      case 1
      then show ?thesis by (metis append_Nil hasPrefix_iff)
    next
      case 2
      then show ?thesis using Cons.IH by (metis append_Cons)
    qed
  next
    assume "\<exists>a b. x # s = a @ p @ b"
    then obtain a b where ab: "x # s = a @ p @ b" by blast
    show "containsStr (x # s) p"
    proof (cases a)
      case Nil
      with ab show ?thesis by (metis append_Nil containsStr.simps(2) hasPrefix_append)
    next
      case (Cons y a')
      with ab have "s = a' @ p @ b" by simp
      then have "containsStr s p" using Cons.IH by blast
      then show ?thesis by simp
    qed
  qed
qed simp

subsection \<open>Split, cut and join\<close>

lemma splitChar_not_Nil [simp]: "splitChar c s \<noteq> []"
  by (cases s) (auto split: list.split)

lemma splitChar_no_sep: "f \<in> set (splitChar c s) \<Longrightarrow> c \<notin> set f"
  by (induction s arbitrary: f) (auto split: if_splits list.splits)

lemma set_splitChar: "f \<in> set (splitChar c s) \<Longrightarrow> set f \<subseteq> set s"
  by (induction s arbitrary: f) (auto split: if_splits list.splits, blast+)

lemma splitChar_single: "c \<notin> set s \<Longrightarrow> splitChar c s = [s]"
  by (induction s) auto

lemma splitChar_append: "c \<notin> set a \<Longrightarrow> splitChar c (a @ c # b) = a # splitChar c b"
  by (induction a) auto

lemma splitChar_joinStr:
  "xs \<noteq> [] \<Longrightarrow> \<forall>x\<in>set xs. c \<notin> set x \<Longrightarrow> splitChar c (joinStr [c] xs) = xs"
  by (induction "[c]" xs rule: joinStr.induct) (auto simp: splitChar_single splitChar_append)

lemma joinStr_splitChar: "joinStr [c] (splitChar c s) = s"
proof (induction s)
  case (Cons x s)
  obtain y ys where "splitChar c s = y # ys"
    by (meson neq_Nil_conv splitChar_not_Nil)
  with Cons show ?case by (cases ys) auto
qed simp

lemma cutChar_spec:
  "cutChar c s = (a, b, ok) \<Longrightarrow>
     c \<notin> set a \<and> (if ok then s = a @ c # b else s = a \<and> b = [])"
proof (induction s arbitrary: a b ok)
  case (Cons x s)
  obtain a' b' ok' where "cutChar c s = (a', b', ok')" by (metis prod_cases3)
  with Cons show ?case by (auto split: if_splits)
qed simp

lemma cutChar_append: "c \<notin> set a \<Longrightarrow> cutChar c (a @ c # b) = (a, b, True)"
  by (induction a) auto

lemma cutChar_none: "c \<notin> set s \<Longrightarrow> cutChar c s = (s, [], False)"
  by (induction s) auto

lemma splitN2_cases:
  obtains "splitN2 c s = [s]" "c \<notin> set s"
  | a b where "splitN2 c s = [a, b]" "s = a @ c # b" "c \<notin> set a"
proof -
  obtain a b ok where ab: "cutChar c s = (a, b, ok)" by (metis prod_cases3)
  then show thesis
    using cutChar_spec [OF ab] that by (cases ok) (auto simp: splitN2_def)
qed

subsection \<open>Decimal numbers\<close>

lemma digitVal_digitChar: "n < 10 \<Longrightarrow> digitVal (digitChar n) = Some n"
  by (simp add: digitVal_def digitChar_def Let_def)

lemma digitVal_range: "digitVal c = Some d \<Longrightarrow> d < 10 \<and> c = digitChar d"
  by (auto simp: digitVal_def digitChar_def Let_def split: if_splits)

lemma parseDigits_append:
  "parseDigits acc (xs @ ys) =
     (case parseDigits acc xs of None \<Rightarrow> None | Some m \<Rightarrow> parseDigits m ys)"
  by (induction xs arbitrary: acc) (auto split: option.split)

lemma itoaNat_not_Nil [simp]: "itoaNat n \<noteq> []"
  by (subst itoaNat.simps) auto

lemma parseDigits_itoaNat [simp]: "parseDigits 0 (itoaNat n) = Some n"
proof (induction n rule: itoaNat.induct)
  case (1 n)
  show ?case
  proof (cases "n < 10")
    case True
    then show ?thesis by (subst itoaNat.simps) (simp add: digitVal_digitChar)
  next
    case False
    with 1 show ?thesis
      by (subst itoaNat.simps) (simp add: parseDigits_append digitVal_digitChar)
  qed
qed

lemma digits_itoaNat: "\<forall>c\<in>set (itoaNat n). digitVal c \<noteq> None"
proof (induction n rule: itoaNat.induct)
  case (1 n)
  then show ?case by (subst itoaNat.simps) (auto simp: digitVal_digitChar)
qed

lemma not_digit [simp]: "digitVal CHR ''-'' = None" "digitVal CHR ''+'' = None"
  "digitVal CHR ''.'' = None" "digitVal CHR ''*'' = None"
  by (simp_all add: digitVal_def)

lemma itoaNat_no_sign: "\<not> hasPrefix (itoaNat n) ''-''" "\<not> hasPrefix (itoaNat n) ''+''"
  using digits_itoaNat [of n] by (auto simp: hasPrefix_iff)

lemma atoi_itoa: "- (2 ^ 63) \<le> i \<Longrightarrow> i < 2 ^ 63 \<Longrightarrow> atoi (itoa i) = Some i"
  by (simp add: itoa_def atoi_def itoaNat_no_sign Let_def)

lemma atoi_range: "atoi s = Some i \<Longrightarrow> - (2 ^ 63) \<le> i \<and> i < 2 ^ 63"
  by (simp add: atoi_def Let_def split: if_splits option.splits)

lemma no_space_digit: "digitVal c \<noteq> None \<Longrightarrow> \<not> isSpace c"
  by (auto simp: isSpace_def digitVal_def)

lemma trimSpace_itoa [simp]: "trimSpace (itoa i) = itoa i"
proof -
  have "\<forall>c\<in>set (itoaNat n). \<not> isSpace c" for n
    using digits_itoaNat [of n] no_space_digit by blast
  then have "\<forall>c\<in>set (itoa i). \<not> isSpace c"
    by (auto simp: itoa_def isSpace_def)
  then show ?thesis by (simp add: trimSpace_id trimmed_no_space)
qed

subsection \<open>Evaluation of closed terms\<close>

lemmas str_eval [go_simps] =
  toLower_def toUpper_def lowerChar_def upperChar_def equalFold_def trimSpace_def trimFunc_def
  trimLeftFunc_def trimRightFunc_def isSpace_def trimCut_def trimPrefix_def trimSuffix_def
  hasSuffix_def splitN2_def digitVal_def fieldsFunc_def char_of_def bit_Suc_0_iff

end
