(* ===== verification/Net_Addr.thy ===== *)
theory Net_Addr
  imports Go_Strings
begin

text \<open>
  The parts of Go's packages \<^verbatim>\<open>net/netip\<close> and \<^verbatim>\<open>net\<close> that the sources call: addresses,
  prefixes, their parsers and printers, \<^verbatim>\<open>SplitHostPort\<close> and \<^verbatim>\<open>JoinHostPort\<close>.  An IPv4
  address is a 32-bit word, an IPv6 address a 128-bit word with a zone; the zero \<^verbatim>\<open>Addr\<close>, which
  the parsers return beside an error, is a constructor of its own.
\<close>

unbundle bit_operations_syntax

section \<open>Addresses\<close>

datatype addr = AddrZero | V4 "32 word" | V6 "128 word" string

fun isValid :: "addr \<Rightarrow> bool" where
  "isValid AddrZero = False"
| "isValid (V4 w) = True"
| "isValid (V6 w z) = True"

fun is4 :: "addr \<Rightarrow> bool" where
  "is4 (V4 w) = True"
| "is4 AddrZero = False"
| "is4 (V6 w z) = False"

fun bitLen :: "addr \<Rightarrow> nat" where
  "bitLen AddrZero = 0"
| "bitLen (V4 w) = 32"
| "bitLen (V6 w z) = 128"

definition is4In6 :: "128 word \<Rightarrow> bool" where
  "is4In6 w \<longleftrightarrow> drop_bit 32 w = 0xFFFF"

fun unmap :: "addr \<Rightarrow> addr" where
  "unmap (V6 w z) = (if is4In6 w then V4 (ucast w) else V6 w z)"
| "unmap (V4 w) = V4 w"
| "unmap AddrZero = AddrZero"

fun isLoopback :: "addr \<Rightarrow> bool" where
  "isLoopback AddrZero = False"
| "isLoopback (V4 w) = (drop_bit 24 w = 127)"
| "isLoopback (V6 w z) =
     (if is4In6 w then drop_bit 24 (ucast w :: 32 word) = 127 else w = 1)"

text \<open>\<^verbatim>\<open>Addr.As4\<close>: the four bytes, most significant first; a panic on the zero address and on an
  IPv6 address that does not embed an IPv4 one.\<close>

definition bytes4 :: "32 word \<Rightarrow> 8 word list" where
  "bytes4 w = [ucast (drop_bit 24 w), ucast (drop_bit 16 w), ucast (drop_bit 8 w), ucast w]"

fun as4 :: "addr \<Rightarrow> 8 word list go_result" where
  "as4 AddrZero = Panic ''As4 called on IP zero value''"
| "as4 (V4 w) = Return (bytes4 w)"
| "as4 (V6 w z) =
     (if is4In6 w then Return (bytes4 (ucast w)) else Panic ''As4 called on IPv6 address'')"

section \<open>Parsing addresses\<close>

definition mk4 :: "nat \<Rightarrow> nat \<Rightarrow> nat \<Rightarrow> nat \<Rightarrow> 32 word" where
  "mk4 a b c d = ((of_nat a * 256 + of_nat b) * 256 + of_nat c) * 256 + of_nat d"

definition parseOctet :: "string \<Rightarrow> nat option" where
  "parseOctet f =
     (if f = [] \<or> (1 < length f \<and> hd f = CHR ''0'') then None
      else (case parseDigits 0 f of
          None \<Rightarrow> None
        | Some n \<Rightarrow> if n \<le> 255 then Some n else None))"

definition parseIPv4Fields :: "string \<Rightarrow> (nat \<times> nat \<times> nat \<times> nat) option" where
  "parseIPv4Fields s =
     (case map parseOctet (splitChar CHR ''.'' s) of
        [Some a, Some b, Some c, Some d] \<Rightarrow> Some (a, b, c, d)
      | _ \<Rightarrow> None)"

definition parseIPv4 :: "string \<Rightarrow> addr option" where
  "parseIPv4 s = map_option (\<lambda>(a, b, c, d). V4 (mk4 a b c d)) (parseIPv4Fields s)"

definition hexVal :: "char \<Rightarrow> nat option" where
  "hexVal c =
     (let n = of_char c
      in if 48 \<le> n \<and> n \<le> 57 then Some (n - 48)
         else if 97 \<le> n \<and> n \<le> 102 then Some (n - 87)
         else if 65 \<le> n \<and> n \<le> 70 then Some (n - 55)
         else None)"

definition isHex :: "char \<Rightarrow> bool" where
  "isHex c \<longleftrightarrow> hexVal c \<noteq> None"

definition hexNat :: "string \<Rightarrow> nat" where
  "hexNat s = foldl (\<lambda>acc c. 16 * acc + (case hexVal c of None \<Rightarrow> 0 | Some d \<Rightarrow> d)) 0 s"

text \<open>The loop of \<^verbatim>\<open>parseIPv6\<close>: the first argument is the number of 16-bit groups still free,
  \<open>gs\<close> the groups read, \<open>ell\<close> the position of the ellipsis.\<close>

fun v6loop :: "nat \<Rightarrow> nat list \<Rightarrow> nat option \<Rightarrow> string \<Rightarrow> (nat list \<times> nat option \<times> string) option" where
  "v6loop 0 gs ell s = Some (gs, ell, s)"
| "v6loop (Suc n) gs ell s =
     (let h = takeWhile isHex s; r = dropWhile isHex s; gs' = gs @ [hexNat h]
      in if h = [] \<or> 4 < length h then None
         else if r = [] then Some (gs', ell, [])
         else if hd r = CHR ''.'' then
           (if ell = None \<and> length gs \<noteq> 6 then None
            else if 8 < length gs + 2 then None
            else (case parseIPv4Fields s of
                None \<Rightarrow> None
              | Some (a, b, c, d) \<Rightarrow> Some (gs @ [a * 256 + b, c * 256 + d], ell, [])))
         else if hd r \<noteq> CHR '':'' \<or> tl r = [] then None
         else if hd (tl r) = CHR '':'' then
           (if ell \<noteq> None then None
            else if tl (tl r) = [] then Some (gs', Some (length gs'), [])
            else v6loop n gs' (Some (length gs')) (tl (tl r)))
         else v6loop n gs' ell (tl r))"

definition groups6 :: "nat list \<Rightarrow> 128 word" where
  "groups6 gs = foldl (\<lambda>acc g. 65536 * acc + of_nat g) 0 gs"

definition expand6 :: "nat list \<Rightarrow> nat option \<Rightarrow> nat list option" where
  "expand6 gs ell =
     (case ell of
        None \<Rightarrow> if length gs < 8 then None else Some gs
      | Some e \<Rightarrow> if length gs < 8 then Some (take e gs @ replicate (8 - length gs) 0 @ drop e gs)
          else None)"

definition parseIPv6 :: "string \<Rightarrow> addr option" where
  "parseIPv6 input =
     (case cutChar CHR ''%'' input of (s0, zone, hasZone) \<Rightarrow>
        if hasZone \<and> zone = [] then None
        else
          (let lead = hasPrefix s0 ''::''; s = (if lead then drop 2 s0 else s0)
           in if lead \<and> s = [] then Some (V6 0 zone)
              else (case v6loop 8 [] (if lead then Some 0 else None) s of
                  None \<Rightarrow> None
                | Some (gs, ell, rest) \<Rightarrow>
                    if rest \<noteq> [] then None
                    else map_option (\<lambda>full. V6 (groups6 full) zone) (expand6 gs ell))))"

definition parseAddr :: "string \<Rightarrow> addr option" where
  "parseAddr s =
     (case dropWhile (\<lambda>c. c \<noteq> CHR ''.'' \<and> c \<noteq> CHR '':'' \<and> c \<noteq> CHR ''%'') s of
        [] \<Rightarrow> None
      | c # _ \<Rightarrow> if c = CHR ''.'' then parseIPv4 s
                else if c = CHR '':'' then parseIPv6 s
                else None)"

section \<open>Printing addresses\<close>

definition string4 :: "32 word \<Rightarrow> string" where
  "string4 w = joinStr ''.'' (map (\<lambda>b. itoaNat (unat b)) (bytes4 w))"

definition group6 :: "128 word \<Rightarrow> nat \<Rightarrow> nat" where
  "group6 w i = unat (ucast (drop_bit (16 * (7 - i)) w) :: 16 word)"

definition hexDigit :: "nat \<Rightarrow> char" where
  "hexDigit n = (if n < 10 then char_of (48 + n) else char_of (87 + n))"

fun hexStr :: "nat \<Rightarrow> string" where
  "hexStr n = (if n < 16 then [hexDigit n] else hexStr (n div 16) @ [hexDigit (n mod 16)])"

declare hexStr.simps [simp del]

text \<open>The run of zero groups that \<^verbatim>\<open>appendTo6\<close> replaces by \<^verbatim>\<open>::\<close>: the first longest one of at
  least two groups.\<close>

definition zeroRun :: "nat list \<Rightarrow> nat \<times> nat" where
  "zeroRun gs =
     fold (\<lambda>i (zs, ze).
        let j = i + length (takeWhile (\<lambda>g. g = 0) (drop i gs))
        in if 2 \<le> j - i \<and> ze - zs < j - i then (i, j) else (zs, ze))
       [0..<8] (255, 255)"

fun render6 :: "nat \<Rightarrow> nat \<Rightarrow> nat \<Rightarrow> nat list \<Rightarrow> nat \<Rightarrow> string" where
  "render6 0 zs ze gs i = []"
| "render6 (Suc n) zs ze gs i =
     (if 8 \<le> i then []
      else if i = zs then
        ''::'' @ (if 8 \<le> ze then [] else hexStr (gs ! ze) @ render6 n zs ze gs (Suc ze))
      else (if 0 < i then '':'' else []) @ hexStr (gs ! i) @ render6 n zs ze gs (Suc i))"

definition string6 :: "128 word \<Rightarrow> string \<Rightarrow> string" where
  "string6 w zone =
     (let gs = map (group6 w) [0..<8]; zse = zeroRun gs
      in render6 8 (fst zse) (snd zse) gs 0 @ (if zone = [] then [] else CHR ''%'' # zone))"

fun addrString :: "addr \<Rightarrow> string" where
  "addrString AddrZero = ''invalid IP''"
| "addrString (V4 w) = string4 w"
| "addrString (V6 w z) =
     (if is4In6 w then ''::ffff:'' @ string4 (ucast w) @ (if z = [] then [] else CHR ''%'' # z)
      else string6 w z)"

section \<open>Prefixes\<close>

text \<open>A \<^verbatim>\<open>netip.Prefix\<close>: the bits are \<^const>\<open>None\<close> when the prefix is not valid.\<close>

record prefix =
  pfx_ip :: addr
  pfx_bits :: "nat option"

fun withoutZone :: "addr \<Rightarrow> addr" where
  "withoutZone (V6 w z) = V6 w []"
| "withoutZone (V4 w) = V4 w"
| "withoutZone AddrZero = AddrZero"

definition prefixFrom :: "addr \<Rightarrow> nat \<Rightarrow> prefix" where
  "prefixFrom ip bits =
     \<lparr>pfx_ip = withoutZone ip,
      pfx_bits = (if isValid ip \<and> bits \<le> bitLen ip then Some bits else None)\<rparr>"

definition lastCut :: "char \<Rightarrow> string \<Rightarrow> (string \<times> string) option" where
  "lastCut c s =
     (case cutChar c (rev s) of (a, b, ok) \<Rightarrow> if ok then Some (rev b, rev a) else None)"

definition parsePrefix :: "string \<Rightarrow> prefix go_result" where
  "parsePrefix s =
     (case lastCut CHR ''/'' s of
        None \<Rightarrow> Error ''no slash''
      | Some (a, bitsStr) \<Rightarrow>
          (case parseAddr a of
             None \<Rightarrow> Error ''bad address''
           | Some ip \<Rightarrow>
               if (case ip of V6 w z \<Rightarrow> z \<noteq> [] | _ \<Rightarrow> False)
               then Error ''IPv6 zones cannot be present in a prefix''
               else if 1 < length bitsStr \<and>
                 (of_char (hd bitsStr) < (49 :: nat) \<or> (57 :: nat) < of_char (hd bitsStr))
               then Error ''bad bits after slash''
               else (case atoi bitsStr of
                   None \<Rightarrow> Error ''bad bits after slash''
                 | Some b \<Rightarrow>
                     if b < 0 \<or> int (bitLen ip) < b then Error ''prefix length out of range''
                     else Return (prefixFrom ip (nat b)))))"

definition maskWord :: "nat \<Rightarrow> nat \<Rightarrow> 'a::len word \<Rightarrow> 'a word" where
  "maskWord len bits w = push_bit (len - bits) (drop_bit (len - bits) w)"

definition masked :: "prefix \<Rightarrow> prefix" where
  "masked p =
     (case pfx_bits p of
        None \<Rightarrow> \<lparr>pfx_ip = AddrZero, pfx_bits = None\<rparr>
      | Some b \<Rightarrow>
          (case pfx_ip p of
             AddrZero \<Rightarrow> \<lparr>pfx_ip = AddrZero, pfx_bits = None\<rparr>
           | V4 w \<Rightarrow> prefixFrom (V4 (maskWord 32 b w)) b
           | V6 w z \<Rightarrow> prefixFrom (V6 (maskWord 128 b w) z) b))"

definition prefixContains :: "prefix \<Rightarrow> addr \<Rightarrow> bool" where
  "prefixContains p ip =
     (case pfx_bits p of
        None \<Rightarrow> False
      | Some b \<Rightarrow>
          (case (pfx_ip p, ip) of
             (V4 v, V4 w) \<Rightarrow> drop_bit (32 - b) (w XOR v) = 0
           | (V6 v zv, V6 w z) \<Rightarrow> z = [] \<and> drop_bit (128 - b) (w XOR v) = 0
           | _ \<Rightarrow> False))"

section \<open>Host and port\<close>

definition splitHostPort :: "string \<Rightarrow> (string \<times> string) option" where
  "splitHostPort hp =
     (case lastCut CHR '':'' hp of
        None \<Rightarrow> None
      | Some (pre, port) \<Rightarrow>
          if hasPrefix hp ''['' then
            (case cutChar CHR '']'' hp of (a, rest, ok) \<Rightarrow>
               if \<not> ok then None
               else if rest \<noteq> CHR '':'' # port then None
               else if CHR ''['' \<in> set (tl hp) \<or> CHR '']'' \<in> set rest then None
               else Some (tl a, port))
          else if CHR '':'' \<in> set pre then None
          else if CHR ''['' \<in> set hp \<or> CHR '']'' \<in> set hp then None
          else Some (pre, port))"

definition joinHostPort :: "string \<Rightarrow> string \<Rightarrow> string" where
  "joinHostPort host port =
     (if CHR '':'' \<in> set host then ''['' @ host @ '']:'' @ port else host @ '':'' @ port)"

section \<open>Facts\<close>

subsection \<open>The bytes of an IPv4 address\<close>

lemma unat_bytes4:
  "map unat (bytes4 w) =
     [unat w div 2 ^ 24, unat w div 2 ^ 16 mod 256, unat w div 2 ^ 8 mod 256, unat w mod 256]"
proof -
  have "unat w < 2 ^ 32" using unat32_lt [of w] by simp
  then have "unat w div 2 ^ 24 mod 256 = unat w div 2 ^ 24" by simp
  then show ?thesis
    by (simp add: bytes4_def unsigned_ucast_eq unat_drop_bit_eq drop_bit_eq_div [where 'a = nat] take_bit_eq_mod)
qed

lemma unat_mk4:
  assumes "a < 256" "b < 256" "c < 256" "d < 256"
  shows "unat (mk4 a b c d) = ((a * 256 + b) * 256 + c) * 256 + d"
proof -
  have eq: "mk4 a b c d = of_nat (((a * 256 + b) * 256 + c) * 256 + d)"
    by (simp add: mk4_def)
  have "((a * 256 + b) * 256 + c) * 256 + d < 2 ^ 32" using assms by simp
  then show ?thesis unfolding eq unat_of_nat by simp
qed

lemma mk4_bytes4:
  "bytes4 w = [b0, b1, b2, b3] \<Longrightarrow> mk4 (unat b0) (unat b1) (unat b2) (unat b3) = w"
proof -
  assume b: "bytes4 w = [b0, b1, b2, b3]"
  have lt: "unat b0 < 256" "unat b1 < 256" "unat b2 < 256" "unat b3 < 256" by simp_all
  have "unat b0 = unat w div 2 ^ 24" "unat b1 = unat w div 2 ^ 16 mod 256"
    "unat b2 = unat w div 2 ^ 8 mod 256" "unat b3 = unat w mod 256"
    using unat_bytes4 [of w] b by simp_all
  then have "unat (mk4 (unat b0) (unat b1) (unat b2) (unat b3)) = unat w"
    unfolding unat_mk4 [OF lt] by (simp only: recompose4)
  then show ?thesis by (simp add: word_unat_eq_iff)
qed

lemma bytes4_mk4:
  assumes "a < 256" "b < 256" "c < 256" "d < 256"
  shows "map unat (bytes4 (mk4 a b c d)) = [a, b, c, d]"
proof -
  let ?m1 = "a * 256 + b"
  let ?m2 = "?m1 * 256 + c"
  let ?m3 = "?m2 * 256 + d"
  have "?m3 div 2 ^ 8 = ?m2" using assms div256(1) [of d ?m2] by simp
  moreover have "?m3 div 2 ^ 16 = ?m1"
    using assms div256(1) [of d ?m2] div256(1) [of c ?m1] div_mult2_eq [of ?m3 256 256] by simp
  moreover have "?m3 div 2 ^ 24 = a"
    using assms calculation(2) div256(1) [of b a] div_mult2_eq [of ?m3 65536 256] by simp
  ultimately show ?thesis
    unfolding unat_bytes4 unat_mk4 [OF assms] using assms
    by (simp only: div256)
qed

lemma bytes4_inj: "bytes4 v = bytes4 w \<Longrightarrow> v = w"
proof -
  assume eq: "bytes4 v = bytes4 w"
  obtain b0 b1 b2 b3 where "bytes4 v = [b0, b1, b2, b3]" by (simp add: bytes4_def)
  then show ?thesis using eq mk4_bytes4 by metis
qed

text \<open>Comparing the bytes from the most significant one is comparing the words.\<close>

lemma lex4_less:
  fixes a b c d a' b' c' d' :: nat
  assumes "b < 256" "c < 256" "d < 256" "b' < 256" "c' < 256" "d' < 256"
  shows "((a * 256 + b) * 256 + c) * 256 + d < ((a' * 256 + b') * 256 + c') * 256 + d' \<longleftrightarrow>
    a < a' \<or> (a = a' \<and> (b < b' \<or> (b = b' \<and> (c < c' \<or> (c = c' \<and> d < d')))))"
  using assms by (simp only: lex256_less) auto

subsection \<open>Printing and parsing\<close>

lemma itoaNat_lt10: "n < 10 \<Longrightarrow> itoaNat n = [digitChar n]"
  by (simp add: itoaNat.simps)

lemma hd_itoaNat: "0 < n \<Longrightarrow> hd (itoaNat n) \<noteq> CHR ''0''"
proof (induction n rule: itoaNat.induct)
  case (1 n)
  have digit: "digitChar k \<noteq> CHR ''0''" if "0 < k" "k < 10" for k
    using that digitVal_digitChar [of k] by (auto simp: digitVal_def)
  show ?case
  proof (cases "n < 10")
    case True
    then show ?thesis using digit 1 by (simp add: itoaNat_lt10)
  next
    case False
    then have "hd (itoaNat (n div 10)) \<noteq> CHR ''0''" using "1.IH" by simp
    with False show ?thesis by (subst itoaNat.simps) simp
  qed
qed

lemma parseOctet_itoaNat: "n < 256 \<Longrightarrow> parseOctet (itoaNat n) = Some n"
proof -
  assume n: "n < 256"
  have "\<not> (1 < length (itoaNat n) \<and> hd (itoaNat n) = CHR ''0'')"
  proof (cases "n = 0")
    case True
    then show ?thesis by (simp add: itoaNat_lt10)
  next
    case False
    then show ?thesis using hd_itoaNat by simp
  qed
  then show ?thesis using n by (auto simp: parseOctet_def)
qed

lemma parseOctet_range: "parseOctet f = Some n \<Longrightarrow> n < 256"
  by (auto simp: parseOctet_def split: if_splits option.splits)

lemma no_dot_itoaNat: "CHR ''.'' \<notin> set (itoaNat n)"
  using digits_itoaNat [of n] by auto

lemma parseIPv4Fields_join:
  "parseIPv4Fields (joinStr ''.'' [itoaNat a, itoaNat b, itoaNat c, itoaNat d]) =
     (if a < 256 \<and> b < 256 \<and> c < 256 \<and> d < 256 then Some (a, b, c, d)
      else parseIPv4Fields (joinStr ''.'' [itoaNat a, itoaNat b, itoaNat c, itoaNat d]))"
proof -
  have "splitChar CHR ''.'' (joinStr ''.'' [itoaNat a, itoaNat b, itoaNat c, itoaNat d]) =
      [itoaNat a, itoaNat b, itoaNat c, itoaNat d]"
    by (rule splitChar_joinStr) (auto simp: no_dot_itoaNat)
  then show ?thesis by (auto simp: parseIPv4Fields_def parseOctet_itoaNat)
qed

lemma parseAddr_dotted:
  assumes "\<forall>c\<in>set a. digitVal c \<noteq> None"
  shows "parseAddr (a @ CHR ''.'' # s) = parseIPv4 (a @ CHR ''.'' # s)"
proof -
  have "c \<noteq> CHR ''.'' \<and> c \<noteq> CHR '':'' \<and> c \<noteq> CHR ''%''" if "c \<in> set a" for c
    using assms that by (auto simp: digitVal_def)
  then have "dropWhile (\<lambda>c. c \<noteq> CHR ''.'' \<and> c \<noteq> CHR '':'' \<and> c \<noteq> CHR ''%'') (a @ CHR ''.'' # s) =
      CHR ''.'' # s"
    by (simp add: dropWhile_append3)
  then show ?thesis by (simp add: parseAddr_def)
qed

lemma parseAddr_string4: "parseAddr (string4 w) = Some (V4 w)"
proof -
  obtain b0 b1 b2 b3 where b: "bytes4 w = [b0, b1, b2, b3]" by (simp add: bytes4_def)
  have lt: "unat b0 < 256" "unat b1 < 256" "unat b2 < 256" "unat b3 < 256" by simp_all
  have s: "string4 w = joinStr ''.'' [itoaNat (unat b0), itoaNat (unat b1), itoaNat (unat b2), itoaNat (unat b3)]"
    by (simp add: string4_def b)
  have "parseAddr (string4 w) = parseIPv4 (string4 w)"
    using parseAddr_dotted [OF digits_itoaNat] by (simp add: s)
  also have "\<dots> = Some (V4 w)"
    using parseIPv4Fields_join [of "unat b0" "unat b1" "unat b2" "unat b3"] lt mk4_bytes4 [OF b]
    by (simp add: parseIPv4_def s del: joinStr.simps)
  finally show ?thesis .
qed

lemma string4_inj: "string4 v = string4 w \<Longrightarrow> v = w"
  by (metis addr.inject(1) option.inject parseAddr_string4)

subsection \<open>Prefixes\<close>

lemma unmap_idem [simp]: "unmap (unmap ip) = unmap ip"
  by (cases ip) auto

lemma unmap_V4_or_V6: "isValid ip \<Longrightarrow> isValid (unmap ip)"
  by (cases ip) auto

lemma drop_bit_xor_zero:
  "drop_bit n (v XOR w) = 0 \<longleftrightarrow> drop_bit n v = (drop_bit n w :: 'a::len word)"
  by (simp add: drop_bit_xor word_xor_eq_0_iff)

lemma prefixContains_V4:
  "prefixContains \<lparr>pfx_ip = V4 v, pfx_bits = Some b\<rparr> (V4 w) \<longleftrightarrow>
     unat w div 2 ^ (32 - b) = unat v div 2 ^ (32 - b)"
proof -
  have "prefixContains \<lparr>pfx_ip = V4 v, pfx_bits = Some b\<rparr> (V4 w) \<longleftrightarrow>
      unat (drop_bit (32 - b) w) = unat (drop_bit (32 - b) v)"
    by (auto simp: prefixContains_def word_xor_eq_0_iff dest: unsigned_word_eqI)
  then show ?thesis by (simp add: unat_drop_bit_eq drop_bit_eq_div [where 'a = nat])
qed

lemma drop_bit_maskWord:
  fixes w :: "'a::len word"
  assumes "LENGTH('a) = len"
  shows "drop_bit (len - b) (maskWord len b w) = drop_bit (len - b) w"
proof -
  have "take_bit b (drop_bit (len - b) w) = drop_bit (len - b) w" if "b \<le> len"
  proof (rule bit_word_eqI)
    fix n assume "n < LENGTH('a)"
    then show "bit (take_bit b (drop_bit (len - b) w)) n = bit (drop_bit (len - b) w) n"
      using that assms bit_imp_le_length [of w "len - b + n"] by (auto simp: bit_simps)
  qed
  then show ?thesis
    unfolding maskWord_def
    by (intro bit_word_eqI) (use assms bit_imp_le_length [of w] in \<open>auto simp: bit_simps\<close>)
qed

text \<open>Clearing the host bits of a prefix does not change which addresses it contains.\<close>

lemma prefixContains_masked: "prefixContains (masked (prefixFrom ip b)) a = prefixContains (prefixFrom ip b) a"
proof (cases ip)
  case (V4 w)
  show ?thesis
    by (cases a) (auto simp: V4 masked_def prefixFrom_def prefixContains_def drop_bit_xor_zero drop_bit_maskWord)
next
  case (V6 w z)
  show ?thesis
    by (cases a) (auto simp: V6 masked_def prefixFrom_def prefixContains_def drop_bit_xor_zero drop_bit_maskWord)
qed (simp add: masked_def prefixFrom_def prefixContains_def)

subsection \<open>Host and port\<close>

lemma lastCut_append: "c \<notin> set b \<Longrightarrow> lastCut c (a @ c # b) = Some (a, b)"
  by (simp add: lastCut_def cutChar_append)

lemma lastCut_none: "c \<notin> set s \<Longrightarrow> lastCut c s = None"
  by (simp add: lastCut_def cutChar_none)

lemma splitHostPort_join:
  assumes "CHR ''['' \<notin> set host" "CHR '']'' \<notin> set host"
    "CHR '':'' \<notin> set port" "CHR ''['' \<notin> set port" "CHR '']'' \<notin> set port"
  shows "splitHostPort (joinHostPort host port) = Some (host, port)"
proof (cases "CHR '':'' \<in> set host")
  case False
  have "lastCut CHR '':'' (host @ CHR '':'' # port) = Some (host, port)"
    using assms lastCut_append by blast
  moreover have "\<not> hasPrefix (host @ CHR '':'' # port) ''[''"
    using assms by (cases host) auto
  ultimately show ?thesis
    using False assms by (simp add: splitHostPort_def joinHostPort_def)
next
  case True
  have "lastCut CHR '':'' ((CHR ''['' # host @ [CHR '']'']) @ CHR '':'' # port) =
      Some (CHR ''['' # host @ [CHR '']''], port)"
    using assms lastCut_append by blast
  moreover have "cutChar CHR '']'' ((CHR ''['' # host) @ CHR '']'' # CHR '':'' # port) =
      (CHR ''['' # host, CHR '':'' # port, True)"
    by (rule cutChar_append) (use assms in auto)
  ultimately show ?thesis
    using True assms by (simp add: splitHostPort_def joinHostPort_def)
qed

subsection \<open>Evaluation of closed terms\<close>

lemmas addr_eval [go_simps] =
  parseAddr_def parseIPv4_def parseIPv4Fields_def parseOctet_def parseIPv6_def expand6_def
  groups6_def isHex_def hexVal_def hexNat_def splitHostPort_def lastCut_def

end
