(* ===== verification/Network.thy ===== *)
theory Network
  imports Net_Addr
begin

text \<open>
  \<^verbatim>\<open>internal/network/network.go\<close>: the matcher behind \<^verbatim>\<open>allow\<close> and \<^verbatim>\<open>noproxy\<close>.  The
  definitions follow the file top to bottom; an error of \<^verbatim>\<open>Parse\<close> is \<^const>\<open>Error\<close>, a panic
  of \<^verbatim>\<open>MustParseAddr\<close> or \<^verbatim>\<open>As4\<close> is \<^const>\<open>Panic\<close>.  Name resolution is an argument: a
  function from a host to its addresses, \<^const>\<open>None\<close> when the lookup fails.
\<close>

section \<open>The matcher\<close>

type_synonym resolver = "string \<Rightarrow> addr list option"

record ipRange =
  rng_start :: addr
  rng_end :: addr

record matcher =
  m_all :: bool
  m_ranges :: "ipRange list"
  m_prefixes :: "prefix list"
  m_domains :: "string list"
  m_hosts :: "string set"

definition emptyMatcher :: matcher where
  "emptyMatcher = \<lparr>m_all = False, m_ranges = [], m_prefixes = [], m_domains = [], m_hosts = {}\<rparr>"

definition splitCSV :: "string \<Rightarrow> string list" where
  "splitCSV value =
     (if trimSpace value = [] then []
      else filter (\<lambda>part. part \<noteq> []) (map trimSpace (splitChar CHR '','' value)))"

definition isIP :: "string \<Rightarrow> bool" where
  "isIP value \<longleftrightarrow> parseAddr value \<noteq> None"

definition mustParseAddr :: "string \<Rightarrow> addr go_result" where
  "mustParseAddr s =
     (case parseAddr s of None \<Rightarrow> Panic ''ParseAddr: unable to parse IP'' | Some a \<Rightarrow> Return a)"

definition mustParsePrefix :: "string \<Rightarrow> prefix go_result" where
  "mustParsePrefix s = (case parsePrefix s of Return p \<Rightarrow> Return p | _ \<Rightarrow> Panic ''ParsePrefix'')"

text \<open>The loop over the four parts: the start and end texts, or the error of \<^verbatim>\<open>Atoi\<close>.\<close>

fun wildcardParts :: "string list \<Rightarrow> (string list \<times> string list) option" where
  "wildcardParts [] = Some ([], [])"
| "wildcardParts (part # parts) =
     (if part = ''*'' then
        map_option (\<lambda>(ss, es). (''0'' # ss, ''255'' # es)) (wildcardParts parts)
      else if atoi part = None then None
      else map_option (\<lambda>(ss, es). (part # ss, part # es)) (wildcardParts parts))"

definition wildcardRange :: "string \<Rightarrow> ipRange go_result" where
  "wildcardRange pattern =
     (let parts = splitChar CHR ''.'' pattern
      in if length parts \<noteq> 4 then Error ''invalid wildcard''
         else (case wildcardParts parts of
             None \<Rightarrow> Error ''invalid wildcard''
           | Some (startParts, endParts) \<Rightarrow>
               go_bind (mustParseAddr (joinStr ''.'' startParts)) (\<lambda>start.
               go_bind (mustParseAddr (joinStr ''.'' endParts)) (\<lambda>end.
               Return \<lparr>rng_start = start, rng_end = end\<rparr>))))"

definition parseAddrErr :: "string \<Rightarrow> addr go_result" where
  "parseAddrErr s = (case parseAddr s of None \<Rightarrow> Error ''unable to parse IP'' | Some a \<Rightarrow> Return a)"

text \<open>One turn of the loop of \<^verbatim>\<open>Parse\<close>: the cases of its \<^verbatim>\<open>switch\<close> in their order.\<close>

definition parseItem :: "matcher \<Rightarrow> string \<Rightarrow> matcher go_result" where
  "parseItem m item =
     (if item = ''*'' \<or> item = ''*.*.*.*'' then Return (m\<lparr>m_all := True\<rparr>)
      else if equalFold item ''<local>'' then
        go_bind (mustParsePrefix ''127.0.0.0/8'') (\<lambda>p.
          Return (m\<lparr>m_domains := m_domains m @ [''localhost''], m_prefixes := m_prefixes m @ [p]\<rparr>))
      else if CHR ''/'' \<in> set item then
        go_bind (parsePrefix item) (\<lambda>p. Return (m\<lparr>m_prefixes := m_prefixes m @ [masked p]\<rparr>))
      else if count_list item CHR ''-'' = 1 then
        (case splitN2 CHR ''-'' item of
           [a, b] \<Rightarrow>
             go_bind (parseAddrErr (trimSpace a)) (\<lambda>start.
             go_bind (parseAddrErr (trimSpace b)) (\<lambda>end.
             Return (m\<lparr>m_ranges := m_ranges m @ [\<lparr>rng_start = unmap start, rng_end = unmap end\<rparr>]\<rparr>)))
         | _ \<Rightarrow> Panic ''index out of range'')
      else if CHR ''*'' \<in> set item then
        go_bind (wildcardRange item) (\<lambda>rng. Return (m\<lparr>m_ranges := m_ranges m @ [rng]\<rparr>))
      else (case parseAddr item of
          Some addr \<Rightarrow>
            Return (m\<lparr>m_prefixes := m_prefixes m @ [prefixFrom (unmap addr) (bitLen addr)]\<rparr>)
        | None \<Rightarrow>
            (let d = toLower (trimPrefix (trimSpace item) ''.'')
             in Return (m\<lparr>m_domains := m_domains m @ [d], m_hosts := insert d (m_hosts m)\<rparr>))))"

fun parseItems :: "matcher \<Rightarrow> string list \<Rightarrow> matcher go_result" where
  "parseItems m [] = Return m"
| "parseItems m (item # items) = go_bind (parseItem m item) (\<lambda>m'. parseItems m' items)"

definition Parse :: "string \<Rightarrow> matcher go_result" where
  "Parse value = parseItems emptyMatcher (splitCSV value)"

section \<open>Matching addresses\<close>

fun cmpBytes :: "8 word list \<Rightarrow> 8 word list \<Rightarrow> int" where
  "cmpBytes (x # xs) (y # ys) = (if x < y then -1 else if x > y then 1 else cmpBytes xs ys)"
| "cmpBytes _ _ = 0"

definition compareAddr :: "addr \<Rightarrow> addr \<Rightarrow> int go_result" where
  "compareAddr a b = go_bind (as4 a) (\<lambda>ab. go_bind (as4 b) (\<lambda>bb. Return (cmpBytes ab bb)))"

fun matchRanges :: "ipRange list \<Rightarrow> addr \<Rightarrow> bool go_result" where
  "matchRanges [] ip = Return False"
| "matchRanges (rng # rngs) ip =
     go_bind (compareAddr ip (rng_start rng)) (\<lambda>lo.
       if lo \<ge> 0 then
         go_bind (compareAddr ip (rng_end rng)) (\<lambda>hi.
           if hi \<le> 0 then Return True else matchRanges rngs ip)
       else matchRanges rngs ip)"

definition matchIP :: "matcher option \<Rightarrow> addr \<Rightarrow> bool go_result" where
  "matchIP mo ip =
     (case mo of
        None \<Rightarrow> Return False
      | Some m \<Rightarrow>
          if m_all m then Return True
          else
            (let ip' = unmap ip
             in if list_ex (\<lambda>p. prefixContains p ip') (m_prefixes m) then Return True
                else matchRanges (m_ranges m) ip'))"

section \<open>Matching hosts\<close>

definition normalizeHost :: "string \<Rightarrow> string" where
  "normalizeHost host0 =
     (let host = trimSpace (toLower host0)
      in case (if CHR '':'' \<in> set host then splitHostPort host else None) of
           Some (h, port) \<Rightarrow> trimCut h ''[]''
         | None \<Rightarrow> trimCut host ''[]'')"

definition defaultResolver :: "resolver \<Rightarrow> resolver" where
  "defaultResolver lookupNetIP host = map_option (map unmap) (lookupNetIP host)"

fun containsFunc :: "addr list \<Rightarrow> (addr \<Rightarrow> bool go_result) \<Rightarrow> bool go_result" where
  "containsFunc [] f = Return False"
| "containsFunc (ip # ips) f = go_bind (f ip) (\<lambda>b. if b then Return True else containsFunc ips f)"

definition matchHost :: "resolver \<Rightarrow> matcher option \<Rightarrow> string \<Rightarrow> resolver option \<Rightarrow> bool go_result" where
  "matchHost lookupNetIP mo host0 resolver0 =
     (case mo of
        None \<Rightarrow> Return False
      | Some m \<Rightarrow>
          (let host = normalizeHost host0
           in if host = [] then Return False
              else (case parseAddr host of
                  Some ip \<Rightarrow> matchIP mo ip
                | None \<Rightarrow>
                    if host \<in> m_hosts m then Return True
                    else if list_ex (\<lambda>d. host = d \<or> hasSuffix host (CHR ''.'' # d)) (m_domains m)
                    then Return True
                    else
                      (let resolver = (case resolver0 of
                           None \<Rightarrow> defaultResolver lookupNetIP | Some r \<Rightarrow> r)
                       in case resolver host of
                            None \<Rightarrow> Return False
                          | Some ips \<Rightarrow> containsFunc ips (matchIP mo)))))"

section \<open>Facts\<close>

lemma splitCSV_items:
  "x \<in> set (splitCSV v) \<Longrightarrow> x \<noteq> [] \<and> trimmed isSpace x \<and> CHR '','' \<notin> set x"
  by (auto simp: splitCSV_def dest: splitChar_no_sep set_trimSpace [THEN subsetD] split: if_splits)

lemma splitCSV_join:
  assumes "\<forall>x\<in>set xs. x \<noteq> [] \<and> trimmed isSpace x \<and> CHR '','' \<notin> set x"
  shows "splitCSV (joinStr '','' xs) = xs"
proof (cases "xs = []")
  case False
  have split: "splitChar CHR '','' (joinStr '','' xs) = xs"
    using False assms by (intro splitChar_joinStr) auto
  have "map trimSpace xs = xs" using assms by (intro map_idI) (simp add: trimSpace_id)
  moreover have "filter (\<lambda>x. x \<noteq> []) xs = xs" using assms by simp
  moreover have "trimSpace (joinStr '','' xs) \<noteq> []"
  proof -
    obtain x xs' where x: "xs = x # xs'" using False by (cases xs) auto
    then have "hd (joinStr '','' xs) = hd x" and "joinStr '','' xs \<noteq> []"
      using assms by (cases xs'; simp)+
    moreover have "\<not> isSpace (hd x)" using assms x by (auto simp: trimmed_def)
    ultimately have "trimLeftFunc isSpace (joinStr '','' xs) = joinStr '','' xs"
      by (simp add: trimLeftFunc_def dropWhile_id_iff)
    then have "trimSpace (joinStr '','' xs) = [] \<longleftrightarrow> (\<forall>c\<in>set (joinStr '','' xs). isSpace c)"
      by (simp add: trimSpace_def trimFunc_def trimRightFunc_def)
    then show ?thesis
      using \<open>hd (joinStr '','' xs) = hd x\<close> \<open>joinStr '','' xs \<noteq> []\<close> \<open>\<not> isSpace (hd x)\<close>
      by (metis hd_in_set)
  qed
  ultimately show ?thesis by (simp add: splitCSV_def split)
qed (simp add: splitCSV_def)

lemma cmpBytes_bytes4:
  "cmpBytes (bytes4 v) (bytes4 w) = (if v < w then -1 else if w < v then 1 else 0)"
proof -
  obtain a b c d where v: "bytes4 v = [a, b, c, d]" by (simp add: bytes4_def)
  obtain a' b' c' d' where w: "bytes4 w = [a', b', c', d']" by (simp add: bytes4_def)
  have num: "unat u = ((unat p * 256 + unat q) * 256 + unat r) * 256 + unat s"
    if "bytes4 u = [p, q, r, s]" for u p q r s
    using unat_mk4 [of "unat p" "unat q" "unat r" "unat s"] mk4_bytes4 [OF that] by simp
  have "x < y \<longleftrightarrow> p < p' \<or> (p = p' \<and> (q < q' \<or> (q = q' \<and> (r < r' \<or> (r = r' \<and> s < s')))))"
    if "bytes4 x = [p, q, r, s]" "bytes4 y = [p', q', r', s']" for x y p q r s p' q' r' s'
    unfolding word_less_nat_alt num [OF that(1)] num [OF that(2)]
    by (subst lex4_less) (simp_all add: word_unat_eq_iff)
  note less = this [OF v w] this [OF w v]
  show ?thesis
    unfolding v w less cmpBytes.simps
    by (cases a a' rule: linorder_cases; cases b b' rule: linorder_cases;
        cases c c' rule: linorder_cases; cases d d' rule: linorder_cases;
        simp add: order_less_not_sym order_less_imp_not_eq order_less_imp_not_eq2)
qed

lemma compareAddr_V4:
  "compareAddr (V4 v) (V4 w) = Return (if v < w then -1 else if w < v then 1 else 0)"
  by (simp add: compareAddr_def cmpBytes_bytes4)

definition ranges_v4 :: "ipRange list \<Rightarrow> bool" where
  "ranges_v4 rngs \<longleftrightarrow> (\<forall>r\<in>set rngs. is4 (rng_start r) \<and> is4 (rng_end r))"

fun word4 :: "addr \<Rightarrow> 32 word" where
  "word4 (V4 w) = w"
| "word4 AddrZero = 0"
| "word4 (V6 w z) = 0"

lemma is4_word4: "is4 a \<longleftrightarrow> a = V4 (word4 a)"
  by (cases a) auto

lemma matchRanges_V4:
  "ranges_v4 rngs \<Longrightarrow> matchRanges rngs (V4 w) =
     Return (\<exists>r\<in>set rngs. word4 (rng_start r) \<le> w \<and> w \<le> word4 (rng_end r))"
proof (induction rngs)
  case (Cons r rngs)
  obtain s e where "rng_start r = V4 s" "rng_end r = V4 e"
    using Cons.prems by (auto simp: ranges_v4_def is4_word4)
  then show ?case using Cons by (auto simp: ranges_v4_def compareAddr_V4)
qed simp

text \<open>The addresses a matcher stands for: the IPv4 words its rules cover.\<close>

definition denote :: "matcher \<Rightarrow> 32 word set" where
  "denote m = {w. m_all m \<or> (\<exists>p\<in>set (m_prefixes m). prefixContains p (V4 w)) \<or>
     (\<exists>r\<in>set (m_ranges m). word4 (rng_start r) \<le> w \<and> w \<le> word4 (rng_end r))}"

lemma matchIP_V4:
  "ranges_v4 (m_ranges m) \<Longrightarrow> matchIP (Some m) (V4 w) = Return (w \<in> denote m)"
  by (auto simp: matchIP_def denote_def list_ex_iff Let_def matchRanges_V4)

lemma matchIP_unmap: "matchIP mo (unmap ip) = matchIP mo ip"
  by (simp add: matchIP_def split: option.split)

section \<open>The interface the server uses\<close>

text \<open>
  A matcher is used through its answer on an address alone.  The laws: on an IPv4 address the
  answer is membership in the set the matcher stands for, and an IPv4-mapped IPv6 address is
  treated as the IPv4 address it embeds.
\<close>

locale ip_matcher =
  fixes matches :: "'m \<Rightarrow> addr \<Rightarrow> bool go_result"
    and wf :: "'m \<Rightarrow> bool"
    and covers :: "'m \<Rightarrow> 32 word set"
  assumes matches_V4: "wf m \<Longrightarrow> matches m (V4 w) = Return (w \<in> covers m)"
    and matches_unmap: "matches m (unmap ip) = matches m ip"
begin

lemma matches_mapped:
  "wf m \<Longrightarrow> is4In6 w \<Longrightarrow> matches m (V6 w z) = Return (ucast w \<in> covers m)"
  using matches_unmap [of m "V6 w z"] by (simp add: matches_V4)

lemma matches_no_panic: "wf m \<Longrightarrow> is4 (unmap ip) \<Longrightarrow> \<not> is_panic (matches m ip)"
  using matches_unmap [of m ip] matches_V4 [of m] by (cases "unmap ip") (metis is4.simps is_panic.simps(2))+

end

interpretation nm: ip_matcher "\<lambda>m. matchIP (Some m)" "\<lambda>m. ranges_v4 (m_ranges m)" denote
  by unfold_locales (simp_all add: matchIP_V4 matchIP_unmap)

end
