(* ===== verification/Network_Rules.thy ===== *)
theory Network_Rules
  imports Network
begin

text \<open>
  What the rule language of \<^verbatim>\<open>allow\<close> and \<^verbatim>\<open>noproxy\<close> means, and that \<^verbatim>\<open>network.Parse\<close> with
  \<^verbatim>\<open>MatchIP\<close> and \<^verbatim>\<open>MatchHost\<close> implements it.  A \<open>rule\<close> is one comma-separated item;
  \<open>rule_text\<close> is how it is written, \<open>rule_matches\<close> the set of addresses it means.
\<close>

section \<open>The rule language\<close>

datatype rule =
    RAll
  | RLocal
  | RCidr "32 word" nat
  | RHost "32 word"
  | RRange "32 word" "32 word"
  | RWild "nat list"
  | RDomain string

fun rule_text :: "rule \<Rightarrow> string" where
  "rule_text RAll = ''*''"
| "rule_text RLocal = ''<local>''"
| "rule_text (RCidr w n) = string4 w @ ''/'' @ itoaNat n"
| "rule_text (RHost w) = string4 w"
| "rule_text (RRange a b) = string4 a @ ''-'' @ string4 b"
| "rule_text (RWild fixed) =
     joinStr ''.'' (map itoaNat fixed @ replicate (4 - length fixed) ''*'')"
| "rule_text (RDomain d) = d"

fun rule_matches :: "rule \<Rightarrow> 32 word \<Rightarrow> bool" where
  "rule_matches RAll w = True"
| "rule_matches RLocal w = (unat w div 2 ^ 24 = 127)"
| "rule_matches (RCidr v n) w = (unat w div 2 ^ (32 - n) = unat v div 2 ^ (32 - n))"
| "rule_matches (RHost v) w = (w = v)"
| "rule_matches (RRange a b) w = (a \<le> w \<and> w \<le> b)"
| "rule_matches (RWild fixed) w = (take (length fixed) (map unat (bytes4 w)) = fixed)"
| "rule_matches (RDomain d) w = False"

text \<open>A domain rule is any item that is not an address, a CIDR block, a wildcard or a range of two addresses.
  \<^verbatim>\<open>Parse\<close> does not read all of them: a name with exactly one hyphen is \<open>hyphenated\<close>.\<close>

definition address_range :: "string \<Rightarrow> bool" where
  "address_range d \<longleftrightarrow> count_list d CHR ''-'' = 1 \<and> list_all (\<lambda>p. parseAddr (trimSpace p) \<noteq> None) (splitN2 CHR ''-'' d)"

definition domain_item :: "string \<Rightarrow> bool" where
  "domain_item d \<longleftrightarrow> d \<noteq> [] \<and> trimmed isSpace d \<and> set d \<inter> set '',/*<'' = {} \<and> parseAddr d = None \<and> \<not> address_range d"

fun hyphenated :: "rule \<Rightarrow> bool" where
  "hyphenated (RDomain d) = (count_list d CHR ''-'' = 1)"
| "hyphenated _ = False"

fun rule_wf :: "rule \<Rightarrow> bool" where
  "rule_wf (RCidr w n) = (n \<le> 32)"
| "rule_wf (RWild fixed) = (length fixed \<le> 3 \<and> (\<forall>n\<in>set fixed. n < 256))"
| "rule_wf (RDomain d) = domain_item d"
| "rule_wf r = True"

definition rules_text :: "rule list \<Rightarrow> string" where
  "rules_text rs = joinStr '','' (map rule_text rs)"

section \<open>The effect of one item\<close>

definition wildLo :: "nat list \<Rightarrow> nat list" where
  "wildLo fixed = fixed @ replicate (4 - length fixed) 0"

definition wildHi :: "nat list \<Rightarrow> nat list" where
  "wildHi fixed = fixed @ replicate (4 - length fixed) 255"

fun mk4_list :: "nat list \<Rightarrow> 32 word" where
  "mk4_list [a, b, c, d] = mk4 a b c d"
| "mk4_list _ = 0"

fun rule_effect :: "rule \<Rightarrow> matcher \<Rightarrow> matcher" where
  "rule_effect RAll m = m\<lparr>m_all := True\<rparr>"
| "rule_effect RLocal m = m\<lparr>m_domains := m_domains m @ [''localhost''],
     m_prefixes := m_prefixes m @ [prefixFrom (V4 (mk4 127 0 0 0)) 8]\<rparr>"
| "rule_effect (RCidr w n) m = m\<lparr>m_prefixes := m_prefixes m @ [masked (prefixFrom (V4 w) n)]\<rparr>"
| "rule_effect (RHost w) m = m\<lparr>m_prefixes := m_prefixes m @ [prefixFrom (V4 w) 32]\<rparr>"
| "rule_effect (RRange a b) m = m\<lparr>m_ranges := m_ranges m @ [\<lparr>rng_start = V4 a, rng_end = V4 b\<rparr>]\<rparr>"
| "rule_effect (RWild fixed) m =
     (if fixed = [] then m\<lparr>m_all := True\<rparr>
      else m\<lparr>m_ranges := m_ranges m @
        [\<lparr>rng_start = V4 (mk4_list (wildLo fixed)), rng_end = V4 (mk4_list (wildHi fixed))\<rparr>]\<rparr>)"
| "rule_effect (RDomain d) m =
     (let d' = toLower (trimPrefix d ''.'')
      in m\<lparr>m_domains := m_domains m @ [d'], m_hosts := insert d' (m_hosts m)\<rparr>)"

section \<open>Items are read back\<close>

lemma equalFold_local: "equalFold s ''<local>'' \<Longrightarrow> CHR ''<'' \<in> set s"
proof -
  assume "equalFold s ''<local>''"
  then have eq: "toLower s = toLower ''<local>''" by (simp add: equalFold_def)
  then obtain c s' where s: "s = c # s'" by (cases s) (auto simp: toLower_def)
  with eq have "lowerChar c = CHR ''<''" by (simp add: toLower_def lowerChar_def)
  then have "(of_char (lowerChar c) :: nat) = 60" by simp
  then have "(of_char c :: nat) = 60" unfolding of_char_lowerChar Let_def by (simp split: if_splits)
  then have "c = CHR ''<''" by (simp add: char_eq_nat_iff)
  with s show ?thesis by simp
qed

lemma set_joinStr: "set (joinStr sep xs) \<subseteq> set sep \<union> \<Union> (set ` set xs)"
  by (induction sep xs rule: joinStr.induct) auto

lemma digit_not:
  "digitVal c \<noteq> None \<Longrightarrow> c \<notin> set ''.:%,/*<-[]''"
  by (auto simp: digitVal_def)

lemma itoaNat_chars: "c \<in> set (itoaNat n) \<Longrightarrow> c \<notin> set ''.:%,/*<-[]''"
  using digits_itoaNat [of n] digit_not [of c] by blast

lemma string4_chars: "c \<in> set (string4 w) \<Longrightarrow> c = CHR ''.'' \<or> c \<notin> set ''.:%,/*<-[]''"
  using set_joinStr [of "''.''" "map (\<lambda>b. itoaNat (unat b)) (bytes4 w)"] itoaNat_chars
  by (fastforce simp: string4_def)

lemma string4_notin [simp]:
  "CHR '','' \<notin> set (string4 w)" "CHR ''/'' \<notin> set (string4 w)" "CHR ''*'' \<notin> set (string4 w)"
  "CHR ''<'' \<notin> set (string4 w)" "CHR ''-'' \<notin> set (string4 w)" "CHR '':'' \<notin> set (string4 w)"
  "CHR ''['' \<notin> set (string4 w)" "CHR '']'' \<notin> set (string4 w)"
  using string4_chars [of _ w] by fastforce+

lemma itoaNat_notin [simp]:
  "CHR '','' \<notin> set (itoaNat n)" "CHR ''/'' \<notin> set (itoaNat n)" "CHR ''*'' \<notin> set (itoaNat n)"
  "CHR ''<'' \<notin> set (itoaNat n)" "CHR ''-'' \<notin> set (itoaNat n)" "CHR ''.'' \<notin> set (itoaNat n)"
  using itoaNat_chars [of _ n] by fastforce+

lemma itoaNat_not_star: "itoaNat n \<noteq> ''*''"
  by (metis itoaNat_notin(3) list.set_intros(1))

lemma neq_by_mem: "c \<in> set s \<Longrightarrow> c \<notin> set t \<Longrightarrow> s \<noteq> t"
  by blast

lemma string4_no_space: "\<forall>c\<in>set (string4 w). \<not> isSpace c"
proof
  fix c assume "c \<in> set (string4 w)"
  then consider "c = CHR ''.''" | n where "c \<in> set (itoaNat n)"
    using set_joinStr [of "''.''" "map (\<lambda>b. itoaNat (unat b)) (bytes4 w)"]
    by (fastforce simp: string4_def)
  then show "\<not> isSpace c"
  proof cases
    case 1
    then show ?thesis by (simp add: isSpace_def)
  next
    case 2
    then show ?thesis using digits_itoaNat no_space_digit by blast
  qed
qed

lemma string4_not_Nil [simp]: "string4 w \<noteq> []"
proof
  assume "string4 w = []"
  then have "parseAddr [] = Some (V4 w)" using parseAddr_string4 [of w] by simp
  then show False by (simp add: parseAddr_def)
qed

lemma trimSpace_string4 [simp]: "trimSpace (string4 w) = string4 w"
  by (simp add: string4_no_space trimSpace_id trimmed_no_space)

lemma parseAddr_join4:
  assumes "length ns = 4" "\<forall>n\<in>set ns. n < 256"
  shows "parseAddr (joinStr ''.'' (map itoaNat ns)) = Some (V4 (mk4_list ns))"
proof -
  obtain a b c d where ns: "ns = [a, b, c, d]"
    using assms(1) by (auto simp: length_Suc_conv eval_nat_numeral)
  have "parseAddr (joinStr ''.'' (map itoaNat ns)) = parseIPv4 (joinStr ''.'' (map itoaNat ns))"
    using parseAddr_dotted [OF digits_itoaNat] by (simp add: ns)
  also have "\<dots> = Some (V4 (mk4 a b c d))"
    using parseIPv4Fields_join [of a b c d] assms(2) by (simp add: ns parseIPv4_def del: joinStr.simps)
  finally show ?thesis by (simp add: ns)
qed

lemma parsePrefix_cidr:
  assumes "n \<le> 32"
  shows "parsePrefix (string4 w @ CHR ''/'' # itoaNat n) = Return (prefixFrom (V4 w) n)"
proof -
  have cut: "lastCut CHR ''/'' (string4 w @ CHR ''/'' # itoaNat n) = Some (string4 w, itoaNat n)"
    by (rule lastCut_append) simp
  have "atoi (itoaNat n) = Some (int n)"
    using atoi_itoa [of "int n"] assms by (simp add: itoa_def)
  moreover have "\<not> (1 < length (itoaNat n) \<and>
      (of_char (hd (itoaNat n)) < (49 :: nat) \<or> (57 :: nat) < of_char (hd (itoaNat n))))"
  proof (cases "n < 10")
    case True
    then show ?thesis by (simp add: itoaNat_lt10)
  next
    case False
    have "digitVal (hd (itoaNat n)) \<noteq> None" and "hd (itoaNat n) \<noteq> CHR ''0''"
      using digits_itoaNat [of n] hd_itoaNat [of n] False by auto
    then have "48 \<le> (of_char (hd (itoaNat n)) :: nat)" "(of_char (hd (itoaNat n)) :: nat) \<le> 57"
      "(of_char (hd (itoaNat n)) :: nat) \<noteq> 48"
      by (auto simp: digitVal_def Let_def char_eq_nat_iff [of _ "CHR ''0''"] split: if_splits)
    then show ?thesis by simp
  qed
  ultimately show ?thesis
    using assms by (simp add: parsePrefix_def cut parseAddr_string4)
qed

lemma count_list_notin: "c \<notin> set s \<Longrightarrow> count_list s c = 0"
  by (induction s) auto

lemma wildcardParts_fixed:
  "\<forall>n\<in>set fixed. n < 256 \<Longrightarrow>
   wildcardParts (map itoaNat fixed @ replicate k ''*'') =
     Some (map itoaNat fixed @ replicate k ''0'', map itoaNat fixed @ replicate k ''255'')"
proof (induction fixed)
  case Nil
  show ?case by (induction k) auto
next
  case (Cons n fixed)
  have "itoaNat n \<noteq> ''*''" by (rule itoaNat_not_star)
  moreover have "atoi (itoaNat n) \<noteq> None"
    using atoi_itoa [of "int n"] Cons.prems by (simp add: itoa_def)
  ultimately show ?case using Cons by simp
qed

lemma itoaNat_0_255: "itoaNat 0 = ''0''" "itoaNat 255 = ''255''"
  by (simp_all add: itoaNat.simps digitChar_def char_of_def bit_Suc_0_iff)

lemma splitChar_wild:
  assumes "length fixed \<le> 3"
  shows "splitChar CHR ''.'' (rule_text (RWild fixed)) =
    map itoaNat fixed @ replicate (4 - length fixed) ''*''"
  unfolding rule_text.simps by (rule splitChar_joinStr) (use assms in auto)

lemma wildcardRange_fixed:
  assumes "length fixed \<le> 3" "\<forall>n\<in>set fixed. n < 256"
  shows "wildcardRange (rule_text (RWild fixed)) =
    Return \<lparr>rng_start = V4 (mk4_list (wildLo fixed)), rng_end = V4 (mk4_list (wildHi fixed))\<rparr>"
proof -
  have lo: "parseAddr (joinStr ''.'' (map itoaNat (wildLo fixed))) = Some (V4 (mk4_list (wildLo fixed)))"
    and hi: "parseAddr (joinStr ''.'' (map itoaNat (wildHi fixed))) = Some (V4 (mk4_list (wildHi fixed)))"
    by (rule parseAddr_join4; use assms in \<open>auto simp: wildLo_def wildHi_def\<close>)+
  have "map itoaNat fixed @ replicate k ''0'' = map itoaNat (fixed @ replicate k 0)"
    "map itoaNat fixed @ replicate k ''255'' = map itoaNat (fixed @ replicate k 255)" for k
    by (simp_all add: itoaNat_0_255)
  then show ?thesis
    using assms lo hi
    by (simp add: wildcardRange_def splitChar_wild wildcardParts_fixed wildLo_def wildHi_def
        mustParseAddr_def del: rule_text.simps map_append)
qed

lemma wild_text_chars:
  assumes "c \<in> set (rule_text (RWild fixed))"
  shows "c = CHR ''.'' \<or> c = CHR ''*'' \<or> (\<exists>n. c \<in> set (itoaNat n))"
  using assms set_joinStr [of "''.''" "map itoaNat fixed @ replicate (4 - length fixed) ''*''"] by fastforce

lemma wild_text_star:
  assumes "length fixed \<le> 3"
  shows "CHR ''*'' \<in> set (rule_text (RWild fixed))"
proof (rule ccontr)
  assume "CHR ''*'' \<notin> set (rule_text (RWild fixed))"
  then have "\<forall>f\<in>set (splitChar CHR ''.'' (rule_text (RWild fixed))). CHR ''*'' \<notin> set f"
    using set_splitChar by blast
  then show False unfolding splitChar_wild [OF assms] using assms by auto
qed

lemma wild_text_first:
  assumes "length fixed \<le> 3" "fixed \<noteq> []"
  shows "rule_text (RWild fixed) \<noteq> ''*.*.*.*''" "rule_text (RWild fixed) \<noteq> ''*''"
proof -
  have hd: "hd (splitChar CHR ''.'' (rule_text (RWild fixed))) = itoaNat (hd fixed)"
    unfolding splitChar_wild [OF assms(1)] using assms(2) by (cases fixed) auto
  have "hd (splitChar CHR ''.'' (rule_text (RWild fixed))) \<noteq> ''*''"
    unfolding hd by (rule itoaNat_not_star)
  moreover have "hd (splitChar CHR ''.'' ''*.*.*.*'') = ''*''" "hd (splitChar CHR ''.'' ''*'') = ''*''"
    by simp_all
  ultimately show "rule_text (RWild fixed) \<noteq> ''*.*.*.*''" "rule_text (RWild fixed) \<noteq> ''*''"
    by metis+
qed

lemma parseItem_wild:
  assumes "rule_wf (RWild fixed)"
  shows "parseItem m (rule_text (RWild fixed)) = Return (rule_effect (RWild fixed) m)"
proof (cases "fixed = []")
  case True
  then show ?thesis by (simp add: parseItem_def eval_nat_numeral)
next
  case False
  let ?t = "rule_text (RWild fixed)"
  have "CHR ''/'' \<notin> set ?t" "CHR ''-'' \<notin> set ?t" "CHR ''<'' \<notin> set ?t"
    using wild_text_chars [of _ fixed] by fastforce+
  moreover have "\<not> equalFold ?t ''<local>''"
    using equalFold_local [of ?t] calculation(3) by blast
  ultimately show ?thesis
    using assms False wild_text_first wild_text_star wildcardRange_fixed [of fixed]
    by (simp add: parseItem_def count_list_notin del: rule_text.simps)
qed

lemma domain_item_plain:
  assumes "domain_item d"
  shows "\<not> equalFold d ''<local>''" "d \<noteq> ''*''" "d \<noteq> ''*.*.*.*''"
  using assms equalFold_local [of d] by (auto simp: domain_item_def)

lemma string4_mk4: "a < 256 \<Longrightarrow> b < 256 \<Longrightarrow> c < 256 \<Longrightarrow> d < 256 \<Longrightarrow>
    string4 (mk4 a b c d) = joinStr ''.'' (map itoaNat [a, b, c, d])"
  using arg_cong [OF bytes4_mk4 [of a b c d], of "map itoaNat"] by (simp add: string4_def comp_def)

lemma parsePrefix_local: "mustParsePrefix ''127.0.0.0/8'' = Return (prefixFrom (V4 (mk4 127 0 0 0)) 8)"
proof -
  have "string4 (mk4 127 0 0 0) @ CHR ''/'' # itoaNat 8 = ''127.0.0.0/8''"
    by (simp add: string4_mk4 itoaNat.simps digitChar_def char_of_def bit_Suc_0_iff)
  then show ?thesis using parsePrefix_cidr [of 8 "mk4 127 0 0 0"] by (simp add: mustParsePrefix_def)
qed

lemma parseItem_rule: "rule_wf r \<Longrightarrow> \<not> hyphenated r \<Longrightarrow> parseItem m (rule_text r) = Return (rule_effect r m)"
proof (cases r)
  case RAll
  then show ?thesis by (simp add: parseItem_def)
next
  case RLocal
  then show ?thesis by (simp add: parseItem_def parsePrefix_local equalFold_def)
next
  case (RCidr w n)
  assume wf: "rule_wf r"
  let ?t = "string4 w @ CHR ''/'' # itoaNat n"
  have "\<not> equalFold ?t ''<local>''" using equalFold_local [of ?t] by auto
  moreover have "?t \<noteq> ''*''" "?t \<noteq> ''*.*.*.*''"
    by (rule neq_by_mem [of "CHR ''/''"]; simp)+
  ultimately show ?thesis using RCidr wf by (simp add: parseItem_def parsePrefix_cidr)
next
  case (RHost w)
  have "\<not> equalFold (string4 w) ''<local>''" using equalFold_local [of "string4 w"] by auto
  moreover have "string4 w \<noteq> ''*''" "string4 w \<noteq> ''*.*.*.*''"
    using string4_notin(3) [of w] by (auto simp del: string4_notin)
  ultimately show ?thesis using RHost by (simp add: parseItem_def count_list_notin parseAddr_string4)
next
  case (RRange a b)
  let ?t = "string4 a @ CHR ''-'' # string4 b"
  have "\<not> equalFold ?t ''<local>''" using equalFold_local [of ?t] by auto
  moreover have "?t \<noteq> ''*''" "?t \<noteq> ''*.*.*.*''"
    by (rule neq_by_mem [of "CHR ''-''"]; simp)+
  moreover have "splitN2 CHR ''-'' ?t = [string4 a, string4 b]"
    by (simp add: splitN2_def cutChar_append)
  ultimately show ?thesis
    using RRange by (simp add: parseItem_def count_list_notin parseAddrErr_def parseAddr_string4)
next
  case (RWild fixed)
  assume "rule_wf r"
  then show ?thesis using parseItem_wild RWild by blast
next
  case (RDomain d)
  assume "rule_wf r" "\<not> hyphenated r"
  then have d: "domain_item d" "count_list d CHR ''-'' \<noteq> 1" using RDomain by simp_all
  then show ?thesis
    using RDomain domain_item_plain [OF d(1)] by (simp add: parseItem_def domain_item_def trimSpace_id Let_def)
qed

lemma parseItem_hyphenated:
  assumes "rule_wf r" "hyphenated r"
  shows "\<exists>e. parseItem m (rule_text r) = Error e"
proof -
  obtain d where r: "r = RDomain d" and d: "domain_item d" "count_list d CHR ''-'' = 1"
    using assms by (cases r) auto
  have "CHR ''-'' \<in> set d" using d(2) count_list_notin by fastforce
  then obtain a b where ab: "splitN2 CHR ''-'' d = [a, b]" by (cases rule: splitN2_cases [of "CHR ''-''" d]) auto
  then have "parseAddr (trimSpace a) = None \<or> parseAddr (trimSpace b) = None"
    using d by (auto simp: domain_item_def address_range_def)
  then show ?thesis
    using r domain_item_plain [OF d(1)] d ab
    by (auto simp: parseItem_def domain_item_def parseAddrErr_def split: option.splits)
qed

section \<open>What an item adds\<close>

lemma wild_bounds:
  "wildLo [a] = [a, 0, 0, 0]" "wildHi [a] = [a, 255, 255, 255]"
  "wildLo [a, b] = [a, b, 0, 0]" "wildHi [a, b] = [a, b, 255, 255]"
  "wildLo [a, b, c] = [a, b, c, 0]" "wildHi [a, b, c] = [a, b, c, 255]"
  by (simp_all add: wildLo_def wildHi_def numeral_eq_Suc)

lemma wild_interval:
  assumes "length fixed \<le> 3" "fixed \<noteq> []" "\<forall>n\<in>set fixed. n < 256"
  shows "mk4_list (wildLo fixed) \<le> w \<and> w \<le> mk4_list (wildHi fixed) \<longleftrightarrow>
    take (length fixed) (map unat (bytes4 w)) = fixed"
proof -
  let ?n = "unat w"
  have d24: "?n div 2 ^ 24 = ?n div 2 ^ 16 div 256" and d16: "?n div 2 ^ 16 = ?n div 2 ^ 8 div 256"
    by (simp_all add: div_mult2_eq [symmetric])
  consider a where "fixed = [a]" | a b where "fixed = [a, b]" | a b c where "fixed = [a, b, c]"
    using assms(1,2) by (auto simp: length_Suc_conv le_Suc_eq eval_nat_numeral)
  then show ?thesis
  proof cases
    case (1 a)
    then have "a < 256" using assms(3) by simp
    then have "mk4_list (wildLo fixed) \<le> w \<and> w \<le> mk4_list (wildHi fixed) \<longleftrightarrow>
        a * 16777216 \<le> ?n \<and> ?n \<le> a * 16777216 + 16777215"
      unfolding 1 wild_bounds mk4_list.simps word_le_nat_alt by (simp add: unat_mk4 algebra_simps)
    also have "\<dots> \<longleftrightarrow> ?n div 16777216 = a" using interval_div_iff [of 16777216 a ?n] by simp
    finally show ?thesis by (simp add: 1 unat_bytes4)
  next
    case (2 a b)
    then have ab: "a < 256" "b < 256" using assms(3) by auto
    then have "mk4_list (wildLo fixed) \<le> w \<and> w \<le> mk4_list (wildHi fixed) \<longleftrightarrow>
        (a * 256 + b) * 65536 \<le> ?n \<and> ?n \<le> (a * 256 + b) * 65536 + 65535"
      unfolding 2 wild_bounds mk4_list.simps word_le_nat_alt by (simp add: unat_mk4 algebra_simps)
    also have "\<dots> \<longleftrightarrow> ?n div 65536 = a * 256 + b"
      using interval_div_iff [of 65536 "a * 256 + b" ?n] by simp
    also have "\<dots> \<longleftrightarrow> ?n div 65536 div 256 = a \<and> ?n div 65536 mod 256 = b"
      using ab by (intro split256_iff) simp
    finally show ?thesis using d24 by (simp add: 2 unat_bytes4)
  next
    case (3 a b c)
    then have abc: "a < 256" "b < 256" "c < 256" using assms(3) by auto
    then have "mk4_list (wildLo fixed) \<le> w \<and> w \<le> mk4_list (wildHi fixed) \<longleftrightarrow>
        ((a * 256 + b) * 256 + c) * 256 \<le> ?n \<and> ?n \<le> ((a * 256 + b) * 256 + c) * 256 + 255"
      unfolding 3 wild_bounds mk4_list.simps word_le_nat_alt by (simp add: unat_mk4 algebra_simps)
    also have "\<dots> \<longleftrightarrow> ?n div 256 = (a * 256 + b) * 256 + c"
      using interval_div_iff [of 256 "(a * 256 + b) * 256 + c" ?n] by simp
    also have "\<dots> \<longleftrightarrow> ?n div 256 div 256 = a * 256 + b \<and> ?n div 256 mod 256 = c"
      using abc by (intro split256_iff) simp
    also have "\<dots> \<longleftrightarrow> ?n div 256 div 256 div 256 = a \<and> ?n div 256 div 256 mod 256 = b \<and> ?n div 256 mod 256 = c"
      using abc split256_iff [of b "?n div 256 div 256" a] by simp
    finally show ?thesis using d24 d16 by (simp add: 3 unat_bytes4)
  qed
qed

lemma denote_rule_effect:
  "rule_wf r \<Longrightarrow> denote (rule_effect r m) = denote m \<union> {w. rule_matches r w}"
proof (cases r)
  case (RCidr v n)
  assume "rule_wf r"
  then have "prefixFrom (V4 v) n = \<lparr>pfx_ip = V4 v, pfx_bits = Some n\<rparr>"
    using RCidr by (simp add: prefixFrom_def)
  then have "prefixContains (masked (prefixFrom (V4 v) n)) (V4 w) \<longleftrightarrow> rule_matches r w" for w
    unfolding prefixContains_masked using RCidr by (simp add: prefixContains_V4)
  then show ?thesis using RCidr by (auto simp: denote_def)
next
  case RLocal
  have "prefixContains (prefixFrom (V4 (mk4 127 0 0 0)) 8) (V4 w) \<longleftrightarrow> unat w div 2 ^ 24 = 127" for w
    by (simp add: prefixFrom_def prefixContains_V4 unat_mk4)
  then show ?thesis using RLocal by (auto simp: denote_def)
next
  case (RHost v)
  have "prefixContains (prefixFrom (V4 v) 32) (V4 w) \<longleftrightarrow> w = v" for w
    by (auto simp: prefixFrom_def prefixContains_V4 word_unat_eq_iff)
  then show ?thesis using RHost by (auto simp: denote_def)
next
  case (RWild fixed)
  assume "rule_wf r"
  then show ?thesis using RWild wild_interval [of fixed] by (auto simp: denote_def)
qed (auto simp: denote_def Let_def)

lemma ranges_v4_rule_effect:
  "ranges_v4 (m_ranges m) \<Longrightarrow> ranges_v4 (m_ranges (rule_effect r m))"
  by (cases r) (auto simp: ranges_v4_def Let_def)

section \<open>Whole lists of rules\<close>

lemma parseItems_rules:
  "\<forall>r\<in>set rs. rule_wf r \<Longrightarrow> \<not> (\<exists>r\<in>set rs. hyphenated r) \<Longrightarrow>
   parseItems m (map rule_text rs) = Return (fold rule_effect rs m)"
  by (induction rs arbitrary: m) (simp_all add: parseItem_rule)

lemma parseItems_hyphenated:
  "\<forall>r\<in>set rs. rule_wf r \<Longrightarrow> \<exists>r\<in>set rs. hyphenated r \<Longrightarrow> \<exists>e. parseItems m (map rule_text rs) = Error e"
proof (induction rs arbitrary: m)
  case (Cons r rs)
  show ?case
  proof (cases "hyphenated r")
    case True
    then show ?thesis using parseItem_hyphenated [of r m] Cons.prems by auto
  next
    case False
    then show ?thesis using parseItem_rule [of r m] Cons by auto
  qed
qed simp

lemma ranges_v4_fold:
  "ranges_v4 (m_ranges m) \<Longrightarrow> ranges_v4 (m_ranges (fold rule_effect rs m))"
  by (induction rs arbitrary: m) (simp_all add: ranges_v4_rule_effect)

lemma denote_fold:
  "\<forall>r\<in>set rs. rule_wf r \<Longrightarrow>
   denote (fold rule_effect rs m) = denote m \<union> {w. \<exists>r\<in>set rs. rule_matches r w}"
  by (induction rs arbitrary: m) (auto simp: denote_rule_effect)

lemma no_space_itoaNat: "c \<in> set (itoaNat n) \<Longrightarrow> \<not> isSpace c"
  using digits_itoaNat [of n] no_space_digit by blast

lemma rule_text_item:
  assumes "rule_wf r"
  shows "rule_text r \<noteq> [] \<and> trimmed isSpace (rule_text r) \<and> CHR '','' \<notin> set (rule_text r)"
proof (cases r)
  case (RWild fixed)
  have "\<not> isSpace c \<and> c \<noteq> CHR '',''" if "c \<in> set (rule_text r)" for c
  proof -
    consider "c = CHR ''.''" | "c = CHR ''*''" | n where "c \<in> set (itoaNat n)"
      using wild_text_chars [of c fixed] \<open>c \<in> set (rule_text r)\<close> RWild by blast
    then show ?thesis
      by cases (use no_space_itoaNat itoaNat_notin(1) in \<open>auto simp: isSpace_def\<close>)
  qed
  moreover have "rule_text r \<noteq> []"
    using wild_text_star [of fixed] assms RWild by auto
  ultimately show ?thesis using trimmed_no_space by blast
next
  case (RDomain d)
  then show ?thesis using assms by (simp add: domain_item_def)
next
  case (RCidr w n)
  then have "\<forall>c\<in>set (rule_text r). \<not> isSpace c"
    using string4_no_space [of w] no_space_itoaNat [of _ n] by (auto simp: isSpace_def)
  then show ?thesis using trimmed_no_space RCidr by auto
next
  case (RRange a b)
  then have "\<forall>c\<in>set (rule_text r). \<not> isSpace c"
    using string4_no_space [of a] string4_no_space [of b] by (auto simp: isSpace_def)
  then show ?thesis using trimmed_no_space RRange by auto
next
  case (RHost w)
  then show ?thesis using trimmed_no_space [OF string4_no_space [of w]] by simp
next
  case RAll
  then show ?thesis by (simp add: trimmed_def isSpace_def)
next
  case RLocal
  then show ?thesis by (simp add: trimmed_def isSpace_def)
qed

lemma splitCSV_rules: "\<forall>r\<in>set rs. rule_wf r \<Longrightarrow> splitCSV (rules_text rs) = map rule_text rs"
  unfolding rules_text_def by (rule splitCSV_join) (use rule_text_item in auto)

lemma Parse_rules:
  assumes "\<forall>r\<in>set rs. rule_wf r" "\<not> (\<exists>r\<in>set rs. hyphenated r)"
  shows "Parse (rules_text rs) = Return (fold rule_effect rs emptyMatcher)"
  by (simp add: Parse_def splitCSV_rules [OF assms(1)] parseItems_rules [OF assms])

lemma Parse_hyphenated:
  assumes "\<forall>r\<in>set rs. rule_wf r" "\<exists>r\<in>set rs. hyphenated r"
  shows "\<exists>e. Parse (rules_text rs) = Error e"
  using parseItems_hyphenated [OF assms, of emptyMatcher] by (simp add: Parse_def splitCSV_rules [OF assms(1)])

lemma Parse_rules_returned:
  assumes "\<forall>r\<in>set rs. rule_wf r" "Parse (rules_text rs) = Return m"
  shows "m = fold rule_effect rs emptyMatcher" "\<not> (\<exists>r\<in>set rs. hyphenated r)"
proof -
  show "\<not> (\<exists>r\<in>set rs. hyphenated r)" using Parse_hyphenated [OF assms(1)] assms(2) by auto
  then show "m = fold rule_effect rs emptyMatcher" using Parse_rules [OF assms(1)] assms(2) by simp
qed

lemma emptyMatcher_facts: "ranges_v4 (m_ranges emptyMatcher)" "denote emptyMatcher = {}"
  by (simp_all add: emptyMatcher_def ranges_v4_def denote_def)

section \<open>Names\<close>

definition rule_domain :: "rule \<Rightarrow> string option" where
  "rule_domain r = (case r of RDomain d \<Rightarrow> Some (toLower (trimPrefix d ''.'')) | RLocal \<Rightarrow> Some ''localhost'' | _ \<Rightarrow> None)"

definition names_host :: "string \<Rightarrow> string \<Rightarrow> bool" where
  "names_host d h \<longleftrightarrow> h = d \<or> hasSuffix h (CHR ''.'' # d)"

lemma domains_fold:
  "set (m_domains (fold rule_effect rs m)) = set (m_domains m) \<union> {d. \<exists>r\<in>set rs. rule_domain r = Some d}
   \<and> m_hosts (fold rule_effect rs m) \<subseteq> m_hosts m \<union> {d. \<exists>r\<in>set rs. rule_domain r = Some d}"
proof (induction rs arbitrary: m)
  case (Cons r rs)
  have "set (m_domains (rule_effect r m)) = set (m_domains m) \<union> {d. rule_domain r = Some d} \<and>
      m_hosts (rule_effect r m) \<subseteq> m_hosts m \<union> {d. rule_domain r = Some d}"
    by (cases r) (auto simp: rule_domain_def Let_def)
  then show ?case using Cons.IH [of "rule_effect r m"] by auto
qed simp

section \<open>Addresses of either family\<close>

text \<open>A resolver may answer with IPv6 addresses too.  A rule of this language covers one of them when it covers
  everything, or when the address is a mapped IPv4 address that it covers.  The rules that \<^verbatim>\<open>Parse\<close> keeps as intervals
  are the ones whose comparison panics on an IPv6 address.\<close>

definition rule_covers :: "rule \<Rightarrow> addr \<Rightarrow> bool" where
  "rule_covers r a = (case unmap a of V4 w \<Rightarrow> rule_matches r w | _ \<Rightarrow> r = RAll \<or> r = RWild [])"

definition interval_rule :: "rule \<Rightarrow> bool" where
  "interval_rule r = (case r of RRange a b \<Rightarrow> True | RWild fixed \<Rightarrow> fixed \<noteq> [] | _ \<Rightarrow> False)"

lemma fold_all_intervals:
  "(m_all (fold rule_effect rs m) \<longleftrightarrow> m_all m \<or> (\<exists>r\<in>set rs. r = RAll \<or> r = RWild [])) \<and>
   (m_ranges (fold rule_effect rs m) = [] \<longleftrightarrow> m_ranges m = [] \<and> \<not> (\<exists>r\<in>set rs. interval_rule r))"
proof (induction rs arbitrary: m)
  case (Cons r rs)
  have "(m_all (rule_effect r m) \<longleftrightarrow> m_all m \<or> r = RAll \<or> r = RWild []) \<and>
      (m_ranges (rule_effect r m) = [] \<longleftrightarrow> m_ranges m = [] \<and> \<not> interval_rule r)"
    by (cases r) (auto simp: interval_rule_def Let_def)
  then show ?case using Cons.IH [of "rule_effect r m"] by auto
qed simp

definition prefixes_v4 :: "prefix list \<Rightarrow> bool" where
  "prefixes_v4 ps \<longleftrightarrow> (\<forall>p\<in>set ps. pfx_bits p = None \<or> is4 (pfx_ip p))"

lemma prefixes_v4_fold: "prefixes_v4 (m_prefixes m) \<Longrightarrow> prefixes_v4 (m_prefixes (fold rule_effect rs m))"
proof (induction rs arbitrary: m)
  case (Cons r rs)
  have "prefixes_v4 (m_prefixes (rule_effect r m))"
    using Cons.prems by (cases r) (auto simp: prefixes_v4_def prefixFrom_def masked_def Let_def)
  then show ?case using Cons.IH by simp
qed simp

lemma prefixes_v4_other:
  assumes "prefixes_v4 ps" "\<not> is4 a"
  shows "\<not> list_ex (\<lambda>p. prefixContains p a) ps"
proof -
  have "\<not> prefixContains p a" if "p \<in> set ps" for p
  proof (cases "pfx_bits p")
    case (Some b)
    then have "is4 (pfx_ip p)" using assms(1) that by (auto simp: prefixes_v4_def)
    then obtain v where "pfx_ip p = V4 v" by (cases "pfx_ip p") auto
    then show ?thesis using assms(2) Some by (cases a) (simp_all add: prefixContains_def)
  qed (simp add: prefixContains_def)
  then show ?thesis by (auto simp: list_ex_iff)
qed

lemma matchIP_rules_v4:
  assumes "\<forall>r\<in>set rs. rule_wf r" "is4 (unmap a)"
  shows "matchIP (Some (fold rule_effect rs emptyMatcher)) a = Return (\<exists>r\<in>set rs. rule_covers r a)"
proof -
  obtain w where w: "unmap a = V4 w" using assms(2) by (cases "unmap a") auto
  have "ranges_v4 (m_ranges (fold rule_effect rs emptyMatcher))" by (simp add: ranges_v4_fold emptyMatcher_facts)
  then have "matchIP (Some (fold rule_effect rs emptyMatcher)) (V4 w) = Return (\<exists>r\<in>set rs. rule_matches r w)"
    using denote_fold [OF assms(1), of emptyMatcher] emptyMatcher_facts(2) by (simp add: nm.matches_V4)
  then show ?thesis using matchIP_unmap [of _ a] w by (simp add: rule_covers_def)
qed

lemma matchIP_rules_v6:
  assumes "\<not> is4 (unmap a)"
  shows "if (\<exists>r\<in>set rs. rule_covers r a) \<or> \<not> (\<exists>r\<in>set rs. interval_rule r)
    then matchIP (Some (fold rule_effect rs emptyMatcher)) a = Return (\<exists>r\<in>set rs. rule_covers r a)
    else is_panic (matchIP (Some (fold rule_effect rs emptyMatcher)) a)"
proof -
  let ?m = "fold rule_effect rs emptyMatcher"
  have cov: "rule_covers r a \<longleftrightarrow> r = RAll \<or> r = RWild []" for r
    using assms by (cases "unmap a") (auto simp: rule_covers_def)
  have all: "m_all ?m \<longleftrightarrow> (\<exists>r\<in>set rs. rule_covers r a)"
    and rng: "m_ranges ?m = [] \<longleftrightarrow> \<not> (\<exists>r\<in>set rs. interval_rule r)"
    using fold_all_intervals [of rs emptyMatcher] cov by (auto simp: emptyMatcher_def)
  have "prefixes_v4 (m_prefixes ?m)" by (rule prefixes_v4_fold) (simp add: prefixes_v4_def emptyMatcher_def)
  then have pfx: "\<not> list_ex (\<lambda>p. prefixContains p (unmap a)) (m_prefixes ?m)" using assms by (rule prefixes_v4_other)
  have "is_panic (matchRanges (r # rngs) (unmap a))" for r rngs
    using assms by (cases a) (auto simp: compareAddr_def)
  then show ?thesis using all rng pfx
    by (cases "m_ranges ?m") (auto simp: matchIP_def Let_def simp del: matchRanges.simps(2))
qed

lemma containsFunc_rules:
  assumes "\<forall>r\<in>set rs. rule_wf r" "cov = (\<lambda>a. \<exists>r\<in>set rs. rule_covers r a)"
  shows "if (\<exists>a\<in>set (takeWhile (\<lambda>a. \<not> cov a) ips). \<not> is4 (unmap a)) \<and> (\<exists>r\<in>set rs. interval_rule r)
    then is_panic (containsFunc ips (matchIP (Some (fold rule_effect rs emptyMatcher))))
    else containsFunc ips (matchIP (Some (fold rule_effect rs emptyMatcher))) = Return (\<exists>a\<in>set ips. cov a)"
proof -
  define f where "f = matchIP (Some (fold rule_effect rs emptyMatcher))"
  define iv where "iv = (\<exists>r\<in>set rs. interval_rule r)"
  have v4: "f a = Return (cov a)" if "is4 (unmap a) \<or> cov a \<or> \<not> iv" for a
  proof (cases "is4 (unmap a)")
    case True
    then show ?thesis using matchIP_rules_v4 [OF assms(1) True] by (simp add: f_def assms(2))
  next
    case False
    then show ?thesis using that matchIP_rules_v6 [OF False, of rs] unfolding f_def assms(2) iv_def by presburger
  qed
  have v6: "is_panic (f a)" if "\<not> is4 (unmap a)" "\<not> cov a" "iv" for a
    using that(2,3) matchIP_rules_v6 [OF that(1), of rs] unfolding f_def assms(2) iv_def by presburger
  have "if (\<exists>a\<in>set (takeWhile (\<lambda>a. \<not> cov a) ips). \<not> is4 (unmap a)) \<and> iv
      then is_panic (containsFunc ips f) else containsFunc ips f = Return (\<exists>a\<in>set ips. cov a)"
  proof (induction ips)
    case (Cons a ips)
    show ?case
    proof (cases "is4 (unmap a) \<or> cov a \<or> \<not> iv")
      case True
      then show ?thesis using Cons v4 [OF True] by (auto split: if_splits)
    next
      case False
      then show ?thesis using v6 [of a] by (cases "f a") auto
    qed
  qed simp
  then show ?thesis unfolding f_def iv_def .
qed


section \<open>Properties\<close>

text \<open>C1.  What \<^verbatim>\<open>Parse\<close> and \<^verbatim>\<open>MatchIP\<close> make of a list of rules (any, local, CIDR, single IPv4 address, IPv4
  range, trailing wildcard, domain).  When no domain has exactly one hyphen, \<^verbatim>\<open>Parse\<close> accepts the comma-separated
  text without error or panic and \<^verbatim>\<open>MatchIP\<close> answers, for every IPv4 address, exactly whether one of the rules
  covers it.  A domain with exactly one hyphen, such as \<^verbatim>\<open>my-site.com\<close>, is taken for an address range, and the whole
  list is refused with an error.\<close>

theorem parse_rules_match:
  assumes "\<forall>r\<in>set rs. rule_wf r"
  shows "if \<exists>r\<in>set rs. hyphenated r then \<exists>e. Parse (rules_text rs) = Error e
    else \<exists>m. Parse (rules_text rs) = Return m \<and>
      (\<forall>w. matchIP (Some m) (V4 w) = Return (\<exists>r\<in>set rs. rule_matches r w))"
proof (cases "\<exists>r\<in>set rs. hyphenated r")
  case True
  then show ?thesis using Parse_hyphenated [OF assms True] by simp
next
  case False
  let ?m = "fold rule_effect rs emptyMatcher"
  have "matchIP (Some ?m) (V4 w) = Return (\<exists>r\<in>set rs. rule_matches r w)" for w
    using matchIP_rules_v4 [OF assms, of "V4 w"] by (simp add: rule_covers_def)
  then show ?thesis using Parse_rules [OF assms False] False by auto
qed

theorem parse_rules_match_witness:
  "(\<exists>m. Parse (rules_text [RCidr (mk4 10 0 0 0) 8, RWild [192, 168], RRange (mk4 172 16 0 1) (mk4 172 16 0 9), RLocal,
        RDomain ''my-own-site.com'']) = Return m \<and>
    matchIP (Some m) (V4 (mk4 10 200 3 4)) = Return True \<and>
    matchIP (Some m) (V4 (mk4 192 168 77 1)) = Return True \<and>
    matchIP (Some m) (V4 (mk4 172 16 0 10)) = Return False) \<and>
   (\<exists>e. Parse (rules_text [RHost (mk4 10 0 0 1), RDomain ''my-site.com'']) = Error e)"
proof
  let ?rs = "[RCidr (mk4 10 0 0 0) 8, RWild [192, 168], RRange (mk4 172 16 0 1) (mk4 172 16 0 9), RLocal, RDomain ''my-own-site.com'']"
  have "\<forall>r\<in>set ?rs. rule_wf r"
    by (simp add: domain_item_def address_range_def trimmed_def go_simps)
  from parse_rules_match [OF this] obtain m where "Parse (rules_text ?rs) = Return m"
    and "\<forall>w. matchIP (Some m) (V4 w) = Return (\<exists>r\<in>set ?rs. rule_matches r w)" by auto
  then show "\<exists>m. Parse (rules_text ?rs) = Return m \<and>
    matchIP (Some m) (V4 (mk4 10 200 3 4)) = Return True \<and>
    matchIP (Some m) (V4 (mk4 192 168 77 1)) = Return True \<and>
    matchIP (Some m) (V4 (mk4 172 16 0 10)) = Return False" by (simp add: unat_mk4 bytes4_mk4 word_le_nat_alt)
  let ?rs' = "[RHost (mk4 10 0 0 1), RDomain ''my-site.com'']"
  have "\<forall>r\<in>set ?rs'. rule_wf r"
    by (simp add: domain_item_def address_range_def trimmed_def go_simps)
  from parse_rules_match [OF this] show "\<exists>e. Parse (rules_text ?rs') = Error e" by simp
qed

text \<open>C22.  The host test of \<^verbatim>\<open>noproxy\<close>, for a host that is a name and any list of rules that \<^verbatim>\<open>Parse\<close> accepts.
  \<^verbatim>\<open>MatchHost\<close> is true when some domain rule names the host or a parent domain of it (at a label boundary), and then the
  resolver does not matter.  Otherwise a failed lookup is no match, and a successful one is a match exactly when a rule
  covers one of the addresses: unless the list holds an address range or a wildcard and an address that is not IPv4
  comes before the first covered one, which makes \<^verbatim>\<open>MatchHost\<close> panic.\<close>

theorem match_host_spec:
  assumes "\<forall>r\<in>set rs. rule_wf r" and "Parse (rules_text rs) = Return m"
    and "h = normalizeHost host" and "h \<noteq> []" and "parseAddr h = None"
    and "named = (\<exists>r\<in>set rs. \<exists>d. rule_domain r = Some d \<and> names_host d h)"
    and "covered = (\<lambda>a. \<exists>r\<in>set rs. rule_covers r a)"
  shows "case (named, resolve h) of
      (True, _) \<Rightarrow> matchHost lookup (Some m) host (Some resolve) = Return True
    | (False, None) \<Rightarrow> matchHost lookup (Some m) host (Some resolve) = Return False
    | (False, Some ips) \<Rightarrow>
        if (\<exists>a\<in>set (takeWhile (\<lambda>a. \<not> covered a) ips). \<not> is4 (unmap a)) \<and> (\<exists>r\<in>set rs. interval_rule r)
        then is_panic (matchHost lookup (Some m) host (Some resolve))
        else matchHost lookup (Some m) host (Some resolve) = Return (\<exists>a\<in>set ips. covered a)"
proof -
  have m: "m = fold rule_effect rs emptyMatcher" using Parse_rules_returned [OF assms(1,2)] by simp
  have dom: "set (m_domains m) = {d. \<exists>r\<in>set rs. rule_domain r = Some d}"
    "m_hosts m \<subseteq> {d. \<exists>r\<in>set rs. rule_domain r = Some d}"
    using domains_fold [of rs emptyMatcher] by (simp_all add: emptyMatcher_def m)
  have "named \<longleftrightarrow> h \<in> m_hosts m \<or> list_ex (\<lambda>d. h = d \<or> hasSuffix h (CHR ''.'' # d)) (m_domains m)"
    unfolding assms(6) list_ex_iff names_host_def dom(1) using dom(2) by blast
  then have host: "matchHost lookup (Some m) host (Some resolve) =
      (if named then Return True else case resolve h of None \<Rightarrow> Return False | Some ips \<Rightarrow> containsFunc ips (matchIP (Some m)))"
    using assms(3-5) by (simp add: matchHost_def Let_def split: option.split)
  show ?thesis
    using containsFunc_rules [OF assms(1,7)] unfolding m [symmetric] host
    by (cases named; cases "resolve h") simp_all
qed

theorem match_host_spec_witness:
  "\<exists>m. Parse (rules_text [RDomain ''example.com'', RRange (mk4 10 0 0 1) (mk4 10 0 0 9)]) = Return m \<and>
    matchHost (\<lambda>_. None) (Some m) ''api.Example.com:443'' (Some (\<lambda>_. None)) = Return True \<and>
    matchHost (\<lambda>_. None) (Some m) ''other.org'' (Some (\<lambda>_. Some [V4 (mk4 10 0 0 7), V6 1 []])) = Return True \<and>
    is_panic (matchHost (\<lambda>_. None) (Some m) ''other.org'' (Some (\<lambda>_. Some [V6 1 [], V4 (mk4 10 0 0 7)])))"
proof -
  let ?rs = "[RDomain ''example.com'', RRange (mk4 10 0 0 1) (mk4 10 0 0 9)]"
  have wf: "\<forall>r\<in>set ?rs. rule_wf r"
    by (simp add: domain_item_def address_range_def trimmed_def go_simps)
  obtain m where m: "Parse (rules_text ?rs) = Return m" using Parse_rules [OF wf] by simp
  have norm: "normalizeHost ''api.Example.com:443'' = ''api.example.com''" "normalizeHost ''other.org'' = ''other.org''"
    by (simp_all add: normalizeHost_def go_simps)
  have addr: "parseAddr ''api.example.com'' = None" "parseAddr ''other.org'' = None" by (simp_all add: go_simps)
  have dom: "rule_domain (RDomain ''example.com'') = Some ''example.com''" "rule_domain (RRange a b) = None" for a b
    by (simp_all add: rule_domain_def go_simps)
  have nm: "names_host ''example.com'' ''api.example.com''" "\<not> names_host ''example.com'' ''other.org''"
    by (simp_all add: names_host_def go_simps)
  note spec1 = match_host_spec [OF wf m norm(1) [symmetric] _ addr(1) refl refl, where resolve = "\<lambda>_. None" and lookup = "\<lambda>_. None"]
  note spec2 = match_host_spec [OF wf m norm(2) [symmetric] _ addr(2) refl refl, where lookup = "\<lambda>_. None"]
  have c: "rule_covers (RRange (mk4 10 0 0 1) (mk4 10 0 0 9)) (V4 (mk4 10 0 0 7))" "\<not> rule_covers (RRange a b) (V6 1 [])"
    "\<not> rule_covers (RDomain d) x" for a b d x
    by (auto simp: rule_covers_def word_le_nat_alt unat_mk4 is4In6_def split: addr.split)
  show ?thesis
    using m spec1 spec2 [of "\<lambda>_. Some [V4 (mk4 10 0 0 7), V6 1 []]"] spec2 [of "\<lambda>_. Some [V6 1 [], V4 (mk4 10 0 0 7)]"] dom nm c
    by (auto simp: interval_rule_def is4In6_def)
qed

text \<open>A wildcard that is not in the trailing octets is read as an interval, not octet by octet:
  \<^verbatim>\<open>a.*.c.d\<close> covers every address \<^verbatim>\<open>a.x.y.z\<close> with \<^verbatim>\<open>x\<close> strictly between 0 and 255, whatever
  \<^verbatim>\<open>y\<close> and \<^verbatim>\<open>z\<close> are.\<close>

lemma inner_wildcard_overmatch:
  assumes "a < 256" "c < 256" "d < 256" "0 < x" "x < 255" "y < 256" "z < 256"
  shows "\<exists>m. Parse (joinStr ''.'' [itoaNat a, ''*'', itoaNat c, itoaNat d]) = Return m \<and>
    matchIP (Some m) (V4 (mk4 a x y z)) = Return True"
proof -
  let ?t = "joinStr ''.'' [itoaNat a, ''*'', itoaNat c, itoaNat d]"
  let ?lo = "mk4 a 0 c d" and ?hi = "mk4 a 255 c d"
  let ?m = "emptyMatcher\<lparr>m_ranges := [\<lparr>rng_start = V4 ?lo, rng_end = V4 ?hi\<rparr>]\<rparr>"
  have split: "splitChar CHR ''.'' ?t = [itoaNat a, ''*'', itoaNat c, itoaNat d]"
    by (rule splitChar_joinStr) auto
  have num: "atoi (itoaNat n) \<noteq> None" if "n < 256" for n
    using atoi_itoa [of "int n"] that by (simp add: itoa_def)
  have "parseAddr (joinStr ''.'' [itoaNat a, itoaNat k, itoaNat c, itoaNat d]) = Some (V4 (mk4 a k c d))"
    if "k < 256" for k
    using parseAddr_join4 [of "[a, k, c, d]"] that assms by simp
  from this [of 0] this [of 255]
  have wild: "wildcardRange ?t = Return \<lparr>rng_start = V4 ?lo, rng_end = V4 ?hi\<rparr>"
    unfolding wildcardRange_def split using num assms
    by (simp add: mustParseAddr_def itoaNat_0_255 itoaNat_not_star)
  have "parseItem emptyMatcher ?t = Return ?m"
  proof -
    have "CHR ''/'' \<notin> set ?t" "CHR ''-'' \<notin> set ?t" "CHR ''<'' \<notin> set ?t" "CHR ''*'' \<in> set ?t" by simp_all
    moreover have "?t \<noteq> ''*''" "?t \<noteq> ''*.*.*.*''"
      using split itoaNat_not_star [of a] by (auto simp del: joinStr.simps)
    moreover have "\<not> equalFold ?t ''<local>''" using equalFold_local calculation(3) by blast
    ultimately show ?thesis
      using wild by (simp add: parseItem_def count_list_notin emptyMatcher_def del: joinStr.simps)
  qed
  moreover have "splitCSV ?t = [?t]"
    using splitCSV_join [of "[?t]"] trimmed_no_space [of ?t] no_space_itoaNat
    by (auto simp: isSpace_def)
  ultimately have "Parse ?t = Return ?m" by (simp add: Parse_def del: joinStr.simps)
  moreover have "matchIP (Some ?m) (V4 (mk4 a x y z)) = Return True"
    using assms by (simp add: nm.matches_V4 ranges_v4_def denote_def emptyMatcher_def
        word_le_nat_alt unat_mk4)
  ultimately show ?thesis by blast
qed

lemma inner_wildcard_overmatch_witness:
  "\<exists>m. Parse (joinStr ''.'' [itoaNat 10, ''*'', itoaNat 1, itoaNat 5]) = Return m \<and>
    matchIP (Some m) (V4 (mk4 10 7 200 9)) = Return True"
  using inner_wildcard_overmatch [of 10 1 5 7 200 9] by simp

text \<open>A wildcard pattern whose number is not an octet passes the \<^verbatim>\<open>Atoi\<close> test of
  \<^verbatim>\<open>wildcardRange\<close> and then makes \<^verbatim>\<open>MustParseAddr\<close> panic, so \<^verbatim>\<open>Parse\<close> does not return the
  error its signature promises.\<close>

lemma wildcard_octet_panics:
  assumes "255 < n" "n < 2 ^ 63"
  shows "is_panic (Parse (itoaNat n @ ''.*.*.*''))"
proof -
  let ?t = "itoaNat n @ ''.*.*.*''"
  have split: "splitChar CHR ''.'' ?t = [itoaNat n, ''*'', ''*'', ''*'']"
    using splitChar_append [of "CHR ''.''" "itoaNat n" "''*.*.*''"] by simp
  have num: "atoi (itoaNat n) \<noteq> None"
    using atoi_itoa [of "int n"] assms by (simp add: itoa_def)
  have "parseAddr (itoaNat n @ CHR ''.'' # ''0.0.0'') = parseIPv4 (itoaNat n @ CHR ''.'' # ''0.0.0'')"
    by (rule parseAddr_dotted) (rule digits_itoaNat)
  moreover have "parseOctet (itoaNat n) = None" using assms(1) by (auto simp: parseOctet_def)
  ultimately have bad: "parseAddr (itoaNat n @ ''.0.0.0'') = None"
    using splitChar_append [of "CHR ''.''" "itoaNat n" "''0.0.0''"]
    by (simp add: parseIPv4_def parseIPv4Fields_def)
  have "is_panic (wildcardRange ?t)"
    unfolding wildcardRange_def split using num bad
    by (simp add: mustParseAddr_def itoaNat_not_star)
  moreover have "parseItem emptyMatcher ?t =
      go_bind (wildcardRange ?t) (\<lambda>rng. Return (emptyMatcher\<lparr>m_ranges := m_ranges emptyMatcher @ [rng]\<rparr>))"
  proof -
    have "?t \<noteq> ''*''" "?t \<noteq> ''*.*.*.*''"
      using split itoaNat_not_star [of n] by auto
    moreover have "\<not> equalFold ?t ''<local>''" using equalFold_local [of ?t] by auto
    ultimately show ?thesis by (simp add: parseItem_def count_list_notin)
  qed
  moreover have "splitCSV ?t = [?t]"
    using splitCSV_join [of "[?t]"] trimmed_no_space [of ?t] no_space_itoaNat
    by (auto simp: isSpace_def)
  ultimately show ?thesis
    by (cases "wildcardRange ?t") (simp_all add: Parse_def)
qed

lemma wildcard_octet_panics_witness: "is_panic (Parse (itoaNat 300 @ ''.*.*.*''))"
  using wildcard_octet_panics [of 300] by simp

text \<open>With an address range or wildcard in the list, an IPv6 peer that no prefix covers makes
  \<^verbatim>\<open>MatchIP\<close> panic in \<^verbatim>\<open>As4\<close> instead of answering that it is not covered.\<close>

lemma match_ip6_panics:
  assumes "\<not> m_all m" and "m_ranges m \<noteq> []" and "\<not> is4In6 w"
    and "\<forall>p\<in>set (m_prefixes m). \<not> prefixContains p (V6 w z)"
  shows "is_panic (matchIP (Some m) (V6 w z))"
proof -
  obtain r rs where "m_ranges m = r # rs" using assms(2) by (cases "m_ranges m") auto
  then show ?thesis using assms
    by (simp add: matchIP_def list_ex_iff compareAddr_def)
qed

lemma match_ip6_panics_witness:
  "is_panic (matchIP (Some (rule_effect (RRange (mk4 10 0 0 1) (mk4 10 0 0 9)) emptyMatcher)) (V6 1 []))"
  by (rule match_ip6_panics) (simp_all add: emptyMatcher_def is4In6_def)

end
