(* ===== verification/Pac_Cache.thy ===== *)
theory Pac_Cache
  imports Px_Prelude
begin

text \<open>
  \<^verbatim>\<open>internal/pac/cache.go\<close>: the cache of PAC results, an LRU list with a time to live and a
  generation.  The Go code shares one \<^verbatim>\<open>*list.Element\<close> between the map and the list, so the model
  keeps the sharing: elements are addresses, \<open>c_heap\<close> is the store behind them, \<open>c_items\<close>
  the map from keys to addresses and \<open>c_order\<close> the list of addresses, front first.  Every method
  runs under \<^verbatim>\<open>c.mu\<close> and is one atomic operation; \<^verbatim>\<open>time.Now()\<close> is an argument, in
  nanoseconds.
\<close>

section \<open>State\<close>

record cacheEntry =
  ent_key :: string
  ent_result :: string
  ent_expires :: int
  ent_gen :: "64 word"

record resultCache =
  c_ttl :: int
  c_cap :: int
  c_gen :: "64 word"
  c_items :: "string \<Rightarrow> nat option"
  c_order :: "nat list"
  c_heap :: "nat \<Rightarrow> cacheEntry option"
  c_next :: nat

definition defaultCacheTTL :: int where
  "defaultCacheTTL = 30 * 10 ^ 9"

definition defaultCacheCap :: int where
  "defaultCacheCap = 4096"

section \<open>Operations\<close>

definition newResultCache :: "int \<Rightarrow> int \<Rightarrow> resultCache" where
  "newResultCache ttl cap =
     \<lparr>c_ttl = (if ttl \<le> 0 then defaultCacheTTL else ttl),
      c_cap = (if cap \<le> 0 then defaultCacheCap else cap),
      c_gen = 0, c_items = Map.empty, c_order = [], c_heap = Map.empty, c_next = 0\<rparr>"

definition cacheKey :: "string \<Rightarrow> string \<Rightarrow> string" where
  "cacheKey rawURL host = rawURL @ [CHR 0x00] @ host"

text \<open>\<^verbatim>\<open>removeElement\<close>; the argument is \<^const>\<open>None\<close> for a nil element.\<close>

definition removeElement :: "nat option \<Rightarrow> resultCache \<Rightarrow> resultCache" where
  "removeElement el c =
     (case el of
        None \<Rightarrow> c
      | Some e \<Rightarrow>
          (case c_heap c e of
             None \<Rightarrow> c
           | Some ent \<Rightarrow>
               c\<lparr>c_items := (c_items c)(ent_key ent := None), c_order := removeAll e (c_order c)\<rparr>))"

definition moveToFront :: "nat \<Rightarrow> resultCache \<Rightarrow> resultCache" where
  "moveToFront e c = c\<lparr>c_order := e # removeAll e (c_order c)\<rparr>"

definition cacheGet :: "int \<Rightarrow> string \<Rightarrow> resultCache \<Rightarrow> string option \<times> resultCache" where
  "cacheGet now key c =
     (case c_items c key of
        None \<Rightarrow> (None, c)
      | Some e \<Rightarrow>
          (case c_heap c e of
             None \<Rightarrow> (None, c)
           | Some ent \<Rightarrow>
               if ent_gen ent \<noteq> c_gen c \<or> ent_expires ent < now
               then (None, removeElement (Some e) c)
               else (Some (ent_result ent), moveToFront e c)))"

definition generation :: "resultCache \<Rightarrow> 64 word" where
  "generation c = c_gen c"

text \<open>The loop \<^verbatim>\<open>for c.order.Len() >= c.cap\<close>.  On an empty list \<^verbatim>\<open>Back()\<close> is nil,
  \<^verbatim>\<open>removeElement\<close> does nothing and the loop does not end, which is \<^const>\<open>None\<close>.\<close>

function evict :: "resultCache \<Rightarrow> resultCache option" where
  "evict c =
     (if c_cap c \<le> int (length (c_order c))
      then (if c_order c = [] \<or> c_heap c (last (c_order c)) = None then None
            else evict (removeElement (Some (last (c_order c))) c))
      else Some c)"
  by pat_completeness auto
termination
proof (relation "measure (\<lambda>c. length (c_order c))")
  fix c :: resultCache
  assume "\<not> (c_order c = [] \<or> c_heap c (last (c_order c)) = None)"
  then show "(removeElement (Some (last (c_order c))) c, c) \<in> measure (\<lambda>c. length (c_order c))"
    using length_removeAll_less [of "last (c_order c)" "c_order c"] last_in_set [of "c_order c"]
    by (auto simp: removeElement_def)
qed simp

declare evict.simps [simp del]

definition putLocked :: "int \<Rightarrow> string \<Rightarrow> string \<Rightarrow> 64 word \<Rightarrow> resultCache \<Rightarrow> resultCache option" where
  "putLocked now key result gen c =
     (case c_items c key of
        Some e \<Rightarrow>
          (case c_heap c e of
             None \<Rightarrow> None
           | Some ent \<Rightarrow>
               Some (moveToFront e
                 (c\<lparr>c_heap := (c_heap c)(e \<mapsto>
                      ent\<lparr>ent_result := result, ent_expires := now + c_ttl c, ent_gen := gen\<rparr>)\<rparr>)))
      | None \<Rightarrow>
          (case evict c of
             None \<Rightarrow> None
           | Some c1 \<Rightarrow>
               (let e = c_next c1;
                    ent = \<lparr>ent_key = key, ent_result = result, ent_expires = now + c_ttl c1, ent_gen = gen\<rparr>
                in Some (c1\<lparr>c_heap := (c_heap c1)(e \<mapsto> ent), c_next := Suc e,
                           c_order := e # c_order c1, c_items := (c_items c1)(key \<mapsto> e)\<rparr>))))"

definition cachePut :: "int \<Rightarrow> string \<Rightarrow> string \<Rightarrow> resultCache \<Rightarrow> resultCache option" where
  "cachePut now key result c = putLocked now key result (c_gen c) c"

definition putIfGen :: "int \<Rightarrow> string \<Rightarrow> string \<Rightarrow> 64 word \<Rightarrow> resultCache \<Rightarrow> resultCache option" where
  "putIfGen now key result gen c =
     (if gen \<noteq> c_gen c then Some c else putLocked now key result gen c)"

definition invalidate :: "resultCache \<Rightarrow> resultCache" where
  "invalidate c = c\<lparr>c_gen := c_gen c + 1, c_items := Map.empty, c_order := []\<rparr>"

section \<open>Invariant\<close>

text \<open>The map and the list hold the same elements, each under its own key, each allocated; the
  list has no repetition and does not exceed the capacity, which is positive.\<close>

definition cache_inv :: "resultCache \<Rightarrow> bool" where
  "cache_inv c \<longleftrightarrow>
     0 < c_cap c \<and> 0 < c_ttl c \<and> int (length (c_order c)) \<le> c_cap c \<and> distinct (c_order c) \<and>
     (\<forall>e\<in>set (c_order c). e < c_next c \<and>
        (\<exists>ent. c_heap c e = Some ent \<and> c_items c (ent_key ent) = Some e)) \<and>
     (\<forall>k e. c_items c k = Some e \<longrightarrow>
        e \<in> set (c_order c) \<and> (\<exists>ent. c_heap c e = Some ent \<and> ent_key ent = k))"

lemma cache_invI:
  assumes "0 < c_cap c" "0 < c_ttl c" "int (length (c_order c)) \<le> c_cap c" "distinct (c_order c)"
    and "\<And>e. e \<in> set (c_order c) \<Longrightarrow>
        e < c_next c \<and> (\<exists>ent. c_heap c e = Some ent \<and> c_items c (ent_key ent) = Some e)"
    and "\<And>k e. c_items c k = Some e \<Longrightarrow>
        e \<in> set (c_order c) \<and> (\<exists>ent. c_heap c e = Some ent \<and> ent_key ent = k)"
  shows "cache_inv c"
  using assms by (simp add: cache_inv_def)

lemma cache_inv_order:
  "cache_inv c \<Longrightarrow> e \<in> set (c_order c) \<Longrightarrow>
     \<exists>ent. c_heap c e = Some ent \<and> c_items c (ent_key ent) = Some e \<and> e < c_next c"
  by (auto simp: cache_inv_def)

lemma cache_inv_items:
  "cache_inv c \<Longrightarrow> c_items c k = Some e \<Longrightarrow>
     e \<in> set (c_order c) \<and> (\<exists>ent. c_heap c e = Some ent \<and> ent_key ent = k)"
  by (auto simp: cache_inv_def)

lemma cache_inv_bounds:
  "cache_inv c \<Longrightarrow> 0 < c_cap c \<and> 0 < c_ttl c \<and> int (length (c_order c)) \<le> c_cap c \<and> distinct (c_order c)"
  by (auto simp: cache_inv_def)

lemma cache_inv_new [inv_intros]: "cache_inv (newResultCache ttl cap)"
  by (simp add: cache_inv_def newResultCache_def defaultCacheTTL_def defaultCacheCap_def)

lemma cache_inv_removeElement [inv_intros]:
  assumes "cache_inv c" and "e \<in> set (c_order c)"
  shows "cache_inv (removeElement (Some e) c)"
proof -
  obtain ent where ent: "c_heap c e = Some ent" "c_items c (ent_key ent) = Some e"
    using cache_inv_order [OF assms] by blast
  let ?c = "removeElement (Some e) c"
  have c: "?c = c\<lparr>c_items := (c_items c)(ent_key ent := None), c_order := removeAll e (c_order c)\<rparr>"
    by (simp add: removeElement_def ent)
  have len: "int (length (removeAll e (c_order c))) \<le> int (length (c_order c))"
    using length_removeAll_less_eq [of e "c_order c"] by linarith
  show ?thesis
  proof (rule cache_invI)
    show "0 < c_cap ?c" "0 < c_ttl ?c" "distinct (c_order ?c)"
      using cache_inv_bounds [OF assms(1)] by (simp_all add: c distinct_removeAll)
    show "int (length (c_order ?c)) \<le> c_cap ?c"
      using cache_inv_bounds [OF assms(1)] order_trans [OF len] by (simp add: c)
  next
    fix e' assume "e' \<in> set (c_order ?c)"
    then have "e' \<in> set (c_order c)" "e' \<noteq> e" by (simp_all add: c)
    then show "e' < c_next ?c \<and> (\<exists>ent. c_heap ?c e' = Some ent \<and> c_items ?c (ent_key ent) = Some e')"
      using cache_inv_order [OF assms(1), of e'] ent by (fastforce simp: c)
  next
    fix k e' assume "c_items ?c k = Some e'"
    then have "c_items c k = Some e'" "k \<noteq> ent_key ent" by (simp_all add: c split: if_splits)
    then show "e' \<in> set (c_order ?c) \<and> (\<exists>ent. c_heap ?c e' = Some ent \<and> ent_key ent = k)"
      using cache_inv_items [OF assms(1), of k e'] ent by (fastforce simp: c)
  qed
qed

lemma length_to_front:
  assumes "distinct xs" "x \<in> set xs"
  shows "length (x # removeAll x xs) = length xs"
proof -
  have "removeAll x xs = remove1 x xs" using assms(1) by (simp add: distinct_remove1_removeAll)
  moreover have "0 < length xs" using assms(2) by (rule length_pos_if_in_set)
  ultimately show ?thesis using assms(2) by (simp add: length_remove1)
qed

lemma cache_inv_moveToFront [inv_intros]:
  assumes "cache_inv c" and "e \<in> set (c_order c)"
  shows "cache_inv (moveToFront e c)"
proof -
  have b: "0 < c_cap c" "0 < c_ttl c" "int (length (c_order c)) \<le> c_cap c" "distinct (c_order c)"
    using cache_inv_bounds [OF assms(1)] by simp_all
  have s: "set (c_order (moveToFront e c)) = set (c_order c)"
    using assms(2) by (auto simp: moveToFront_def)
  have l: "length (c_order (moveToFront e c)) = length (c_order c)"
    using length_to_front [OF b(4) assms(2)] by (simp only: moveToFront_def resultCache.simps)
      (simp add: moveToFront_def)
  show ?thesis
  proof (rule cache_invI)
    fix e' assume "e' \<in> set (c_order (moveToFront e c))"
    then have "e' \<in> set (c_order c)" by (simp only: s)
    from cache_inv_order [OF assms(1) this]
    show "e' < c_next (moveToFront e c) \<and> (\<exists>ent. c_heap (moveToFront e c) e' = Some ent \<and>
        c_items (moveToFront e c) (ent_key ent) = Some e')"
      by (auto simp: moveToFront_def)
  next
    fix k e' assume "c_items (moveToFront e c) k = Some e'"
    then have "c_items c k = Some e'" by (simp add: moveToFront_def)
    from cache_inv_items [OF assms(1) this]
    show "e' \<in> set (c_order (moveToFront e c)) \<and>
        (\<exists>ent. c_heap (moveToFront e c) e' = Some ent \<and> ent_key ent = k)"
      by (simp only: s) (simp add: moveToFront_def)
  qed (use b in \<open>simp_all only: l\<close>, simp_all add: moveToFront_def b distinct_removeAll)
qed

lemma cache_inv_invalidate [inv_intros]: "cache_inv c \<Longrightarrow> cache_inv (invalidate c)"
  by (simp add: cache_inv_def invalidate_def)

lemma cache_inv_get [inv_intros]: "cache_inv c \<Longrightarrow> cache_inv (snd (cacheGet now key c))"
  using cache_inv_items [of c key]
  by (auto simp: cacheGet_def inv_intros split: option.split)

subsection \<open>The eviction loop\<close>

text \<open>The loop ends, and leaves the longest prefix of the list that has room for one more.\<close>

definition cut :: "int \<Rightarrow> 'a list \<Rightarrow> 'a list" where
  "cut cap xs = take (nat (cap - 1)) xs"

lemma removeAll_last: "distinct xs \<Longrightarrow> xs \<noteq> [] \<Longrightarrow> removeAll (last xs) xs = butlast xs"
  by (metis append_butlast_last_id distinct_append distinct_remove1_removeAll disjoint_insert(2)
      list.set(2) remove1_append remove1.simps(2) append_Nil2)

lemma removeElement_frame [simp]:
  "c_ttl (removeElement el c) = c_ttl c" "c_cap (removeElement el c) = c_cap c"
  "c_gen (removeElement el c) = c_gen c" "c_heap (removeElement el c) = c_heap c"
  "c_next (removeElement el c) = c_next c"
  by (simp_all add: removeElement_def split: option.split)

lemma evict_spec:
  "cache_inv c \<Longrightarrow> \<exists>c'. evict c = Some c' \<and> cache_inv c' \<and> int (length (c_order c')) < c_cap c' \<and>
     c_order c' = cut (c_cap c) (c_order c) \<and>
     c_ttl c' = c_ttl c \<and> c_cap c' = c_cap c \<and> c_gen c' = c_gen c \<and> c_heap c' = c_heap c \<and> c_next c' = c_next c"
proof -
  assume inv_c: "cache_inv c"
  show ?thesis
  proof (cases "c_cap c \<le> int (length (c_order c))")
    case False
    then show ?thesis using inv_c by (simp add: evict.simps [of c] cut_def)
  next
    case True
    let ?e = "last (c_order c)" and ?c = "removeElement (Some (last (c_order c))) c"
    have ne: "c_order c \<noteq> []" using True cache_inv_bounds [OF inv_c] by auto
    obtain ent where ent: "c_heap c ?e = Some ent"
      using cache_inv_order [OF inv_c, of ?e] ne by auto
    have inv: "cache_inv ?c" using ne inv_c by (intro inv_intros) auto
    have ord: "c_order ?c = butlast (c_order c)"
      using removeAll_last [OF _ ne] cache_inv_bounds [OF inv_c] by (simp add: removeElement_def ent)
    have len: "int (length (c_order c)) = c_cap c" using True cache_inv_bounds [OF inv_c] by auto
    then have room: "\<not> c_cap c \<le> int (length (c_order ?c))"
      using ne cache_inv_bounds [OF inv_c] by (simp add: ord)
    have cut: "cut (c_cap c) (c_order c) = butlast (c_order c)"
      unfolding cut_def butlast_conv_take len [symmetric]
      by (simp add: nat_diff_distrib' del: len)
    have "evict c = evict ?c" using True ne ent by (simp add: evict.simps [of c])
    also have "evict ?c = Some ?c" using room by (simp add: evict.simps [of ?c])
    finally show ?thesis using inv room ord cut by simp
  qed
qed

lemma cache_inv_putLocked:
  assumes "cache_inv c"
  shows "\<exists>c'. putLocked now key result gen c = Some c' \<and> cache_inv c' \<and> c_gen c' = c_gen c \<and>
    c_ttl c' = c_ttl c \<and> c_cap c' = c_cap c"
proof (cases "c_items c key")
  case (Some e)
  then obtain ent where ent: "c_heap c e = Some ent" "ent_key ent = key" "e \<in> set (c_order c)"
    using cache_inv_items [OF assms] by blast
  let ?c = "c\<lparr>c_heap := (c_heap c)(e \<mapsto> ent\<lparr>ent_result := result, ent_expires := now + c_ttl c, ent_gen := gen\<rparr>)\<rparr>"
  have "cache_inv ?c"
  proof (rule cache_invI)
    fix e' assume "e' \<in> set (c_order ?c)"
    then have "e' \<in> set (c_order c)" by simp
    from cache_inv_order [OF assms this] ent Some
    show "e' < c_next ?c \<and> (\<exists>ent. c_heap ?c e' = Some ent \<and> c_items ?c (ent_key ent) = Some e')"
      by (cases "e' = e") auto
  next
    fix k e' assume "c_items ?c k = Some e'"
    then have "c_items c k = Some e'" by simp
    from cache_inv_items [OF assms this] ent Some
    show "e' \<in> set (c_order ?c) \<and> (\<exists>ent. c_heap ?c e' = Some ent \<and> ent_key ent = k)"
      by (cases "e' = e") auto
  qed (use cache_inv_bounds [OF assms] in simp_all)
  then have "cache_inv (moveToFront e ?c)" by (rule cache_inv_moveToFront) (simp add: ent)
  then show ?thesis using Some ent by (simp add: putLocked_def moveToFront_def)
next
  case None
  obtain c1 where c1: "evict c = Some c1" "cache_inv c1" "int (length (c_order c1)) < c_cap c1"
    "c_ttl c1 = c_ttl c" "c_cap c1 = c_cap c" "c_gen c1 = c_gen c" "c_heap c1 = c_heap c"
    "set (c_order c1) \<subseteq> set (c_order c)"
    using evict_spec [OF assms] set_take_subset [of "nat (c_cap c - 1)" "c_order c"]
    unfolding cut_def by metis
  have fresh: "c_next c1 \<notin> set (c_order c1)" using c1(2) cache_inv_order by fastforce
  have nokey: "c_items c1 key = None"
  proof (rule ccontr)
    assume "c_items c1 key \<noteq> None"
    then obtain e ent where "e \<in> set (c_order c1)" "c_heap c1 e = Some ent" "ent_key ent = key"
      using cache_inv_items [OF c1(2)] by blast
    then show False using c1(7,8) None cache_inv_order [OF assms, of e] by auto
  qed
  let ?ent = "\<lparr>ent_key = key, ent_result = result, ent_expires = now + c_ttl c1, ent_gen = gen\<rparr>"
  let ?c = "c1\<lparr>c_heap := (c_heap c1)(c_next c1 \<mapsto> ?ent), c_next := Suc (c_next c1),
      c_order := c_next c1 # c_order c1, c_items := (c_items c1)(key \<mapsto> c_next c1)\<rparr>"
  have "cache_inv ?c"
  proof (rule cache_invI)
    fix e assume "e \<in> set (c_order ?c)"
    then show "e < c_next ?c \<and> (\<exists>ent. c_heap ?c e = Some ent \<and> c_items ?c (ent_key ent) = Some e)"
      using cache_inv_order [OF c1(2), of e] fresh nokey by (cases "e = c_next c1") fastforce+
  next
    fix k e assume "c_items ?c k = Some e"
    then show "e \<in> set (c_order ?c) \<and> (\<exists>ent. c_heap ?c e = Some ent \<and> ent_key ent = k)"
      using cache_inv_items [OF c1(2), of k e] fresh by (auto split: if_splits)
  qed (use cache_inv_bounds [OF c1(2)] c1(3) fresh in auto)
  then show ?thesis using None c1 by (simp add: putLocked_def Let_def)
qed

section \<open>The abstract cache\<close>

text \<open>
  What the component promises: a list of entries, most recently used first, at most one for a
  key.  \<^verbatim>\<open>absCache\<close> forgets the map, the addresses and the store.
\<close>

record lru =
  l_ttl :: int
  l_cap :: int
  l_gen :: "64 word"
  l_entries :: "cacheEntry list"

definition lru_drop :: "string \<Rightarrow> cacheEntry list \<Rightarrow> cacheEntry list" where
  "lru_drop key es = filter (\<lambda>ent. ent_key ent \<noteq> key) es"

definition lru_get :: "int \<Rightarrow> string \<Rightarrow> lru \<Rightarrow> string option \<times> lru" where
  "lru_get now key l =
     (case find (\<lambda>ent. ent_key ent = key) (l_entries l) of
        None \<Rightarrow> (None, l)
      | Some ent \<Rightarrow>
          if ent_gen ent = l_gen l \<and> now \<le> ent_expires ent
          then (Some (ent_result ent), l\<lparr>l_entries := ent # lru_drop key (l_entries l)\<rparr>)
          else (None, l\<lparr>l_entries := lru_drop key (l_entries l)\<rparr>))"

definition lru_put :: "int \<Rightarrow> string \<Rightarrow> string \<Rightarrow> 64 word \<Rightarrow> lru \<Rightarrow> lru" where
  "lru_put now key result gen l =
     l\<lparr>l_entries := \<lparr>ent_key = key, ent_result = result, ent_expires = now + l_ttl l, ent_gen = gen\<rparr>
                    # cut (l_cap l) (lru_drop key (l_entries l))\<rparr>"

definition lru_invalidate :: "lru \<Rightarrow> lru" where
  "lru_invalidate l = l\<lparr>l_gen := l_gen l + 1, l_entries := []\<rparr>"

definition absCache :: "resultCache \<Rightarrow> lru" where
  "absCache c = \<lparr>l_ttl = c_ttl c, l_cap = c_cap c, l_gen = c_gen c,
                 l_entries = map (\<lambda>e. the (c_heap c e)) (c_order c)\<rparr>"

text \<open>An element is found under its key exactly when the list holds an entry of that key.\<close>

lemma abs_key:
  assumes "cache_inv c" "e \<in> set (c_order c)"
  shows "ent_key (the (c_heap c e)) = k \<longleftrightarrow> c_items c k = Some e"
  using cache_inv_order [OF assms] cache_inv_items [OF assms(1), of k e] by auto

lemma abs_drop:
  assumes "cache_inv c"
  shows "lru_drop k (l_entries (absCache c)) =
    (case c_items c k of None \<Rightarrow> l_entries (absCache c)
     | Some e \<Rightarrow> map (\<lambda>e. the (c_heap c e)) (removeAll e (c_order c)))"
proof -
  have "filter (\<lambda>ent. ent_key ent \<noteq> k) (map (\<lambda>e. the (c_heap c e)) (c_order c)) =
      map (\<lambda>e. the (c_heap c e)) (filter (\<lambda>e. c_items c k \<noteq> Some e) (c_order c))"
    unfolding filter_map o_def
    by (rule arg_cong [where f = "map _"], rule filter_cong) (simp_all add: abs_key [OF assms])
  then show ?thesis
    by (auto simp: lru_drop_def absCache_def removeAll_filter_not_eq split: option.split)
qed

lemma abs_find:
  assumes "cache_inv c"
  shows "find (\<lambda>ent. ent_key ent = k) (l_entries (absCache c)) =
    (case c_items c k of None \<Rightarrow> None | Some e \<Rightarrow> c_heap c e)"
proof (cases "c_items c k")
  case None
  then have "find (\<lambda>ent. ent_key ent = k) (l_entries (absCache c)) = None"
    using abs_key [OF assms] by (auto simp: find_None_iff absCache_def)
  with None show ?thesis by simp
next
  case (Some e)
  obtain ent where ent: "e \<in> set (c_order c)" "c_heap c e = Some ent" "ent_key ent = k"
    using cache_inv_items [OF assms Some] by auto
  then have "find (\<lambda>ent. ent_key ent = k) (l_entries (absCache c)) \<noteq> None"
    by (auto simp: find_None_iff absCache_def intro!: bexI [of _ e])
  then obtain ent' where f: "find (\<lambda>ent. ent_key ent = k) (l_entries (absCache c)) = Some ent'" by auto
  then have "ent' \<in> set (l_entries (absCache c))" "ent_key ent' = k" by (auto simp: find_Some_iff)
  then obtain e' where "e' \<in> set (c_order c)" "ent' = the (c_heap c e')" by (auto simp: absCache_def)
  then have "e' = e" using abs_key [OF assms, of e' k] \<open>ent_key ent' = k\<close> Some by simp
  with f Some ent \<open>ent' = _\<close> show ?thesis by simp
qed

end
