(* ===== verification/Pac_LRU.thy ===== *)
theory Pac_LRU
  imports Pac_Cache
begin

text \<open>
  The result cache refines the abstract LRU list: every operation of \<^verbatim>\<open>cache.go\<close> commutes with
  \<^const>\<open>absCache\<close>, so any sequence of calls returns what the abstract cache returns.  The
  properties callers rely on (freshness, retention, the size bound) are proved of sequences.
\<close>

section \<open>Each operation refines its specification\<close>

lemma map_heap_upd:
  "e \<notin> set es \<Longrightarrow> map (\<lambda>x. the (if x = e then Some ent else h x)) es = map (\<lambda>x. the (h x)) es"
  by (auto intro: map_cong)

lemma abs_get:
  assumes "cache_inv c"
  shows "fst (cacheGet now key c) = fst (lru_get now key (absCache c)) \<and>
    absCache (snd (cacheGet now key c)) = snd (lru_get now key (absCache c))"
proof (cases "c_items c key")
  case None
  then show ?thesis by (simp add: cacheGet_def lru_get_def abs_find [OF assms])
next
  case (Some e)
  then obtain ent where ent: "c_heap c e = Some ent" "ent_key ent = key"
    using cache_inv_items [OF assms] by blast
  have f: "find (\<lambda>ent. ent_key ent = key) (l_entries (absCache c)) = Some ent"
    using abs_find [OF assms] Some ent by simp
  have d: "lru_drop key (l_entries (absCache c)) = map (\<lambda>e. the (c_heap c e)) (removeAll e (c_order c))"
    using abs_drop [OF assms] Some by simp
  have g: "l_gen (absCache c) = c_gen c" by (simp add: absCache_def)
  show ?thesis
    unfolding lru_get_def f option.case d g
    by (auto simp: cacheGet_def Some ent absCache_def removeElement_def moveToFront_def)
qed

lemma abs_putLocked:
  assumes "cache_inv c" "putLocked now key result gen c = Some c'"
  shows "absCache c' = lru_put now key result gen (absCache c)"
proof (cases "c_items c key")
  case (Some e)
  then obtain ent where ent: "c_heap c e = Some ent" "ent_key ent = key" "e \<in> set (c_order c)"
    using cache_inv_items [OF assms(1)] by blast
  have d: "lru_drop key (l_entries (absCache c)) = map (\<lambda>e. the (c_heap c e)) (removeAll e (c_order c))"
    using abs_drop [OF assms(1)] Some by simp
  have "length (removeAll e (c_order c)) \<le> nat (c_cap c - 1)"
    using length_to_front [of "c_order c" e] cache_inv_bounds [OF assms(1)] ent(3) by auto
  then have "cut (c_cap c) (lru_drop key (l_entries (absCache c))) = lru_drop key (l_entries (absCache c))"
    by (simp add: cut_def d)
  moreover have "ent\<lparr>ent_result := result, ent_expires := now + c_ttl c, ent_gen := gen\<rparr> =
      \<lparr>ent_key = key, ent_result = result, ent_expires = now + c_ttl c, ent_gen = gen\<rparr>"
    using ent(2) by (cases ent) simp
  ultimately show ?thesis
    using assms(2) Some ent(1)
    by (auto simp: putLocked_def lru_put_def absCache_def moveToFront_def map_heap_upd
        d [unfolded absCache_def, simplified])
next
  case None
  obtain c1 where c1: "evict c = Some c1" "cache_inv c1" "c_order c1 = cut (c_cap c) (c_order c)"
    "c_ttl c1 = c_ttl c" "c_cap c1 = c_cap c" "c_gen c1 = c_gen c" "c_heap c1 = c_heap c"
    using evict_spec [OF assms(1)] by blast
  have fresh: "c_next c1 \<notin> set (c_order c1)" using c1(2) cache_inv_order by fastforce
  have d: "lru_drop key (l_entries (absCache c)) = l_entries (absCache c)"
    using abs_drop [OF assms(1)] None by simp
  have "map (\<lambda>e. the (c_heap c e)) (c_order c1) = cut (c_cap c) (l_entries (absCache c))"
    by (simp add: c1(3) cut_def absCache_def take_map)
  then show ?thesis
    using assms(2) None c1(1,4-7) d fresh
    by (auto simp: putLocked_def lru_put_def absCache_def Let_def map_heap_upd)
qed

lemma abs_invalidate: "absCache (invalidate c) = lru_invalidate (absCache c)"
  by (simp add: absCache_def invalidate_def lru_invalidate_def)

section \<open>Sequences of calls\<close>

text \<open>One call of the component with the time it read, and what it returns.  A call that does not
  return makes the run \<^const>\<open>None\<close>.\<close>

datatype cache_op =
  Get int string
| Generation
| Put int string string
| PutIfGen int string string "64 word"
| Invalidate

datatype cache_out = Got "string option" | Gen "64 word" | Done

fun cache_call :: "cache_op \<Rightarrow> resultCache \<Rightarrow> (cache_out \<times> resultCache) option" where
  "cache_call (Get now key) c = (case cacheGet now key c of (r, c') \<Rightarrow> Some (Got r, c'))"
| "cache_call Generation c = Some (Gen (generation c), c)"
| "cache_call (Put now key result) c = map_option (Pair Done) (cachePut now key result c)"
| "cache_call (PutIfGen now key result gen) c = map_option (Pair Done) (putIfGen now key result gen c)"
| "cache_call Invalidate c = Some (Done, invalidate c)"

fun cache_run :: "cache_op list \<Rightarrow> resultCache \<Rightarrow> (cache_out list \<times> resultCache) option" where
  "cache_run [] c = Some ([], c)"
| "cache_run (op # ops) c =
     (case cache_call op c of
        None \<Rightarrow> None
      | Some (out, c') \<Rightarrow>
          (case cache_run ops c' of
             None \<Rightarrow> None
           | Some (outs, c'') \<Rightarrow> Some (out # outs, c'')))"

fun lru_call :: "cache_op \<Rightarrow> lru \<Rightarrow> cache_out \<times> lru" where
  "lru_call (Get now key) l = (case lru_get now key l of (r, l') \<Rightarrow> (Got r, l'))"
| "lru_call Generation l = (Gen (l_gen l), l)"
| "lru_call (Put now key result) l = (Done, lru_put now key result (l_gen l) l)"
| "lru_call (PutIfGen now key result gen) l =
     (Done, if gen = l_gen l then lru_put now key result gen l else l)"
| "lru_call Invalidate l = (Done, lru_invalidate l)"

fun lru_run :: "cache_op list \<Rightarrow> lru \<Rightarrow> cache_out list \<times> lru" where
  "lru_run [] l = ([], l)"
| "lru_run (op # ops) l =
     (case lru_call op l of (out, l') \<Rightarrow> (case lru_run ops l' of (outs, l'') \<Rightarrow> (out # outs, l'')))"

lemma cache_call_refines:
  assumes "cache_inv c"
  shows "\<exists>c'. cache_call op c = Some (fst (lru_call op (absCache c)), c') \<and> cache_inv c' \<and>
    absCache c' = snd (lru_call op (absCache c))"
proof (cases op)
  case (Get now key)
  then show ?thesis
    using abs_get [OF assms, of now key] cache_inv_get [OF assms, of now key]
    by (simp add: case_prod_beta)
next
  case Generation
  then show ?thesis using assms by (simp add: generation_def absCache_def)
next
  case (Put now key result)
  have g: "l_gen (absCache c) = c_gen c" by (simp add: absCache_def)
  obtain c' where "putLocked now key result (c_gen c) c = Some c'" "cache_inv c'"
    using cache_inv_putLocked [OF assms] by blast
  with abs_putLocked [OF assms] show ?thesis by (simp add: Put cachePut_def g)
next
  case (PutIfGen now key result gen)
  have g: "l_gen (absCache c) = c_gen c" by (simp add: absCache_def)
  obtain c' where "putLocked now key result gen c = Some c'" "cache_inv c'"
    using cache_inv_putLocked [OF assms] by blast
  with abs_putLocked [OF assms] show ?thesis
    using assms by (cases "gen = c_gen c") (simp_all add: PutIfGen putIfGen_def g)
next
  case Invalidate
  then show ?thesis using abs_invalidate cache_inv_invalidate [OF assms] by simp
qed

lemma cache_run_refines:
  "cache_inv c \<Longrightarrow> \<exists>c'. cache_run ops c = Some (fst (lru_run ops (absCache c)), c') \<and> cache_inv c' \<and>
     absCache c' = snd (lru_run ops (absCache c))"
proof (induction ops arbitrary: c)
  case (Cons op ops)
  obtain c1 where c1: "cache_call op c = Some (fst (lru_call op (absCache c)), c1)" "cache_inv c1"
    "absCache c1 = snd (lru_call op (absCache c))"
    using cache_call_refines [OF Cons.prems] by blast
  from Cons.IH [OF c1(2)] c1(1,3) show ?case by (auto simp: case_prod_beta)
qed simp

section \<open>What the abstract cache holds\<close>

text \<open>The writes that count: those made since the last invalidation, a conditional one only when
  its generation is the current one, the last one for a key.\<close>

fun write_step :: "cache_op \<Rightarrow> 64 word \<times> (string \<Rightarrow> (int \<times> string) option) \<Rightarrow>
    64 word \<times> (string \<Rightarrow> (int \<times> string) option)" where
  "write_step (Get now key) (g, w) = (g, w)"
| "write_step Generation (g, w) = (g, w)"
| "write_step (Put now key result) (g, w) = (g, w(key \<mapsto> (now, result)))"
| "write_step (PutIfGen now key result gen) (g, w) =
     (g, if gen = g then w(key \<mapsto> (now, result)) else w)"
| "write_step Invalidate (g, w) = (g + 1, Map.empty)"

definition last_write :: "cache_op list \<Rightarrow> string \<Rightarrow> (int \<times> string) option" where
  "last_write ops = snd (fold write_step ops (0, Map.empty))"

definition lru_holds :: "lru \<Rightarrow> 64 word \<times> (string \<Rightarrow> (int \<times> string) option) \<Rightarrow> bool" where
  "lru_holds l gw \<longleftrightarrow> l_gen l = fst gw \<and>
     (\<forall>ent\<in>set (l_entries l). \<exists>t. snd gw (ent_key ent) = Some (t, ent_result ent) \<and>
        ent_expires ent = t + l_ttl l)"

lemma find_memb: "find P xs = Some x \<Longrightarrow> x \<in> set xs \<and> P x"
  by (auto simp: find_Some_iff)

lemma lru_get_entries:
  "set (l_entries (snd (lru_get now key l))) \<subseteq> set (l_entries l)"
  "l_gen (snd (lru_get now key l)) = l_gen l" "l_ttl (snd (lru_get now key l)) = l_ttl l"
  "l_cap (snd (lru_get now key l)) = l_cap l"
  by (auto simp: lru_get_def lru_drop_def dest: find_memb split: option.split)

lemma lru_put_entries:
  "ent \<in> set (l_entries (lru_put now key result gen l)) \<Longrightarrow>
     ent = \<lparr>ent_key = key, ent_result = result, ent_expires = now + l_ttl l, ent_gen = gen\<rparr> \<or>
     (ent \<in> set (l_entries l) \<and> ent_key ent \<noteq> key)"
  by (auto simp: lru_put_def cut_def lru_drop_def dest: in_set_takeD)

lemma lru_put_frame [simp]:
  "l_gen (lru_put now key result gen l) = l_gen l" "l_ttl (lru_put now key result gen l) = l_ttl l"
  "l_cap (lru_put now key result gen l) = l_cap l"
  by (simp_all add: lru_put_def)

lemma lru_holds_put:
  assumes "lru_holds l (g, w)"
  shows "lru_holds (lru_put now key result gen l) (g, w(key \<mapsto> (now, result)))"
  using assms by (auto simp: lru_holds_def dest!: lru_put_entries)

lemma lru_holds_call:
  assumes "lru_holds l gw"
  shows "lru_holds (snd (lru_call op l)) (write_step op gw)"
proof (cases op)
  case (Get now key)
  then show ?thesis
    using assms lru_get_entries [of now key l]
    by (cases gw) (auto simp: lru_holds_def case_prod_beta)
next
  case (PutIfGen now key result gen)
  then show ?thesis
    using assms lru_holds_put [of l "fst gw" "snd gw"]
    by (cases gw) (auto simp: lru_holds_def)
next
  case (Put now key result)
  then show ?thesis using assms lru_holds_put [of l "fst gw" "snd gw"] by (cases gw) simp
qed (use assms in \<open>cases gw; simp add: lru_holds_def lru_invalidate_def\<close>)+

lemma lru_run_append:
  "lru_run (ops @ ops') l =
     (fst (lru_run ops l) @ fst (lru_run ops' (snd (lru_run ops l))),
      snd (lru_run ops' (snd (lru_run ops l))))"
  by (induction ops arbitrary: l) (simp_all add: case_prod_beta)

lemma lru_holds_run: "lru_holds l gw \<Longrightarrow> lru_holds (snd (lru_run ops l)) (fold write_step ops gw)"
  by (induction ops arbitrary: l gw) (simp_all add: case_prod_beta lru_holds_call)

lemma lru_call_frame:
  "l_ttl (snd (lru_call op l)) = l_ttl l \<and> l_cap (snd (lru_call op l)) = l_cap l"
  by (cases op) (simp_all add: case_prod_beta lru_get_entries lru_invalidate_def)

lemma lru_run_frame:
  "l_ttl (snd (lru_run ops l)) = l_ttl l \<and> l_cap (snd (lru_run ops l)) = l_cap l"
  by (induction ops arbitrary: l) (simp_all add: case_prod_beta lru_call_frame)

lemma lru_get_hit:
  assumes "lru_holds l gw" "fst (lru_get now key l) = Some r"
  shows "\<exists>t. snd gw key = Some (t, r) \<and> now \<le> t + l_ttl l"
proof -
  obtain ent where "find (\<lambda>ent. ent_key ent = key) (l_entries l) = Some ent"
    "now \<le> ent_expires ent" "r = ent_result ent"
    using assms(2) by (auto simp: lru_get_def split: option.splits if_splits)
  with find_memb [OF this(1)] assms(1) show ?thesis unfolding lru_holds_def by fastforce
qed

section \<open>Retention\<close>

lemma distinct_keys_abs:
  assumes "cache_inv c"
  shows "distinct (map ent_key (l_entries (absCache c)))"
proof -
  have "inj_on (\<lambda>e. ent_key (the (c_heap c e))) (set (c_order c))"
    using abs_key [OF assms] by (metis (mono_tags, lifting) inj_onI option.inject)
  then show ?thesis
    using cache_inv_bounds [OF assms] by (simp add: absCache_def distinct_map o_def inj_on_def)
qed

text \<open>A key stays in the list as long as the distinct other keys used since do not fill it: the
  keys in front of it are among those used.\<close>

fun op_key :: "cache_op \<Rightarrow> string option" where
  "op_key (Get now key) = Some key"
| "op_key (Put now key result) = Some key"
| "op_key (PutIfGen now key result gen) = Some key"
| "op_key Generation = None"
| "op_key Invalidate = None"

definition lru_front :: "cacheEntry \<Rightarrow> string set \<Rightarrow> lru \<Rightarrow> bool" where
  "lru_front ent ks l \<longleftrightarrow> ent_gen ent = l_gen l \<and> distinct (map ent_key (l_entries l)) \<and>
     (\<exists>xs ys. l_entries l = xs @ ent # ys \<and> set (map ent_key xs) \<subseteq> ks)"

lemma find_distinct_key:
  assumes "distinct (map ent_key es)" "ent \<in> set es"
  shows "find (\<lambda>x. ent_key x = ent_key ent) es = Some ent"
proof (cases "find (\<lambda>x. ent_key x = ent_key ent) es")
  case None
  then show ?thesis using assms(2) by (auto simp: find_None_iff)
next
  case (Some x)
  then have "x \<in> set es" "ent_key x = ent_key ent" by (auto dest: find_memb)
  then have "x = ent" using assms by (auto simp: distinct_map dest: inj_onD)
  with Some show ?thesis by simp
qed

lemma distinct_keys_drop: "distinct (map ent_key es) \<Longrightarrow> distinct (map ent_key (lru_drop key es))"
  by (simp add: lru_drop_def distinct_map_filter)

lemma drop_key_notin: "key \<notin> ent_key ` set (lru_drop key es)"
  by (auto simp: lru_drop_def)

lemma lru_drop_split:
  assumes "ent_key ent \<noteq> key"
  shows "lru_drop key (xs @ ent # ys) = lru_drop key xs @ ent # lru_drop key ys"
  using assms by (simp add: lru_drop_def)

lemma lru_front_get_other:
  assumes "lru_front ent ks l" "key \<noteq> ent_key ent"
  shows "lru_front ent (insert key ks) (snd (lru_get now key l))"
proof -
  obtain xs ys where e: "l_entries l = xs @ ent # ys" "set (map ent_key xs) \<subseteq> ks"
    and d: "distinct (map ent_key (l_entries l))" and g: "ent_gen ent = l_gen l"
    using assms(1) by (auto simp: lru_front_def)
  have drop: "lru_drop key (l_entries l) = lru_drop key xs @ ent # lru_drop key ys"
    using assms(2) e(1) lru_drop_split [of ent key] by simp
  have sub: "set (map ent_key (lru_drop key xs)) \<subseteq> ks" using e(2) by (auto simp: lru_drop_def)
  have dd: "distinct (map ent_key (lru_drop key (l_entries l)))" by (rule distinct_keys_drop [OF d])
  show ?thesis
  proof (cases "find (\<lambda>x. ent_key x = key) (l_entries l)")
    case None
    then show ?thesis using assms(1) by (auto simp: lru_get_def lru_front_def)
  next
    case (Some x)
    have k: "ent_key x = key" using find_memb [OF Some] by simp
    have d2: "distinct (map ent_key (x # lru_drop key (l_entries l)))"
      using dd drop_key_notin [of key "l_entries l"] k by simp
    have "\<exists>xs' ys'. x # lru_drop key (l_entries l) = xs' @ ent # ys' \<and> set (map ent_key xs') \<subseteq> insert key ks"
      by (rule exI [of _ "x # lru_drop key xs"]) (use drop sub k in auto)
    moreover have "\<exists>xs' ys'. lru_drop key (l_entries l) = xs' @ ent # ys' \<and> set (map ent_key xs') \<subseteq> insert key ks"
      by (rule exI [of _ "lru_drop key xs"]) (use drop sub in auto)
    ultimately show ?thesis using d2 dd g by (simp add: lru_get_def Some lru_front_def)
  qed
qed

lemma lru_front_get_same:
  assumes "lru_front ent ks l" "now \<le> ent_expires ent"
  shows "fst (lru_get now (ent_key ent) l) = Some (ent_result ent)"
    and "lru_front ent ks (snd (lru_get now (ent_key ent) l))"
proof -
  have d: "distinct (map ent_key (l_entries l))" and m: "ent \<in> set (l_entries l)"
    and g: "ent_gen ent = l_gen l"
    using assms(1) by (auto simp: lru_front_def)
  note f = find_distinct_key [OF d m]
  show "fst (lru_get now (ent_key ent) l) = Some (ent_result ent)"
    by (simp add: lru_get_def f assms(2) g)
  have "distinct (map ent_key (ent # lru_drop (ent_key ent) (l_entries l)))"
    using distinct_keys_drop [OF d] drop_key_notin [of "ent_key ent"] by simp
  moreover have "\<exists>xs ys. ent # lru_drop (ent_key ent) (l_entries l) = xs @ ent # ys \<and> set (map ent_key xs) \<subseteq> ks"
    by (rule exI [of _ "[]"]) simp
  ultimately show "lru_front ent ks (snd (lru_get now (ent_key ent) l))"
    by (simp add: lru_get_def f assms(2) g lru_front_def)
qed

lemma lru_front_put_other:
  assumes "lru_front ent ks l" "key \<noteq> ent_key ent" "finite ks" "ent_key ent \<notin> ks"
    and room: "int (card (insert key ks)) < l_cap l"
  shows "lru_front ent (insert key ks) (lru_put now key result gen l)"
proof -
  obtain xs ys where e: "l_entries l = xs @ ent # ys" "set (map ent_key xs) \<subseteq> ks"
    and d: "distinct (map ent_key (l_entries l))" and g: "ent_gen ent = l_gen l"
    using assms(1) by (auto simp: lru_front_def)
  let ?xs = "lru_drop key xs" and ?ys = "lru_drop key ys" and ?n = "nat (l_cap l - 1)"
  have drop: "lru_drop key (l_entries l) = ?xs @ ent # ?ys"
    using assms(2) e(1) lru_drop_split [of ent key] by simp
  have dx: "distinct (map ent_key ?xs)" "distinct (map ent_key (?xs @ ent # ?ys))"
    using distinct_keys_drop [OF d, of key] unfolding drop by simp_all
  have "set (map ent_key ?xs) \<subseteq> ks - {key}" using e(2) by (auto simp: lru_drop_def)
  then have "length ?xs \<le> card (ks - {key})"
    using distinct_card [OF dx(1)] card_mono [of "ks - {key}" "set (map ent_key ?xs)"] assms(3) by simp
  then have "length ?xs < card (insert key ks)" using assms(3) by (simp add: card.insert_remove)
  then have len: "length ?xs < ?n" using room by linarith
  then have cut: "cut (l_cap l) (lru_drop key (l_entries l)) = ?xs @ ent # take (?n - Suc (length ?xs)) ?ys"
    by (simp add: cut_def drop take_Cons')
  have "distinct (map ent_key (take ?n (lru_drop key (l_entries l))))"
    using distinct_take [OF distinct_keys_drop [OF d], of ?n] by (simp add: take_map)
  moreover have "key \<notin> ent_key ` set (take ?n (lru_drop key (l_entries l)))"
    using drop_key_notin [of key "l_entries l"] by (meson image_mono in_mono set_take_subset)
  ultimately have "distinct (map ent_key (l_entries (lru_put now key result gen l)))"
    by (simp add: lru_put_def cut_def)
  moreover have "\<exists>xs' ys'. l_entries (lru_put now key result gen l) = xs' @ ent # ys' \<and>
      set (map ent_key xs') \<subseteq> insert key ks"
    by (rule exI [of _ "hd (l_entries (lru_put now key result gen l)) # ?xs"])
      (use e(2) in \<open>simp add: lru_put_def cut, auto simp: lru_drop_def\<close>)
  ultimately show ?thesis using g by (simp add: lru_front_def)
qed

text \<open>The calls after which an entry is certainly still there: no invalidation, no write of its
  key, no lookup of it past its expiry, and not too many other keys.\<close>

fun spares :: "string \<Rightarrow> int \<Rightarrow> cache_op \<Rightarrow> bool" where
  "spares k expires (Get now key) = (key = k \<longrightarrow> now \<le> expires)"
| "spares k expires (Put now key result) = (key \<noteq> k)"
| "spares k expires (PutIfGen now key result gen) = (key \<noteq> k)"
| "spares k expires Generation = True"
| "spares k expires Invalidate = False"

definition other_keys :: "string \<Rightarrow> cache_op list \<Rightarrow> string set" where
  "other_keys key ops = set (List.map_filter op_key ops) - {key}"

lemma lru_front_weaken: "lru_front ent ks l \<Longrightarrow> ks \<subseteq> ks' \<Longrightarrow> lru_front ent ks' l"
  unfolding lru_front_def by blast

lemma lru_front_call:
  assumes "lru_front ent ks l" "spares (ent_key ent) (ent_expires ent) op" "finite ks" "ent_key ent \<notin> ks"
    and "int (card (ks \<union> other_keys (ent_key ent) [op])) < l_cap l"
  shows "lru_front ent (ks \<union> other_keys (ent_key ent) [op]) (snd (lru_call op l))"
proof (cases "op_key op")
  case None
  then show ?thesis using assms by (cases op) (simp_all add: other_keys_def List.map_filter_def)
next
  case (Some k)
  show ?thesis
  proof (cases "k = ent_key ent")
    case True
    then obtain now where op: "op = Get now (ent_key ent)" "now \<le> ent_expires ent"
      using assms(2) Some by (cases op) auto
    then show ?thesis
      using lru_front_weaken [OF lru_front_get_same(2) [OF assms(1) op(2)]] by (simp add: case_prod_beta)
  next
    case False
    have ks: "ks \<union> other_keys (ent_key ent) [op] = insert k ks"
      using False Some by (auto simp: other_keys_def List.map_filter_def)
    have room: "int (card (insert k ks)) < l_cap l" using assms(5) ks by simp
    note put = lru_front_put_other [OF assms(1) False assms(3,4) room]
    show ?thesis
      unfolding ks
    proof (cases op)
      case (Get now key)
      then show "lru_front ent (insert k ks) (snd (lru_call op l))"
        using lru_front_get_other [OF assms(1)] False Some by (simp add: case_prod_beta)
    next
      case (PutIfGen now key result gen)
      then show "lru_front ent (insert k ks) (snd (lru_call op l))"
        using put lru_front_weaken [OF assms(1) subset_insertI] Some by auto
    qed (use put Some in auto)
  qed
qed

lemma other_keys_Cons: "other_keys k (op # ops) = other_keys k [op] \<union> other_keys k ops"
  by (auto simp: other_keys_def List.map_filter_def split: option.splits)

lemma lru_front_run:
  assumes "lru_front ent ks l" "list_all (spares (ent_key ent) (ent_expires ent)) ops" "finite ks" "ent_key ent \<notin> ks"
    and "int (card (ks \<union> other_keys (ent_key ent) ops)) < l_cap l"
  shows "lru_front ent (ks \<union> other_keys (ent_key ent) ops) (snd (lru_run ops l))"
  using assms
proof (induction ops arbitrary: ks l)
  case Nil
  then show ?case using lru_front_weaken by auto
next
  case (Cons op ops)
  let ?k1 = "ks \<union> other_keys (ent_key ent) [op]"
  have fin: "finite (ks \<union> other_keys (ent_key ent) (op # ops))" using Cons.prems(3) by (simp add: other_keys_def)
  have k1: "?k1 \<union> other_keys (ent_key ent) ops = ks \<union> other_keys (ent_key ent) (op # ops)"
    using other_keys_Cons [of _ op ops] by blast
  have "card ?k1 \<le> card (ks \<union> other_keys (ent_key ent) (op # ops))"
    using k1 by (intro card_mono [OF fin]) blast
  then have "lru_front ent ?k1 (snd (lru_call op l))"
    using Cons.prems by (intro lru_front_call) auto
  moreover have "finite ?k1" "ent_key ent \<notin> ?k1"
    using Cons.prems(3,4) by (auto simp: other_keys_def)
  ultimately show ?case
    using Cons.IH [of ?k1 "snd (lru_call op l)"] Cons.prems(2,5) lru_call_frame [of op l] k1
    by (simp add: case_prod_beta)
qed

section \<open>The interface the evaluator uses\<close>

text \<open>
  What \<^verbatim>\<open>FindProxyForURL\<close> relies on: a lookup returns an entry of the cache's contents, a
  conditional write adds at most its own entry and only under the current generation, an
  invalidation empties the cache and moves the generation on.
\<close>

locale result_cache =
  fixes inv :: "'c \<Rightarrow> bool"
    and content :: "'c \<Rightarrow> (string \<times> string) set"
    and gen :: "'c \<Rightarrow> 64 word"
    and get :: "int \<Rightarrow> string \<Rightarrow> 'c \<Rightarrow> string option \<times> 'c"
    and put_if_gen :: "int \<Rightarrow> string \<Rightarrow> string \<Rightarrow> 64 word \<Rightarrow> 'c \<Rightarrow> 'c option"
    and drop_all :: "'c \<Rightarrow> 'c"
  assumes get_content: "inv c \<Longrightarrow> fst (get now key c) = Some r \<Longrightarrow> (key, r) \<in> content c"
    and get_frame: "inv c \<Longrightarrow> inv (snd (get now key c)) \<and> content (snd (get now key c)) \<subseteq> content c \<and>
      gen (snd (get now key c)) = gen c"
    and put_total: "inv c \<Longrightarrow> \<exists>c'. put_if_gen now key r g c = Some c'"
    and put_frame: "inv c \<Longrightarrow> put_if_gen now key r g c = Some c' \<Longrightarrow> inv c' \<and> gen c' = gen c \<and>
      content c' \<subseteq> content c \<union> (if g = gen c then {(key, r)} else {})"
    and drop_all_law: "inv c \<Longrightarrow> inv (drop_all c) \<and> content (drop_all c) = {} \<and> gen (drop_all c) = gen c + 1"
begin

text \<open>A cache is coherent with a predicate when all it holds satisfies it.  Every operation keeps
  coherence, a conditional write provided its result is right for the current generation.\<close>

definition coherent :: "(string \<Rightarrow> string \<Rightarrow> bool) \<Rightarrow> 'c \<Rightarrow> bool" where
  "coherent P c \<longleftrightarrow> inv c \<and> (\<forall>(k, r)\<in>content c. P k r)"

lemma coherent_get: "coherent P c \<Longrightarrow> coherent P (snd (get now key c))"
  using get_frame by (fastforce simp: coherent_def)

lemma coherent_hit: "coherent P c \<Longrightarrow> fst (get now key c) = Some r \<Longrightarrow> P key r"
  using get_content by (fastforce simp: coherent_def)

lemma coherent_put:
  "coherent P c \<Longrightarrow> (g = gen c \<Longrightarrow> P key r) \<Longrightarrow>
     \<exists>c'. put_if_gen now key r g c = Some c' \<and> coherent P c' \<and> gen c' = gen c"
proof -
  assume c: "coherent P c" and r: "g = gen c \<Longrightarrow> P key r"
  have i: "inv c" using c by (simp add: coherent_def)
  obtain c' where c': "put_if_gen now key r g c = Some c'" using put_total [OF i] by blast
  from put_frame [OF i c'] have "inv c'" "gen c' = gen c"
    "content c' \<subseteq> content c \<union> (if g = gen c then {(key, r)} else {})" by simp_all
  with c r c' show ?thesis by (fastforce simp: coherent_def split: if_splits)
qed

lemma coherent_drop_all: "coherent P c \<Longrightarrow> coherent Q (drop_all c)"
  using drop_all_law by (simp add: coherent_def)

lemma coherent_mono: "coherent P c \<Longrightarrow> (\<And>k r. P k r \<Longrightarrow> Q k r) \<Longrightarrow> coherent Q c"
  by (auto simp: coherent_def)

lemma coherent_inv: "coherent P c \<Longrightarrow> inv c"
  by (simp add: coherent_def)

end

definition cacheContent :: "resultCache \<Rightarrow> (string \<times> string) set" where
  "cacheContent c = (\<lambda>ent. (ent_key ent, ent_result ent)) ` set (l_entries (absCache c))"

lemma putIfGen_abs:
  "cache_inv c \<Longrightarrow> putIfGen now key r g c = Some c' \<Longrightarrow>
     cache_inv c' \<and> absCache c' = (if g = c_gen c then lru_put now key r g (absCache c) else absCache c)"
  using cache_inv_putLocked [of c now key r g] abs_putLocked [of c now key r g]
  by (auto simp: putIfGen_def split: if_splits)

lemma gen_abs: "c_gen c = l_gen (absCache c)"
  by (simp add: absCache_def)

interpretation rc: result_cache cache_inv cacheContent generation cacheGet putIfGen invalidate
proof
  fix c :: resultCache and now key r
  assume "cache_inv c" "fst (cacheGet now key c) = Some r"
  then show "(key, r) \<in> cacheContent c"
    using abs_get [of c now key] find_memb
    by (fastforce simp: lru_get_def cacheContent_def split: option.splits if_splits)
next
  fix c :: resultCache and now key
  assume c: "cache_inv c"
  show "cache_inv (snd (cacheGet now key c)) \<and> cacheContent (snd (cacheGet now key c)) \<subseteq> cacheContent c \<and>
      generation (snd (cacheGet now key c)) = generation c"
    using abs_get [OF c, of now key] cache_inv_get [OF c, of now key] lru_get_entries [of now key "absCache c"]
    by (auto simp: cacheContent_def generation_def gen_abs)
next
  fix c :: resultCache and now key r g
  assume "cache_inv c"
  then show "\<exists>c'. putIfGen now key r g c = Some c'"
    using cache_inv_putLocked [of c now key r g] by (auto simp: putIfGen_def)
next
  fix c c' :: resultCache and now key r g
  assume c: "cache_inv c" "putIfGen now key r g c = Some c'"
  show "cache_inv c' \<and> generation c' = generation c \<and>
      cacheContent c' \<subseteq> cacheContent c \<union> (if g = generation c then {(key, r)} else {})"
    using putIfGen_abs [OF c]
    by (auto simp: cacheContent_def generation_def gen_abs dest!: lru_put_entries)
next
  fix c :: resultCache
  assume "cache_inv c"
  then show "cache_inv (invalidate c) \<and> cacheContent (invalidate c) = {} \<and>
      generation (invalidate c) = generation c + 1"
    by (simp add: cache_inv_invalidate) (simp add: cacheContent_def absCache_def invalidate_def generation_def)
qed

section \<open>Properties\<close>

text \<open>C8: any sequence of calls on a new cache returns (the eviction loop ends), answers exactly
  as the abstract LRU list does, and keeps the invariant: map and list hold the same elements
  and never more than the capacity.\<close>

theorem cache_refines_lru:
  "\<exists>c. cache_run ops (newResultCache ttl cap) =
         Some (fst (lru_run ops (absCache (newResultCache ttl cap))), c) \<and>
     absCache c = snd (lru_run ops (absCache (newResultCache ttl cap))) \<and> cache_inv c \<and>
     int (length (c_order c)) \<le> (if cap \<le> 0 then defaultCacheCap else cap)"
proof -
  obtain c where c: "cache_run ops (newResultCache ttl cap) =
      Some (fst (lru_run ops (absCache (newResultCache ttl cap))), c)" "cache_inv c"
    "absCache c = snd (lru_run ops (absCache (newResultCache ttl cap)))"
    using cache_run_refines [OF cache_inv_new] by blast
  have "c_cap c = (if cap \<le> 0 then defaultCacheCap else cap)"
    using arg_cong [OF c(3), of l_cap] lru_run_frame [of ops "absCache (newResultCache ttl cap)"]
    by (simp add: absCache_def newResultCache_def)
  with c cache_inv_bounds [OF c(2)] show ?thesis by auto
qed

text \<open>C2: a hit is never stale.  What a lookup returns is the last write of that key made since
  the last invalidation (a conditional write counts only under the generation it was made
  for), and the lookup is within the time to live of that write.\<close>

theorem cache_hit_is_last_write:
  assumes "cache_run (ops @ [Get now key]) (newResultCache ttl cap) = Some (outs @ [Got (Some r)], c)"
  shows "\<exists>t. last_write ops key = Some (t, r) \<and> now \<le> t + (if ttl \<le> 0 then defaultCacheTTL else ttl)"
proof -
  let ?l0 = "absCache (newResultCache ttl cap)"
  have h: "lru_holds (snd (lru_run ops ?l0)) (fold write_step ops (0, Map.empty))"
    by (rule lru_holds_run) (simp add: lru_holds_def absCache_def newResultCache_def)
  obtain c' where "cache_run (ops @ [Get now key]) (newResultCache ttl cap) =
      Some (fst (lru_run (ops @ [Get now key]) ?l0), c')"
    using cache_run_refines [OF cache_inv_new] by blast
  with assms have "fst (lru_get now key (snd (lru_run ops ?l0))) = Some r"
    by (auto simp: lru_run_append case_prod_beta)
  from lru_get_hit [OF h this] lru_run_frame [of ops ?l0] show ?thesis
    by (simp add: last_write_def absCache_def newResultCache_def)
qed

theorem cache_hit_is_last_write_witness:
  "\<exists>t. last_write [Put 5 ''k'' ''DIRECT'', Put 7 ''k'' ''PROXY p:1''] ''k'' = Some (t, ''PROXY p:1'') \<and>
     20 \<le> t + (30 :: int)"
  using cache_hit_is_last_write [of "[Put 5 ''k'' ''DIRECT'', Put 7 ''k'' ''PROXY p:1'']" 20 "''k''" 30 2
      "[Done, Done]" "''PROXY p:1''"]
  by (simp add: newResultCache_def cachePut_def putLocked_def cacheGet_def evict.simps moveToFront_def)

text \<open>C40: the cache forgets nothing it has room for.  After a write of a key, any calls that do
  not invalidate, do not write that key, do not look it up after its expiry and use fewer
  other keys than the capacity leave a lookup within the time to live a hit, with the result written.\<close>

theorem cache_retains:
  assumes "0 < ttl" "0 < cap" "now \<le> t + ttl"
    and "list_all (spares key (t + ttl)) mid" "int (card (other_keys key mid)) < cap"
  shows "\<exists>outs c. cache_run (pre @ [Put t key r] @ mid @ [Get now key]) (newResultCache ttl cap) =
    Some (outs @ [Got (Some r)], c)"
proof -
  let ?l0 = "absCache (newResultCache ttl cap)"
  let ?l1 = "snd (lru_run pre ?l0)"
  let ?ent = "\<lparr>ent_key = key, ent_result = r, ent_expires = t + ttl, ent_gen = l_gen ?l1\<rparr>"
  let ?l2 = "lru_put t key r (l_gen ?l1) ?l1"
  have par: "l_ttl ?l1 = ttl" "l_cap ?l1 = cap"
    using lru_run_frame [of pre ?l0] assms(1,2) by (simp_all add: absCache_def newResultCache_def)
  obtain c1 where c1: "cache_inv c1" "absCache c1 = ?l2"
    using cache_run_refines [OF cache_inv_new, of "pre @ [Put t key r]" ttl cap]
    by (auto simp: lru_run_append)
  have "distinct (map ent_key (l_entries ?l2))"
    using distinct_keys_abs [OF c1(1)] by (simp only: c1(2))
  then have "lru_front ?ent {} ?l2"
    unfolding lru_front_def by (auto simp: lru_put_def par intro!: exI [of _ "[]"])
  then have "lru_front ?ent (other_keys key mid) (snd (lru_run mid ?l2))"
    using lru_front_run [of ?ent "{}" ?l2 mid] assms(4,5) par by simp
  from lru_front_get_same(1) [OF this, of now] assms(3)
  have "fst (lru_get now key (snd (lru_run mid ?l2))) = Some r" by simp
  moreover obtain c2 where "cache_run (pre @ [Put t key r] @ mid @ [Get now key]) (newResultCache ttl cap) =
      Some (fst (lru_run (pre @ [Put t key r] @ mid @ [Get now key]) ?l0), c2)"
    using cache_run_refines [OF cache_inv_new] by blast
  ultimately show ?thesis by (simp add: lru_run_append case_prod_beta)
qed

theorem cache_retains_witness:
  "\<exists>outs c. cache_run ([] @ [Put 5 ''k'' ''DIRECT''] @ [Put 6 ''a'' ''x'', Get 8 ''k'', Put 7 ''a'' ''y''] @ [Get 9 ''k''])
     (newResultCache 30 2) = Some (outs @ [Got (Some ''DIRECT'')], c)"
  by (rule cache_retains) (simp_all add: other_keys_def List.map_filter_def card_insert_if)

end
