(* ===== verification/Pac_Eval.thy ===== *)
theory Pac_Eval
  imports Go_Strings Pac_LRU
begin

text \<open>
  \<^verbatim>\<open>internal/pac/pac.go\<close>: the evaluator.  The first part holds its sequential pieces; the second
  is its concurrent behaviour as a step relation.  Each goroutine is a thread with a program
  counter; a step is one stretch of code between two points where another goroutine can be
  observed: a call of the cache (which has its own mutex), an access of the atomic pool
  pointer outside \<^verbatim>\<open>e.mu\<close>, a channel operation, or a critical section of \<^verbatim>\<open>e.mu\<close>.  The
  critical section of \<^verbatim>\<open>loadAndSwap\<close> touches cache and pool, so it is three steps under a
  lock that is part of the state.

  The JavaScript engine is not part of the repository: \<open>run\<close> says which scripts load and define
  the callable, and \<open>js\<close> relates a script and its arguments to the outcomes the call may
  have (\<^const>\<open>None\<close> is a JavaScript exception).  \<open>source\<close> relates to the outcomes
  \<^verbatim>\<open>readSource\<close> may have.
\<close>

section \<open>Sequential pieces\<close>

text \<open>The conversion of a byte to a rune and back to UTF-8.\<close>

definition latin1Rune :: "char \<Rightarrow> string" where
  "latin1Rune c =
     (let b = of_char c :: nat
      in if b < 128 then [c] else [char_of (192 + b div 64), char_of (128 + b mod 64)])"

definition decodeText :: "string \<Rightarrow> string \<Rightarrow> string" where
  "decodeText data encoding =
     (let enc = toLower (trimSpace encoding)
      in if enc \<in> {''latin-1'', ''latin1'', ''iso-8859-1''} then concat (map latin1Rune data) else data)"

definition normalizeProxyResult :: "string \<Rightarrow> string" where
  "normalizeProxyResult raw =
     (let r0 = trimSpace raw
      in if r0 = [] then ''DIRECT''
         else
           (let r1 = fold (\<lambda>scheme r. replaceAll r scheme '''') [''PROXY '', ''HTTP ''] r0;
                r2 = fold (\<lambda>scheme r. replaceAll r scheme (toLower (trimSpace scheme) @ ''://''))
                       [''HTTPS '', ''SOCKS4 '', ''SOCKS5 ''] r1;
                r3 = replaceAll r2 ''SOCKS '' ''socks5://'';
                r4 = replaceAll r3 '';'' '','';
                out = filter (\<lambda>part. part \<noteq> []) (map trimSpace (splitChar CHR '','' r4))
            in if out = [] then ''DIRECT'' else joinStr '','' out))"

record pacSlot =
  slot_script :: string

record runtimePool =
  rp_slots :: "pacSlot list"
  rp_gen :: "64 word"

definition compile :: "(string \<Rightarrow> bool) \<Rightarrow> string \<Rightarrow> string \<Rightarrow> pacSlot option" where
  "compile run PACUtils txt =
     (let script = PACUtils @ [CHR 0x0A] @ txt in if run script then Some \<lparr>slot_script = script\<rparr> else None)"

definition defaultPoolSize :: int where
  "defaultPoolSize = 4"

text \<open>The loop that fills the channel of slots; the first failure is the result.\<close>

fun buildSlots :: "(string \<Rightarrow> bool) \<Rightarrow> string \<Rightarrow> string \<Rightarrow> nat \<Rightarrow> pacSlot list option" where
  "buildSlots run PACUtils txt 0 = Some []"
| "buildSlots run PACUtils txt (Suc n) =
     (case compile run PACUtils txt of
        None \<Rightarrow> None
      | Some slot \<Rightarrow> map_option (Cons slot) (buildSlots run PACUtils txt n))"

definition effectivePoolSize :: "int \<Rightarrow> nat" where
  "effectivePoolSize size0 = nat (if size0 \<le> 0 then defaultPoolSize else size0)"

definition buildPool :: "(string \<Rightarrow> bool) \<Rightarrow> string \<Rightarrow> int \<Rightarrow> string \<Rightarrow> runtimePool option" where
  "buildPool run PACUtils size0 txt =
     map_option (\<lambda>slots. \<lparr>rp_slots = slots, rp_gen = 0\<rparr>)
       (buildSlots run PACUtils txt (effectivePoolSize size0))"

lemma buildSlots_some:
  "buildSlots run PACUtils txt n = Some slots \<Longrightarrow>
     slots = replicate n \<lparr>slot_script = PACUtils @ [CHR 0x0A] @ txt\<rparr>"
  by (induction n arbitrary: slots) (auto simp: compile_def Let_def split: option.splits if_splits)

lemma buildPool_some:
  "buildPool run PACUtils size0 txt = Some p \<Longrightarrow>
     p = \<lparr>rp_slots = replicate (effectivePoolSize size0) \<lparr>slot_script = PACUtils @ [CHR 0x0A] @ txt\<rparr>, rp_gen = 0\<rparr>"
  by (auto simp: buildPool_def dest: buildSlots_some)

lemma effectivePoolSize_pos: "0 < effectivePoolSize size0"
  by (simp add: effectivePoolSize_def defaultPoolSize_def)

section \<open>Evaluator state and critical sections\<close>

text \<open>The fields of \<^verbatim>\<open>Evaluator\<close>.  \<open>ev_mu\<close> is the goroutine that holds \<^verbatim>\<open>e.mu\<close> between steps;
  the pool pointer is an index into the pools published so far, which goroutines may still
  use after it has moved on.\<close>

record evaluator =
  ev_source :: string
  ev_encoding :: string
  ev_reloadInterval :: int
  ev_poolSize :: int
  ev_mu :: "nat option"
  ev_lastLoad :: int
  ev_reloading :: bool
  ev_closed :: bool
  ev_pool :: "nat option"
  ev_cache :: resultCache
  ev_pools :: "runtimePool list"

definition newEvaluator :: "string \<Rightarrow> string \<Rightarrow> int \<Rightarrow> evaluator" where
  "newEvaluator source0 encoding reloadInterval =
     \<lparr>ev_source = source0, ev_encoding = (if encoding = [] then ''utf-8'' else encoding),
      ev_reloadInterval = reloadInterval, ev_poolSize = defaultPoolSize,
      ev_mu = None, ev_lastLoad = 0, ev_reloading = False, ev_closed = False, ev_pool = None,
      ev_cache = newResultCache defaultCacheTTL defaultCacheCap, ev_pools = []\<rparr>"

definition staleLocked :: "int \<Rightarrow> evaluator \<Rightarrow> bool" where
  "staleLocked now e \<longleftrightarrow> ev_reloadInterval e > 0 \<and> now - ev_lastLoad e \<ge> ev_reloadInterval e"

definition loadedLocked :: "evaluator \<Rightarrow> bool" where
  "loadedLocked e \<longleftrightarrow> ev_pool e \<noteq> None"

text \<open>The critical section of \<^verbatim>\<open>kickReloadIfStale\<close>; the flag says that \<^verbatim>\<open>go backgroundReload()\<close>
  follows.\<close>

definition kickReloadIfStale :: "int \<Rightarrow> evaluator \<Rightarrow> bool \<times> evaluator" where
  "kickReloadIfStale now e =
     (if ev_closed e \<or> \<not> loadedLocked e \<or> \<not> staleLocked now e \<or> ev_reloading e then (False, e)
      else (True, e\<lparr>ev_reloading := True\<rparr>))"

text \<open>The critical section of \<^verbatim>\<open>ensureLoaded\<close>, up to the point where it leaves the lock: it
  returns, waits on the condition, starts a reload in the background or loads itself.
  \<^verbatim>\<open>Wait\<close> returns with the lock and re-tests the loop condition; the tests made then are the
  tests made on entry, so a woken goroutine runs the section again.\<close>

datatype ensure = Proceed | Wait | Spawn | LoadHere

definition ensureLoaded :: "int \<Rightarrow> evaluator \<Rightarrow> ensure \<times> evaluator" where
  "ensureLoaded now e =
     (if ev_closed e then (Proceed, e)
      else if \<not> loadedLocked e \<and> ev_reloading e then (Wait, e)
      else if loadedLocked e then
        (if staleLocked now e \<and> \<not> ev_reloading e then (Spawn, e\<lparr>ev_reloading := True\<rparr>) else (Proceed, e))
      else (LoadHere, e\<lparr>ev_reloading := True\<rparr>))"

text \<open>What follows a load in \<^verbatim>\<open>ensureLoaded\<close> (\<open>bg\<close> false) and in \<^verbatim>\<open>backgroundReload\<close>; only
  the latter moves the load time on after a failure.\<close>

definition finishLoad :: "int \<Rightarrow> bool \<Rightarrow> bool \<Rightarrow> evaluator \<Rightarrow> evaluator" where
  "finishLoad now bg ok e =
     (let e1 = (if bg \<and> \<not> ok \<and> \<not> ev_closed e then e\<lparr>ev_lastLoad := now\<rparr> else e)
      in e1\<lparr>ev_reloading := False\<rparr>)"

definition closeEvaluator :: "evaluator \<Rightarrow> evaluator" where
  "closeEvaluator e = e\<lparr>ev_closed := True, ev_pool := None\<rparr>"

section \<open>Goroutines\<close>

datatype pc =
  GetFirst
| Kick string
| Ensure
| CondWait
| Fetch
| SwapLock runtimePool string
| SwapGen runtimePool string
| SwapStore runtimePool string
| FinishLoad bool
| GetAgain
| LoadPool
| TakeSlot nat
| Call nat pacSlot
| PutResult nat pacSlot string
| GiveSlot nat pacSlot string
| Returned string
| Exited

record goroutine =
  th_url :: string
  th_host :: string
  th_bg :: bool
  th_pc :: pc

text \<open>The system: the evaluator, the goroutines that have called it, and the scripts of the pools
  published so far, which the program does not keep and the statements refer to.\<close>

record sys =
  sys_ev :: evaluator
  sys_threads :: "goroutine list"
  sys_scripts :: "string list"

definition goto :: "nat \<Rightarrow> pc \<Rightarrow> sys \<Rightarrow> sys" where
  "goto i l s = s\<lparr>sys_threads := (sys_threads s)[i := (sys_threads s ! i)\<lparr>th_pc := l\<rparr>]\<rparr>"

definition at :: "sys \<Rightarrow> nat \<Rightarrow> pc \<Rightarrow> bool" where
  "at s i l \<longleftrightarrow> i < length (sys_threads s) \<and> th_pc (sys_threads s ! i) = l"

definition setEv :: "evaluator \<Rightarrow> sys \<Rightarrow> sys" where
  "setEv e s = s\<lparr>sys_ev := e\<rparr>"

definition spawn :: "goroutine \<Rightarrow> sys \<Rightarrow> sys" where
  "spawn g s = s\<lparr>sys_threads := sys_threads s @ [g]\<rparr>"

definition bgReloader :: goroutine where
  "bgReloader = \<lparr>th_url = [], th_host = [], th_bg = True, th_pc = Fetch\<rparr>"

definition wake :: "goroutine \<Rightarrow> goroutine" where
  "wake g = (if th_pc g = CondWait then g\<lparr>th_pc := Ensure\<rparr> else g)"

definition broadcast :: "sys \<Rightarrow> sys" where
  "broadcast s = s\<lparr>sys_threads := map wake (sys_threads s)\<rparr>"

definition mkKey :: "sys \<Rightarrow> nat \<Rightarrow> string" where
  "mkKey s i = cacheKey (th_url (sys_threads s ! i)) (th_host (sys_threads s ! i))"

definition setCache :: "resultCache \<Rightarrow> sys \<Rightarrow> sys" where
  "setCache c s = setEv ((sys_ev s)\<lparr>ev_cache := c\<rparr>) s"

definition initSys :: "evaluator \<Rightarrow> sys" where
  "initSys e = \<lparr>sys_ev = e, sys_threads = [], sys_scripts = []\<rparr>"

section \<open>Steps\<close>

record world =
  w_run :: "string \<Rightarrow> bool"
  w_utils :: string
  w_js :: "string \<Rightarrow> string \<Rightarrow> string \<Rightarrow> string option \<Rightarrow> bool"
  w_source :: "string option \<Rightarrow> bool"

text \<open>The outcome of reading, decoding and compiling in \<^verbatim>\<open>loadAndSwap\<close>, before it takes the lock:
  the pool and, for the record, its script.\<close>

definition loadPool :: "world \<Rightarrow> evaluator \<Rightarrow> string option \<Rightarrow> (runtimePool \<times> string) option" where
  "loadPool w e data =
     (case data of
        None \<Rightarrow> None
      | Some d \<Rightarrow>
          (let txt = decodeText d (ev_encoding e)
           in map_option (\<lambda>p. (p, w_utils w @ [CHR 0x0A] @ txt)) (buildPool (w_run w) (w_utils w) (ev_poolSize e) txt)))"

definition takeSlot :: "nat \<Rightarrow> pacSlot list \<Rightarrow> evaluator \<Rightarrow> evaluator" where
  "takeSlot p rest e = e\<lparr>ev_pools := (ev_pools e)[p := (ev_pools e ! p)\<lparr>rp_slots := rest\<rparr>]\<rparr>"

definition giveSlot :: "nat \<Rightarrow> pacSlot \<Rightarrow> evaluator \<Rightarrow> evaluator" where
  "giveSlot p sl e =
     e\<lparr>ev_pools := (ev_pools e)[p := (ev_pools e ! p)\<lparr>rp_slots := rp_slots (ev_pools e ! p) @ [sl]\<rparr>]\<rparr>"

definition publish :: "int \<Rightarrow> runtimePool \<Rightarrow> evaluator \<Rightarrow> evaluator" where
  "publish now p e =
     e\<lparr>ev_pool := Some (length (ev_pools e)), ev_pools := ev_pools e @ [p], ev_lastLoad := now, ev_mu := None\<rparr>"

text \<open>The actor of a step is the goroutine that runs; a new request and \<^verbatim>\<open>Close\<close> come from outside.\<close>

inductive step :: "world \<Rightarrow> nat option \<Rightarrow> sys \<Rightarrow> sys \<Rightarrow> bool" for w where
  request: "step w None s (spawn \<lparr>th_url = u, th_host = h, th_bg = False, th_pc = GetFirst\<rparr> s)"
| get_hit: "at s i GetFirst \<Longrightarrow> cacheGet now (mkKey s i) (ev_cache (sys_ev s)) = (Some r, c) \<Longrightarrow>
    step w (Some i) s (goto i (Kick r) (setCache c s))"
| get_miss: "at s i GetFirst \<Longrightarrow> cacheGet now (mkKey s i) (ev_cache (sys_ev s)) = (None, c) \<Longrightarrow>
    step w (Some i) s (goto i Ensure (setCache c s))"
| kick: "at s i (Kick r) \<Longrightarrow> ev_mu (sys_ev s) = None \<Longrightarrow> kickReloadIfStale now (sys_ev s) = (False, e) \<Longrightarrow>
    step w (Some i) s (goto i (Returned r) (setEv e s))"
| kick_spawn: "at s i (Kick r) \<Longrightarrow> ev_mu (sys_ev s) = None \<Longrightarrow> kickReloadIfStale now (sys_ev s) = (True, e) \<Longrightarrow>
    step w (Some i) s (spawn bgReloader (goto i (Returned r) (setEv e s)))"
| ensure_go: "at s i Ensure \<Longrightarrow> ev_mu (sys_ev s) = None \<Longrightarrow> ensureLoaded now (sys_ev s) = (Proceed, e) \<Longrightarrow>
    step w (Some i) s (goto i GetAgain (setEv e s))"
| ensure_wait: "at s i Ensure \<Longrightarrow> ev_mu (sys_ev s) = None \<Longrightarrow> ensureLoaded now (sys_ev s) = (Wait, e) \<Longrightarrow>
    step w (Some i) s (goto i CondWait (setEv e s))"
| ensure_spawn: "at s i Ensure \<Longrightarrow> ev_mu (sys_ev s) = None \<Longrightarrow> ensureLoaded now (sys_ev s) = (Spawn, e) \<Longrightarrow>
    step w (Some i) s (spawn bgReloader (goto i GetAgain (setEv e s)))"
| ensure_load: "at s i Ensure \<Longrightarrow> ev_mu (sys_ev s) = None \<Longrightarrow> ensureLoaded now (sys_ev s) = (LoadHere, e) \<Longrightarrow>
    step w (Some i) s (goto i Fetch (setEv e s))"
| fetch_fail: "at s i Fetch \<Longrightarrow> w_source w data \<Longrightarrow> loadPool w (sys_ev s) data = None \<Longrightarrow>
    step w (Some i) s (goto i (FinishLoad False) s)"
| fetch_ok: "at s i Fetch \<Longrightarrow> w_source w data \<Longrightarrow> loadPool w (sys_ev s) data = Some (p, t) \<Longrightarrow>
    step w (Some i) s (goto i (SwapLock p t) s)"
| swap_closed: "at s i (SwapLock p t) \<Longrightarrow> ev_mu (sys_ev s) = None \<Longrightarrow> ev_closed (sys_ev s) \<Longrightarrow>
    step w (Some i) s (goto i (FinishLoad True) s)"
| swap_lock: "at s i (SwapLock p t) \<Longrightarrow> ev_mu (sys_ev s) = None \<Longrightarrow> \<not> ev_closed (sys_ev s) \<Longrightarrow>
    step w (Some i) s (goto i (SwapGen p t)
      (setEv ((sys_ev s)\<lparr>ev_mu := Some i, ev_cache := invalidate (ev_cache (sys_ev s))\<rparr>) s))"
| swap_gen: "at s i (SwapGen p t) \<Longrightarrow>
    step w (Some i) s (goto i (SwapStore (p\<lparr>rp_gen := generation (ev_cache (sys_ev s))\<rparr>) t) s)"
| swap_store: "at s i (SwapStore p t) \<Longrightarrow>
    step w (Some i) s (goto i (FinishLoad True) ((setEv (publish now p (sys_ev s)) s)\<lparr>sys_scripts := sys_scripts s @ [t]\<rparr>))"
| finish: "at s i (FinishLoad ok) \<Longrightarrow> ev_mu (sys_ev s) = None \<Longrightarrow> bg = th_bg (sys_threads s ! i) \<Longrightarrow>
    step w (Some i) s (broadcast (goto i (if bg then Exited else GetAgain) (setEv (finishLoad now bg ok (sys_ev s)) s)))"
| again_hit: "at s i GetAgain \<Longrightarrow> cacheGet now (mkKey s i) (ev_cache (sys_ev s)) = (Some r, c) \<Longrightarrow>
    step w (Some i) s (goto i (Returned r) (setCache c s))"
| again_miss: "at s i GetAgain \<Longrightarrow> cacheGet now (mkKey s i) (ev_cache (sys_ev s)) = (None, c) \<Longrightarrow>
    step w (Some i) s (goto i LoadPool (setCache c s))"
| no_pool: "at s i LoadPool \<Longrightarrow> ev_pool (sys_ev s) = None \<Longrightarrow> step w (Some i) s (goto i (Returned ''DIRECT'') s)"
| got_pool: "at s i LoadPool \<Longrightarrow> ev_pool (sys_ev s) = Some p \<Longrightarrow> step w (Some i) s (goto i (TakeSlot p) s)"
| take: "at s i (TakeSlot p) \<Longrightarrow> rp_slots (ev_pools (sys_ev s) ! p) = sl # rest \<Longrightarrow>
    step w (Some i) s (goto i (Call p sl) (setEv (takeSlot p rest (sys_ev s)) s))"
| call_err: "at s i (Call p sl) \<Longrightarrow>
    w_js w (slot_script sl) (th_url (sys_threads s ! i)) (th_host (sys_threads s ! i)) None \<Longrightarrow>
    step w (Some i) s (goto i (GiveSlot p sl ''DIRECT'') s)"
| call_ok: "at s i (Call p sl) \<Longrightarrow>
    w_js w (slot_script sl) (th_url (sys_threads s ! i)) (th_host (sys_threads s ! i)) (Some raw) \<Longrightarrow>
    step w (Some i) s (goto i (PutResult p sl (normalizeProxyResult raw)) s)"
| put: "at s i (PutResult p sl out) \<Longrightarrow>
    putIfGen now (mkKey s i) out (rp_gen (ev_pools (sys_ev s) ! p)) (ev_cache (sys_ev s)) = Some c \<Longrightarrow>
    step w (Some i) s (goto i (GiveSlot p sl out) (setCache c s))"
| give: "at s i (GiveSlot p sl r) \<Longrightarrow> step w (Some i) s (goto i (Returned r) (setEv (giveSlot p sl (sys_ev s)) s))"
| close: "ev_mu (sys_ev s) = None \<Longrightarrow> step w None s (broadcast (setEv (closeEvaluator (sys_ev s)) s))"

inductive reach :: "world \<Rightarrow> evaluator \<Rightarrow> sys \<Rightarrow> bool" for w e0 where
  start: "reach w e0 (initSys e0)"
| next_step: "reach w e0 s \<Longrightarrow> step w a s s' \<Longrightarrow> reach w e0 s'"

end
