(* ===== verification/Pac_Eval_Inv.thy ===== *)
theory Pac_Eval_Inv
  imports Pac_Eval
begin

text \<open>
  The invariants of the evaluator's step relation: who loads, who holds the lock and who waits
  (\<open>inv_ctl\<close>), and what the cache, the pools and the goroutines hold (\<open>inv_data\<close>), which
  rests on the cache's interface \<open>rc\<close>.
\<close>

section \<open>Counting goroutines\<close>

definition count :: "(pc \<Rightarrow> bool) \<Rightarrow> sys \<Rightarrow> nat" where
  "count P s = length (filter (\<lambda>g. P (th_pc g)) (sys_threads s))"

fun loading :: "pc \<Rightarrow> bool" where
  "loading Fetch = True"
| "loading (SwapLock p t) = True"
| "loading (SwapGen p t) = True"
| "loading (SwapStore p t) = True"
| "loading (FinishLoad ok) = True"
| "loading _ = False"

fun swapping :: "pc \<Rightarrow> bool" where
  "swapping (SwapGen p t) = True"
| "swapping (SwapStore p t) = True"
| "swapping _ = False"

fun waiting :: "pc \<Rightarrow> bool" where
  "waiting CondWait = True"
| "waiting _ = False"

lemma length_filter_update:
  "i < length xs \<Longrightarrow>
     length (filter P (xs[i := x])) + (if P (xs ! i) then 1 else 0) =
     length (filter P xs) + (if P x then 1 else 0)"
proof (induction xs arbitrary: i)
  case (Cons a xs)
  then show ?case by (cases i) auto
qed simp

lemma count_goto:
  "at s i l \<Longrightarrow> count P (goto i l' s) + (if P l then 1 else 0) = count P s + (if P l' then 1 else 0)"
  using length_filter_update [of i "sys_threads s" "\<lambda>g. P (th_pc g)" "(sys_threads s ! i)\<lparr>th_pc := l'\<rparr>"]
  by (simp add: at_def count_def goto_def)

lemma count_frame [simp]:
  "count P (setEv e s) = count P s" "count P (setCache c s) = count P s"
  "count P (s\<lparr>sys_scripts := ts\<rparr>) = count P s"
  "count P (spawn g s) = count P s + (if P (th_pc g) then 1 else 0)"
  by (simp_all add: count_def setEv_def setCache_def spawn_def)

lemma count_broadcast: "P CondWait = P Ensure \<Longrightarrow> count P (broadcast s) = count P s"
proof -
  assume P: "P CondWait = P Ensure"
  have "P (th_pc (wake g)) = P (th_pc g)" for g using P by (simp add: wake_def)
  then show ?thesis by (simp add: count_def broadcast_def filter_map o_def)
qed

lemma count_broadcast_simps [simp]:
  "count loading (broadcast s) = count loading s" "count swapping (broadcast s) = count swapping s"
  "count waiting (broadcast s) = 0"
proof -
  have "\<not> waiting (th_pc (wake g))" for g by (cases "th_pc g") (simp_all add: wake_def)
  then show "count waiting (broadcast s) = 0" by (simp add: count_def broadcast_def filter_map o_def)
qed (simp_all add: count_broadcast)

lemma at_frame [simp]:
  "at (setEv e s) i l = at s i l" "at (setCache c s) i l = at s i l" "at (s\<lparr>sys_scripts := ts\<rparr>) i l = at s i l"
  by (simp_all add: at_def setEv_def setCache_def)

lemma sys_frame [simp]:
  "sys_ev (goto i l s) = sys_ev s" "sys_ev (setEv e s) = e" "sys_ev (spawn g s) = sys_ev s"
  "sys_ev (broadcast s) = sys_ev s" "sys_ev (setCache c s) = (sys_ev s)\<lparr>ev_cache := c\<rparr>"
  "sys_scripts (goto i l s) = sys_scripts s" "sys_scripts (setEv e s) = sys_scripts s"
  "sys_scripts (spawn g s) = sys_scripts s" "sys_scripts (broadcast s) = sys_scripts s"
  "sys_scripts (setCache c s) = sys_scripts s"
  by (simp_all add: goto_def setEv_def spawn_def broadcast_def setCache_def)

lemma bgReloader_pc [simp]: "th_pc bgReloader = Fetch" "th_bg bgReloader"
  by (simp_all add: bgReloader_def)

lemma count_pos: "at s i l \<Longrightarrow> P l \<Longrightarrow> 0 < count P s"
  by (auto simp: at_def count_def filter_empty_conv)

lemma count_0: "count P s = 0 \<Longrightarrow> at s i l \<Longrightarrow> \<not> P l"
  using count_pos by fastforce

section \<open>Control invariant\<close>

text \<open>At most one goroutine loads, exactly when \<^verbatim>\<open>reloading\<close> is set; the lock is held between steps
  exactly by the one that swaps; a goroutine waits only while a load is under way; after
  \<^verbatim>\<open>Close\<close> there is no pool.\<close>

definition inv_ctl :: "sys \<Rightarrow> bool" where
  "inv_ctl s \<longleftrightarrow>
     count loading s = (if ev_reloading (sys_ev s) then 1 else 0) \<and>
     count swapping s = (if ev_mu (sys_ev s) = None then 0 else 1) \<and>
     (ev_mu (sys_ev s) \<noteq> None \<longrightarrow> \<not> ev_closed (sys_ev s)) \<and>
     (0 < count waiting s \<longrightarrow> ev_reloading (sys_ev s) \<and> \<not> ev_closed (sys_ev s)) \<and>
     (ev_closed (sys_ev s) \<longrightarrow> ev_pool (sys_ev s) = None)"

lemma finishLoad_frame [simp]:
  "ev_reloading (finishLoad now bg ok e) = False" "ev_mu (finishLoad now bg ok e) = ev_mu e"
  "ev_closed (finishLoad now bg ok e) = ev_closed e" "ev_pool (finishLoad now bg ok e) = ev_pool e"
  "ev_cache (finishLoad now bg ok e) = ev_cache e" "ev_pools (finishLoad now bg ok e) = ev_pools e"
  "ev_poolSize (finishLoad now bg ok e) = ev_poolSize e"
  by (simp_all add: finishLoad_def Let_def)

lemma slot_frame [simp]:
  "ev_reloading (takeSlot p r e) = ev_reloading e" "ev_mu (takeSlot p r e) = ev_mu e"
  "ev_closed (takeSlot p r e) = ev_closed e" "ev_pool (takeSlot p r e) = ev_pool e"
  "ev_cache (takeSlot p r e) = ev_cache e" "ev_poolSize (takeSlot p r e) = ev_poolSize e"
  "ev_reloading (giveSlot p sl e) = ev_reloading e" "ev_mu (giveSlot p sl e) = ev_mu e"
  "ev_closed (giveSlot p sl e) = ev_closed e" "ev_pool (giveSlot p sl e) = ev_pool e"
  "ev_cache (giveSlot p sl e) = ev_cache e" "ev_poolSize (giveSlot p sl e) = ev_poolSize e"
  by (simp_all add: takeSlot_def giveSlot_def)

lemma publish_frame [simp]:
  "ev_reloading (publish now p e) = ev_reloading e" "ev_mu (publish now p e) = None"
  "ev_closed (publish now p e) = ev_closed e" "ev_cache (publish now p e) = ev_cache e"
  "ev_poolSize (publish now p e) = ev_poolSize e" "ev_pools (publish now p e) = ev_pools e @ [p]"
  "ev_pool (publish now p e) = Some (length (ev_pools e))"
  by (simp_all add: publish_def)

lemma count_goto_eq:
  "at s i l \<Longrightarrow> count P (goto i l' s) = count P s + (if P l' then 1 else 0) - (if P l then 1 else 0)"
  using count_goto [of s i l P l'] by simp

lemmas count_dests =
  count_pos [where P = loading] count_pos [where P = swapping] count_pos [where P = waiting]

lemmas section_defs = kickReloadIfStale_def ensureLoaded_def closeEvaluator_def

lemma inv_ctl_init [inv_intros]: "inv_ctl (initSys (newEvaluator src enc ivl))"
  by (simp add: inv_ctl_def initSys_def newEvaluator_def count_def)

lemma inv_ctl_step [inv_intros]: "step w a s s' \<Longrightarrow> inv_ctl s \<Longrightarrow> inv_ctl s'"
  by (induction rule: step.induct)
    (auto simp: inv_ctl_def count_goto_eq section_defs dest: count_dests split: if_splits)

lemma inv_ctl_reach: "reach w (newEvaluator src enc ivl) s \<Longrightarrow> inv_ctl s"
  by (induction rule: reach.induct) (auto intro: inv_intros)

lemma mu_of_swapping: "inv_ctl s \<Longrightarrow> at s i l \<Longrightarrow> swapping l \<Longrightarrow> ev_mu (sys_ev s) \<noteq> None"
  using count_pos [of s i l swapping] by (simp add: inv_ctl_def split: if_splits)

lemma closed_not_swapping: "inv_ctl s \<Longrightarrow> at s i l \<Longrightarrow> ev_closed (sys_ev s) \<Longrightarrow> \<not> swapping l"
  by (metis inv_ctl_def mu_of_swapping)

section \<open>Data invariant\<close>

definition calls :: "sys \<Rightarrow> (string \<times> string) set" where
  "calls s = (\<lambda>g. (th_url g, th_host g)) ` set (sys_threads s)"

text \<open>A result for a key computed by one of the given scripts, for a call that was made and has
  that key.\<close>

definition computed :: "world \<Rightarrow> string set \<Rightarrow> (string \<times> string) set \<Rightarrow> string \<Rightarrow> string \<Rightarrow> bool" where
  "computed w ts cs k r \<longleftrightarrow>
     (\<exists>t\<in>ts. \<exists>(u, h)\<in>cs. \<exists>raw. cacheKey u h = k \<and> w_js w t u h (Some raw) \<and> r = normalizeProxyResult raw)"

definition answer :: "world \<Rightarrow> string set \<Rightarrow> (string \<times> string) set \<Rightarrow> string \<Rightarrow> string \<Rightarrow> bool" where
  "answer w ts cs k r \<longleftrightarrow> r = ''DIRECT'' \<or> computed w ts cs k r"

fun pc_ok :: "world \<Rightarrow> nat \<Rightarrow> string list \<Rightarrow> (string \<times> string) set \<Rightarrow> string \<Rightarrow> string \<Rightarrow> pc \<Rightarrow> bool" where
  "pc_ok w n ts cs u h (Kick r) = answer w (set ts) cs (cacheKey u h) r"
| "pc_ok w n ts cs u h (Returned r) = answer w (set ts) cs (cacheKey u h) r"
| "pc_ok w n ts cs u h (TakeSlot p) = (p < length ts)"
| "pc_ok w n ts cs u h (Call p sl) = (p < length ts \<and> slot_script sl = ts ! p)"
| "pc_ok w n ts cs u h (PutResult p sl r) = (p < length ts \<and> slot_script sl = ts ! p \<and>
     computed w {ts ! p} {(u, h)} (cacheKey u h) r)"
| "pc_ok w n ts cs u h (GiveSlot p sl r) = (p < length ts \<and> slot_script sl = ts ! p \<and>
     answer w (set ts) cs (cacheKey u h) r)"
| "pc_ok w n ts cs u h (SwapLock rp t) = (rp_slots rp = replicate n \<lparr>slot_script = t\<rparr>)"
| "pc_ok w n ts cs u h (SwapGen rp t) = (rp_slots rp = replicate n \<lparr>slot_script = t\<rparr>)"
| "pc_ok w n ts cs u h (SwapStore rp t) = (rp_slots rp = replicate n \<lparr>slot_script = t\<rparr>)"
| "pc_ok w n ts cs u h _ = True"

lemma computed_mono: "computed w ts cs k r \<Longrightarrow> ts \<subseteq> ts' \<Longrightarrow> cs \<subseteq> cs' \<Longrightarrow> computed w ts' cs' k r"
  unfolding computed_def by blast

lemma answer_mono: "answer w ts cs k r \<Longrightarrow> ts \<subseteq> ts' \<Longrightarrow> cs \<subseteq> cs' \<Longrightarrow> answer w ts' cs' k r"
  unfolding answer_def using computed_mono by blast

lemma pc_ok_mono:
  "pc_ok w n ts cs u h l \<Longrightarrow> cs \<subseteq> cs' \<Longrightarrow> pc_ok w n (ts @ ts') cs' u h l"
  using answer_mono [of w "set ts" cs _ _ "set (ts @ ts')" cs']
  by (cases "(w, n, ts, cs, u, h, l)" rule: pc_ok.cases) (auto simp: nth_append)

definition inv_thr :: "world \<Rightarrow> sys \<Rightarrow> bool" where
  "inv_thr w s \<longleftrightarrow> (\<forall>g\<in>set (sys_threads s).
     pc_ok w (effectivePoolSize (ev_poolSize (sys_ev s))) (sys_scripts s) (calls s) (th_url g) (th_host g) (th_pc g))"

lemma inv_thr_at:
  "inv_thr w s \<Longrightarrow> at s i l \<Longrightarrow>
     pc_ok w (effectivePoolSize (ev_poolSize (sys_ev s))) (sys_scripts s) (calls s)
       (th_url (sys_threads s ! i)) (th_host (sys_threads s ! i)) l"
  by (force simp: inv_thr_def at_def)

lemma calls_at: "at s i l \<Longrightarrow> (th_url (sys_threads s ! i), th_host (sys_threads s ! i)) \<in> calls s"
  by (force simp: at_def calls_def)

lemma calls_frame [simp]:
  "calls (setEv e s) = calls s" "calls (setCache c s) = calls s" "calls (s\<lparr>sys_scripts := ts\<rparr>) = calls s"
  "calls (broadcast s) = calls s" "calls (spawn g s) = insert (th_url g, th_host g) (calls s)"
proof -
  have "th_url (wake g) = th_url g" "th_host (wake g) = th_host g" for g
    by (simp_all add: wake_def)
  then show "calls (broadcast s) = calls s" by (simp add: calls_def broadcast_def image_image)
qed (simp_all add: calls_def setEv_def setCache_def spawn_def)

lemma goto_threads:
  "at s i l0 \<Longrightarrow> set (sys_threads (goto i l s)) \<subseteq> insert ((sys_threads s ! i)\<lparr>th_pc := l\<rparr>) (set (sys_threads s))"
  by (simp add: goto_def set_update_subset_insert)

lemma calls_goto: "at s i l0 \<Longrightarrow> calls (goto i l s) = calls s"
proof -
  assume "at s i l0"
  then have i: "i < length (sys_threads s)" by (simp add: at_def)
  have "map (\<lambda>g. (th_url g, th_host g)) (sys_threads (goto i l s)) = map (\<lambda>g. (th_url g, th_host g)) (sys_threads s)"
    using i by (simp add: goto_def map_update list_update_same_conv)
  then show ?thesis unfolding calls_def by (metis set_map)
qed

lemma inv_thr_frame:
  "ev_poolSize e = ev_poolSize (sys_ev s) \<Longrightarrow> inv_thr w (setEv e s) = inv_thr w s"
  "inv_thr w (setCache c s) = inv_thr w s"
  by (simp_all add: inv_thr_def) (simp_all add: setEv_def setCache_def)

lemma inv_thr_goto:
  assumes "inv_thr w s" "at s i l0"
    and "pc_ok w (effectivePoolSize (ev_poolSize (sys_ev s))) (sys_scripts s) (calls s)
      (th_url (sys_threads s ! i)) (th_host (sys_threads s ! i)) l"
  shows "inv_thr w (goto i l s)"
  unfolding inv_thr_def calls_goto [OF assms(2)] sys_frame
  using assms(1,3) goto_threads [OF assms(2), of l] by (auto simp: inv_thr_def)

lemma inv_thr_spawn:
  assumes "inv_thr w s" "\<And>n ts cs. pc_ok w n ts cs (th_url g) (th_host g) (th_pc g)"
  shows "inv_thr w (spawn g s)"
proof -
  have "pc_ok w n ts (insert c cs) u h l" if "pc_ok w n ts cs u h l" for n ts c cs u h l
    using pc_ok_mono [OF that subset_insertI, where ts' = "[]"] by simp
  then show ?thesis using assms by (auto simp: inv_thr_def) (auto simp: spawn_def)
qed

lemma inv_thr_broadcast: "inv_thr w s \<Longrightarrow> inv_thr w (broadcast s)"
  by (simp add: inv_thr_def) (auto simp: broadcast_def wake_def)

lemma inv_thr_scripts: "inv_thr w s \<Longrightarrow> inv_thr w (s\<lparr>sys_scripts := sys_scripts s @ ts\<rparr>)"
  using pc_ok_mono by (simp add: inv_thr_def) fast

lemma threads_frame [simp]: "sys_threads (setEv e s) = sys_threads s" "sys_threads (setCache c s) = sys_threads s"
  by (simp_all add: setEv_def setCache_def)

text \<open>What the cache may hold: results computed by published scripts; and, as long as the 64-bit
  generation has not wrapped, by the script published last, with no swap under way.\<close>

definition fresh :: "world \<Rightarrow> sys \<Rightarrow> string \<Rightarrow> string \<Rightarrow> bool" where
  "fresh w s k r \<longleftrightarrow> computed w (set (sys_scripts s)) (calls s) k r \<and>
     (length (sys_scripts s) + 1 < 2 ^ 64 \<longrightarrow> ev_mu (sys_ev s) = None \<and> sys_scripts s \<noteq> [] \<and>
        computed w {last (sys_scripts s)} (calls s) k r)"

definition inv_pools :: "sys \<Rightarrow> bool" where
  "inv_pools s \<longleftrightarrow>
     length (ev_pools (sys_ev s)) = length (sys_scripts s) \<and>
     (\<forall>p<length (sys_scripts s). rp_gen (ev_pools (sys_ev s) ! p) = of_nat (Suc p) \<and>
        (\<forall>sl\<in>set (rp_slots (ev_pools (sys_ev s) ! p)). slot_script sl = sys_scripts s ! p)) \<and>
     generation (ev_cache (sys_ev s)) = of_nat (length (sys_scripts s) + (if ev_mu (sys_ev s) = None then 0 else 1)) \<and>
     (\<forall>p. ev_pool (sys_ev s) = Some p \<longrightarrow> Suc p = length (sys_scripts s))"

definition inv_swap :: "sys \<Rightarrow> bool" where
  "inv_swap s \<longleftrightarrow> (\<forall>g\<in>set (sys_threads s). \<forall>rp t. th_pc g = SwapStore rp t \<longrightarrow>
     rp_gen rp = generation (ev_cache (sys_ev s)))"

lemma inv_swap_at: "inv_swap s \<Longrightarrow> at s i (SwapStore rp t) \<Longrightarrow> rp_gen rp = generation (ev_cache (sys_ev s))"
  by (force simp: inv_swap_def at_def)

lemma inv_swap_goto:
  assumes "inv_swap s" "at s i l0" "\<And>rp t. l = SwapStore rp t \<Longrightarrow> rp_gen rp = generation (ev_cache (sys_ev s))"
  shows "inv_swap (goto i l s)"
  unfolding inv_swap_def sys_frame
  using assms(1,3) goto_threads [OF assms(2), of l] by (auto simp: inv_swap_def)

lemma inv_swap_frame:
  "generation (ev_cache e) = generation (ev_cache (sys_ev s)) \<Longrightarrow> inv_swap (setEv e s) = inv_swap s"
  "generation c = generation (ev_cache (sys_ev s)) \<Longrightarrow> inv_swap (setCache c s) = inv_swap s"
  by (simp_all add: inv_swap_def)

lemma inv_swap_none: "count swapping s = 0 \<Longrightarrow> inv_swap s"
  by (force simp: inv_swap_def count_def filter_empty_conv)

lemma inv_swap_spawn: "inv_swap s \<Longrightarrow> (\<And>rp t. th_pc g \<noteq> SwapStore rp t) \<Longrightarrow> inv_swap (spawn g s)"
  by (simp add: inv_swap_def) (auto simp: spawn_def)

lemma inv_swap_broadcast: "inv_swap s \<Longrightarrow> inv_swap (broadcast s)"
  by (simp add: inv_swap_def) (auto simp: broadcast_def wake_def split: if_splits)

lemma inv_swap_scripts: "inv_swap (s\<lparr>sys_scripts := ts\<rparr>) = inv_swap s"
  by (simp add: inv_swap_def)

text \<open>The two facts about the cache that the steps need, from its interface.\<close>

definition inv_cached :: "world \<Rightarrow> sys \<Rightarrow> bool" where
  "inv_cached w s \<longleftrightarrow> rc.coherent (fresh w s) (ev_cache (sys_ev s))"

lemma cached_get:
  assumes "inv_cached w s" "cacheGet now k (ev_cache (sys_ev s)) = (r, c)"
  shows "generation c = generation (ev_cache (sys_ev s))" "rc.coherent (fresh w s) c"
    and "\<And>x. r = Some x \<Longrightarrow> fresh w s k x"
  using assms rc.get_frame [OF rc.coherent_inv, of "fresh w s" "ev_cache (sys_ev s)" now k]
    rc.coherent_get [of "fresh w s" "ev_cache (sys_ev s)" now k]
    rc.coherent_hit [of "fresh w s" "ev_cache (sys_ev s)" now k]
  by (auto simp: inv_cached_def)

lemma cached_mono:
  assumes "inv_cached w s" "\<And>k r. fresh w s k r \<Longrightarrow> fresh w s' k r" "ev_cache (sys_ev s') = ev_cache (sys_ev s)"
  shows "inv_cached w s'"
  using assms rc.coherent_mono [of "fresh w s" "ev_cache (sys_ev s)" "fresh w s'"] by (simp add: inv_cached_def)

lemma fresh_mono:
  "fresh w s k r \<Longrightarrow> sys_scripts s' = sys_scripts s \<Longrightarrow> calls s \<subseteq> calls s' \<Longrightarrow>
     ev_mu (sys_ev s') = ev_mu (sys_ev s) \<Longrightarrow> fresh w s' k r"
  using computed_mono [of w _ "calls s" k r _ "calls s'"] by (auto simp: fresh_def)

lemma fresh_cong:
  "sys_scripts s' = sys_scripts s \<Longrightarrow> calls s' = calls s \<Longrightarrow> ev_mu (sys_ev s') = ev_mu (sys_ev s) \<Longrightarrow>
     fresh w s' = fresh w s"
  by (simp add: fresh_def fun_eq_iff)

lemma fresh_answer: "fresh w s k r \<Longrightarrow> answer w (set (sys_scripts s)) (calls s) k r"
  by (simp add: fresh_def answer_def)

text \<open>A result stored under the generation of its pool is from the last script.\<close>

lemma put_fresh:
  assumes "inv_pools s" "inv_thr w s" "at s i (PutResult p sl out)"
    and "rp_gen (ev_pools (sys_ev s) ! p) = generation (ev_cache (sys_ev s))"
  shows "fresh w s (mkKey s i) out"
proof -
  have p: "p < length (sys_scripts s)" and c: "computed w {sys_scripts s ! p} (calls s) (mkKey s i) out"
    using inv_thr_at [OF assms(2,3)] calls_at [OF assms(3)] computed_mono [OF _ subset_refl]
    by (auto simp: mkKey_def)
  let ?m = "length (sys_scripts s) + (if ev_mu (sys_ev s) = None then 0 else 1)"
  have "(of_nat (Suc p) :: 64 word) = of_nat ?m" using assms(1,4) p by (simp add: inv_pools_def)
  moreover have "Suc p < 2 ^ 64 \<and> ?m < 2 ^ 64" if "length (sys_scripts s) + 1 < 2 ^ 64"
    using that p by simp
  ultimately have eq: "Suc p = ?m" if "length (sys_scripts s) + 1 < 2 ^ 64"
    using that of_nat_word64_inject [of "Suc p" ?m] by blast
  have "ev_mu (sys_ev s) = None \<and> sys_scripts s ! p = last (sys_scripts s)"
    if lt: "length (sys_scripts s) + 1 < 2 ^ 64"
  proof -
    have mu: "ev_mu (sys_ev s) = None" using eq [OF lt] p by (simp split: if_splits)
    then have "p = length (sys_scripts s) - 1" using eq [OF lt] by simp
    then show ?thesis using mu p last_conv_nth [of "sys_scripts s"] by fastforce
  qed
  then show ?thesis using c p computed_mono [OF c] nth_mem [OF p] by (auto simp: fresh_def)
qed

subsection \<open>Preservation\<close>

definition inv_data :: "world \<Rightarrow> sys \<Rightarrow> bool" where
  "inv_data w s \<longleftrightarrow> inv_thr w s \<and> inv_pools s \<and> inv_swap s \<and> inv_cached w s"

lemma loadPool_slots:
  "loadPool w e data = Some (p, t) \<Longrightarrow>
     rp_slots p = replicate (effectivePoolSize (ev_poolSize e)) \<lparr>slot_script = t\<rparr>"
  by (auto simp: loadPool_def Let_def split: option.splits dest: buildPool_some)

lemma section_poolSize:
  "kickReloadIfStale now e = (b, e') \<Longrightarrow> ev_poolSize e' = ev_poolSize e"
  "ensureLoaded now e = (o', e') \<Longrightarrow> ev_poolSize e' = ev_poolSize e"
  by (auto simp: section_defs split: if_splits)

lemma inv_thr_step: 
  "step w a s s' \<Longrightarrow> inv_data w s \<Longrightarrow> inv_thr w s'"
proof (induction rule: step.induct)
  case (get_hit s i now r c)
  then show ?case using cached_get(3) [of w s now "mkKey s i"] fresh_answer [of w s "mkKey s i" r]
    by (auto simp: inv_data_def inv_thr_frame mkKey_def intro!: inv_thr_goto)
next
  case (again_hit s i now r c)
  then show ?case using cached_get(3) [of w s now "mkKey s i"] fresh_answer [of w s "mkKey s i" r]
    by (auto simp: inv_data_def inv_thr_frame mkKey_def intro!: inv_thr_goto)
next
  case (fetch_ok s i data p t)
  then show ?case by (auto simp: inv_data_def dest: loadPool_slots intro!: inv_thr_goto)
next
  case (take s i p sl rest)
  then show ?case using inv_thr_at [of w s i "TakeSlot p"]
    by (auto simp: inv_data_def inv_thr_frame inv_pools_def intro!: inv_thr_goto)
next
  case (call_ok s i p sl raw)
  then show ?case using inv_thr_at [of w s i "Call p sl"]
    by (auto simp: inv_data_def computed_def intro!: inv_thr_goto)
next
  case (swap_store s i p t now)
  have "inv_thr w ((setEv (publish now p (sys_ev s)) s)\<lparr>sys_scripts := sys_scripts s @ [t]\<rparr>)"
    using inv_thr_scripts [of w "setEv (publish now p (sys_ev s)) s" "[t]"] swap_store
    by (simp add: inv_data_def inv_thr_frame)
  then show ?case using swap_store by (auto intro!: inv_thr_goto)
next
  case (put s i p sl out now c)
  then show ?case
    using inv_thr_at [of w s i "PutResult p sl out"] calls_at [of s i]
      computed_mono [of w "{sys_scripts s ! p}" _ _ out "set (sys_scripts s)" "calls s"]
    by (auto simp: inv_data_def inv_thr_frame answer_def intro!: inv_thr_goto)
next
  case (got_pool s i p)
  then show ?case by (auto simp: inv_data_def inv_pools_def intro!: inv_thr_goto)
qed (use inv_thr_at [of w] in \<open>auto simp: inv_data_def inv_thr_frame section_poolSize closeEvaluator_def
       answer_def bgReloader_def intro!: inv_thr_goto inv_thr_spawn inv_thr_broadcast dest: inv_thr_at\<close>)

lemma section_frame:
  "kickReloadIfStale now e = (b, e') \<Longrightarrow> ev_cache e' = ev_cache e \<and> ev_pools e' = ev_pools e \<and>
     ev_pool e' = ev_pool e \<and> ev_mu e' = ev_mu e"
  "ensureLoaded now e = (o', e') \<Longrightarrow> ev_cache e' = ev_cache e \<and> ev_pools e' = ev_pools e \<and>
     ev_pool e' = ev_pool e \<and> ev_mu e' = ev_mu e"
  by (auto simp: section_defs split: if_splits)

lemma put_gen:
  "inv_cached w s \<Longrightarrow> putIfGen now k r g (ev_cache (sys_ev s)) = Some c \<Longrightarrow>
     generation c = generation (ev_cache (sys_ev s))"
  using rc.put_frame rc.coherent_inv by (fastforce simp: inv_cached_def)

lemma inv_swap_step: "step w a s s' \<Longrightarrow> inv_ctl s \<Longrightarrow> inv_data w s \<Longrightarrow> inv_swap s'"
proof (induction rule: step.induct)
  case (swap_lock s i p t)
  have "count swapping (setEv ((sys_ev s)\<lparr>ev_mu := Some i, ev_cache := invalidate (ev_cache (sys_ev s))\<rparr>) s) = 0"
    using swap_lock by (simp add: inv_ctl_def)
  then show ?case using swap_lock by (intro inv_swap_goto inv_swap_none) auto
next
  case (swap_store s i p t now)
  then have "inv_swap ((setEv (publish now p (sys_ev s)) s)\<lparr>sys_scripts := sys_scripts s @ [t]\<rparr>)"
    by (simp add: inv_data_def inv_swap_frame inv_swap_scripts)
  then show ?case using swap_store by (auto intro!: inv_swap_goto)
qed (auto simp: inv_data_def inv_swap_frame closeEvaluator_def put_gen dest: section_frame cached_get(1)
      intro!: inv_swap_goto inv_swap_spawn inv_swap_broadcast)

lemma inv_pools_frame:
  "inv_pools s \<Longrightarrow> sys_scripts s' = sys_scripts s \<Longrightarrow> ev_pools (sys_ev s') = ev_pools (sys_ev s) \<Longrightarrow>
     generation (ev_cache (sys_ev s')) = generation (ev_cache (sys_ev s)) \<Longrightarrow>
     ev_mu (sys_ev s') = ev_mu (sys_ev s) \<Longrightarrow>
     ev_pool (sys_ev s') = ev_pool (sys_ev s) \<or> ev_pool (sys_ev s') = None \<Longrightarrow> inv_pools s'"
  by (auto simp: inv_pools_def)

lemma inv_pools_script:
  "inv_pools s \<Longrightarrow> p < length (sys_scripts s) \<Longrightarrow> sl \<in> set (rp_slots (ev_pools (sys_ev s) ! p)) \<Longrightarrow>
     slot_script sl = sys_scripts s ! p"
  by (simp add: inv_pools_def)

lemma inv_pools_slots:
  assumes "inv_pools s" "ev_mu e = ev_mu (sys_ev s)" "ev_cache e = ev_cache (sys_ev s)"
    "ev_pool e = ev_pool (sys_ev s)"
    "ev_pools e = (ev_pools (sys_ev s))[p := (ev_pools (sys_ev s) ! p)\<lparr>rp_slots := sls\<rparr>]"
    and "p < length (sys_scripts s)" "\<forall>sl\<in>set sls. slot_script sl = sys_scripts s ! p"
  shows "inv_pools (setEv e s)"
  using assms by (auto simp: inv_pools_def nth_list_update)

lemma inv_pools_step: "step w a s s' \<Longrightarrow> inv_ctl s \<Longrightarrow> inv_data w s \<Longrightarrow> inv_pools s'"
proof (induction rule: step.induct)
  case (swap_lock s i p t)
  then show ?case by (auto simp: inv_data_def inv_pools_def invalidate_def generation_def)
next
  case (swap_store s i p t now)
  have mu: "ev_mu (sys_ev s) \<noteq> None"
    using swap_store mu_of_swapping [of s i "SwapStore p t"] by simp
  have "rp_gen p = of_nat (Suc (length (sys_scripts s)))"
    using inv_swap_at [of s i p t] swap_store mu by (simp add: inv_data_def inv_pools_def)
  moreover have "\<forall>sl\<in>set (rp_slots p). slot_script sl = t"
    using inv_thr_at [of w s i "SwapStore p t"] swap_store by (simp add: inv_data_def)
  ultimately show ?case
    using swap_store mu by (auto simp: inv_data_def inv_pools_def nth_append less_Suc_eq)
next
  case (take s i p sl rest)
  have p: "p < length (sys_scripts s)" using inv_thr_at [of w s i "TakeSlot p"] take by (simp add: inv_data_def)
  have "inv_pools (setEv (takeSlot p rest (sys_ev s)) s)"
    by (rule inv_pools_slots [where p = p and sls = rest])
      (use take p inv_pools_script [of s p] in \<open>simp_all add: takeSlot_def inv_data_def\<close>)
  then show ?case by (rule inv_pools_frame) simp_all
next
  case (give s i p sl r)
  have p: "p < length (sys_scripts s)" "slot_script sl = sys_scripts s ! p"
    using inv_thr_at [of w s i "GiveSlot p sl r"] give by (simp_all add: inv_data_def)
  have "inv_pools (setEv (giveSlot p sl (sys_ev s)) s)"
    by (rule inv_pools_slots [where p = p and sls = "rp_slots (ev_pools (sys_ev s) ! p) @ [sl]"])
      (use give p inv_pools_script [of s p] in \<open>auto simp: giveSlot_def inv_data_def\<close>)
  then show ?case by (rule inv_pools_frame) simp_all
qed (auto simp: inv_data_def closeEvaluator_def put_gen dest: section_frame cached_get(1)
      elim!: inv_pools_frame)

lemma cached_frame:
  "rc.coherent (fresh w s) (ev_cache (sys_ev s')) \<Longrightarrow> sys_scripts s' = sys_scripts s \<Longrightarrow> calls s \<subseteq> calls s' \<Longrightarrow>
     ev_mu (sys_ev s') = ev_mu (sys_ev s) \<Longrightarrow> inv_cached w s'"
  unfolding inv_cached_def by (erule rc.coherent_mono) (erule fresh_mono)

lemma cached_step_frame:
  "inv_data w s \<Longrightarrow> ev_cache (sys_ev s') = ev_cache (sys_ev s) \<Longrightarrow> sys_scripts s' = sys_scripts s \<Longrightarrow>
     calls s \<subseteq> calls s' \<Longrightarrow> ev_mu (sys_ev s') = ev_mu (sys_ev s) \<Longrightarrow> inv_cached w s'"
  by (rule cached_frame [of w s]) (simp_all add: inv_data_def inv_cached_def)

lemma inv_cached_step: "step w a s s' \<Longrightarrow> inv_ctl s \<Longrightarrow> inv_data w s \<Longrightarrow> inv_cached w s'"
proof (induction rule: step.induct)
  case (swap_lock s i p t)
  then show ?case using rc.coherent_drop_all [of "fresh w s" "ev_cache (sys_ev s)"]
    by (auto simp: inv_data_def inv_cached_def)
next
  case (swap_store s i p t now)
  have mu: "ev_mu (sys_ev s) \<noteq> None"
    using swap_store mu_of_swapping [of s i "SwapStore p t"] by simp
  let ?s = "goto i (FinishLoad True) ((setEv (publish now p (sys_ev s)) s)\<lparr>sys_scripts := sys_scripts s @ [t]\<rparr>)"
  have "fresh w ?s k r" if "fresh w s k r" for k r
    using that mu swap_store computed_mono [of w "set (sys_scripts s)" "calls s" k r "set (sys_scripts s @ [t])"]
    by (auto simp: fresh_def calls_goto)
  then show ?case using swap_store cached_mono [of w s ?s] by (simp add: inv_data_def)
next
  case (put s i p sl out now c)
  have "\<exists>c'. putIfGen now (mkKey s i) out (rp_gen (ev_pools (sys_ev s) ! p)) (ev_cache (sys_ev s)) = Some c' \<and>
      rc.coherent (fresh w s) c' \<and> generation c' = generation (ev_cache (sys_ev s))"
    using put put_fresh [of s w i p sl out] by (intro rc.coherent_put) (auto simp: inv_data_def inv_cached_def)
  then show ?case
    using put fresh_cong [of "goto i (GiveSlot p sl out) (setCache c s)" s w]
    by (simp add: inv_cached_def calls_goto)
next
  case (get_hit s i now r c)
  then show ?case using cached_get(2) [of w s] by (intro cached_frame [of w s]) (auto simp: inv_data_def calls_goto)
next
  case (get_miss s i now c)
  then show ?case using cached_get(2) [of w s] by (intro cached_frame [of w s]) (auto simp: inv_data_def calls_goto)
next
  case (again_hit s i now r c)
  then show ?case using cached_get(2) [of w s] by (intro cached_frame [of w s]) (auto simp: inv_data_def calls_goto)
next
  case (again_miss s i now c)
  then show ?case using cached_get(2) [of w s] by (intro cached_frame [of w s]) (auto simp: inv_data_def calls_goto)
qed (erule cached_step_frame; auto simp: closeEvaluator_def calls_goto dest: section_frame)+

end
