(* ===== verification/Pac_Eval_Props.thy ===== *)
theory Pac_Eval_Props
  imports Pac_Eval_Inv
begin

text \<open>
  Properties of the PAC evaluator under any interleaving of its goroutines: what a cached result
  may be, that one goroutine loads at a time, that closing is final, and that every call returns.
\<close>

section \<open>The invariants hold\<close>

lemma inv_data_init: "inv_data w (initSys (newEvaluator src enc ivl))"
proof -
  have "rc.coherent P (newResultCache ttl cap)" for P ttl cap
    using cache_inv_new [of ttl cap]
    by (simp add: rc.coherent_def cacheContent_def absCache_def) (simp add: newResultCache_def)
  then show ?thesis
    by (simp add: inv_data_def inv_thr_def inv_pools_def inv_swap_def inv_cached_def initSys_def
        newEvaluator_def generation_def) (simp add: newResultCache_def)
qed

lemma inv_data_step: "step w a s s' \<Longrightarrow> inv_ctl s \<Longrightarrow> inv_data w s \<Longrightarrow> inv_data w s'"
  unfolding inv_data_def [of w s']
  using inv_thr_step inv_pools_step inv_swap_step inv_cached_step by blast

lemma inv_data_reach: "reach w (newEvaluator src enc ivl) s \<Longrightarrow> inv_data w s"
  by (induction rule: reach.induct) (auto intro: inv_data_init inv_data_step inv_ctl_reach)

lemma cacheKey_inject:
  assumes "CHR 0x00 \<notin> set u" "CHR 0x00 \<notin> set u'" "cacheKey u h = cacheKey u' h'"
  shows "u = u' \<and> h = h'"
proof -
  have "takeWhile (\<lambda>c. c \<noteq> CHR 0x00) (cacheKey v g) = v" if "CHR 0x00 \<notin> set v" for v g
    using that by (induction v) (auto simp: cacheKey_def)
  then have "u = u'" using assms by metis
  then show ?thesis using assms(3) by (simp add: cacheKey_def)
qed

section \<open>Slots\<close>

fun holds_slot :: "nat \<Rightarrow> pc \<Rightarrow> bool" where
  "holds_slot p (Call q sl) = (p = q)"
| "holds_slot p (PutResult q sl r) = (p = q)"
| "holds_slot p (GiveSlot q sl r) = (p = q)"
| "holds_slot p _ = False"

definition inv_slots :: "sys \<Rightarrow> bool" where
  "inv_slots s \<longleftrightarrow> (\<forall>p<length (ev_pools (sys_ev s)).
     length (rp_slots (ev_pools (sys_ev s) ! p)) + count (holds_slot p) s =
     effectivePoolSize (ev_poolSize (sys_ev s)))"

lemma count_holds_broadcast [simp]: "count (holds_slot p) (broadcast s) = count (holds_slot p) s"
  by (rule count_broadcast) simp

lemma holds_none:
  assumes "inv_thr w s" "length (sys_scripts s) \<le> p"
  shows "count (holds_slot p) s = 0"
proof (rule ccontr)
  assume "count (holds_slot p) s \<noteq> 0"
  then obtain g where g: "g \<in> set (sys_threads s)" "holds_slot p (th_pc g)"
    by (auto simp: count_def filter_empty_conv)
  from g(1) assms(1) have "pc_ok w (effectivePoolSize (ev_poolSize (sys_ev s))) (sys_scripts s) (calls s)
      (th_url g) (th_host g) (th_pc g)" by (simp add: inv_thr_def)
  with g(2) assms(2) show False by (cases "th_pc g") auto
qed

lemma inv_slots_frame:
  "inv_slots s \<Longrightarrow> ev_pools (sys_ev s') = ev_pools (sys_ev s) \<Longrightarrow> ev_poolSize (sys_ev s') = ev_poolSize (sys_ev s) \<Longrightarrow>
     (\<And>p. count (holds_slot p) s' = count (holds_slot p) s) \<Longrightarrow> inv_slots s'"
  by (simp add: inv_slots_def)

lemma inv_slots_step: "step w a s s' \<Longrightarrow> inv_data w s \<Longrightarrow> inv_slots s \<Longrightarrow> inv_slots s'"
proof (induction rule: step.induct)
  case (swap_store s i p t now)
  have "length (rp_slots p) = effectivePoolSize (ev_poolSize (sys_ev s))"
    using inv_thr_at [of w s i "SwapStore p t"] swap_store by (simp add: inv_data_def)
  moreover have "count (holds_slot (length (ev_pools (sys_ev s)))) s = 0"
    using swap_store by (intro holds_none) (auto simp: inv_data_def inv_pools_def)
  ultimately show ?case
    using swap_store by (simp add: inv_slots_def count_goto_eq nth_append less_Suc_eq)
next
  case (take s i p sl rest)
  then show ?case
    by (auto simp: inv_slots_def takeSlot_def count_goto_eq nth_list_update)
next
  case (give s i p sl r)
  then show ?case
    using count_pos [of s i "GiveSlot p sl r" "holds_slot p"]
    by (auto simp: inv_slots_def giveSlot_def count_goto_eq nth_list_update)
qed (erule inv_slots_frame; auto simp: count_goto_eq closeEvaluator_def dest: section_frame section_poolSize
      count_pos [where P = "holds_slot _"])+

lemma inv_slots_reach: "reach w (newEvaluator src enc ivl) s \<Longrightarrow> inv_slots s"
proof (induction rule: reach.induct)
  case start
  then show ?case by (simp add: inv_slots_def initSys_def newEvaluator_def)
next
  case (next_step s a s')
  then show ?case using inv_slots_step inv_data_reach by blast
qed

section \<open>Progress\<close>

text \<open>Goroutines that are done, and the two places where one can block although the lock is free.\<close>

fun final :: "pc \<Rightarrow> bool" where
  "final (Returned r) = True"
| "final Exited = True"
| "final _ = False"

fun may_block :: "pc \<Rightarrow> bool" where
  "may_block CondWait = True"
| "may_block (TakeSlot p) = True"
| "may_block _ = False"

definition total_world :: "world \<Rightarrow> bool" where
  "total_world w \<longleftrightarrow> (\<forall>t u h. \<exists>out. w_js w t u h out) \<and> (\<exists>data. w_source w data)"

lemma count_ex: "0 < count P s \<Longrightarrow> \<exists>i l. at s i l \<and> P l"
proof -
  assume "0 < count P s"
  then obtain g where "g \<in> set (sys_threads s)" "P (th_pc g)"
    by (auto simp: count_def filter_empty_conv)
  then show ?thesis unfolding at_def by (metis in_set_conv_nth)
qed

lemma swapping_enabled: "at s i l \<Longrightarrow> swapping l \<Longrightarrow> \<exists>s'. step w (Some i) s s'"
  by (cases l) (auto intro: step.swap_gen step.swap_store)

lemma sections_enabled:
  assumes "at s i l" "ev_mu (sys_ev s) = None"
  shows "l = Kick r \<Longrightarrow> \<exists>s'. step w (Some i) s s'"
    and "l = Ensure \<Longrightarrow> \<exists>s'. step w (Some i) s s'"
proof -
  obtain b e where "kickReloadIfStale 0 (sys_ev s) = (b, e)" by fastforce
  with assms show "l = Kick r \<Longrightarrow> \<exists>s'. step w (Some i) s s'" by (cases b) (auto intro: step.kick step.kick_spawn)
  obtain r e where "ensureLoaded 0 (sys_ev s) = (r, e)" by fastforce
  with assms show "l = Ensure \<Longrightarrow> \<exists>s'. step w (Some i) s s'"
    by (cases r) (auto intro: step.ensure_go step.ensure_wait step.ensure_spawn step.ensure_load)
qed

lemma lookup_enabled:
  assumes "at s i l" "l = GetFirst \<or> l = GetAgain"
  shows "\<exists>s'. step w (Some i) s s'"
proof -
  obtain r c where "cacheGet 0 (mkKey s i) (ev_cache (sys_ev s)) = (r, c)" by fastforce
  with assms show ?thesis
    by (cases r) (auto intro: step.get_hit step.get_miss step.again_hit step.again_miss)
qed

lemma fetch_enabled:
  assumes "at s i Fetch" "total_world w"
  shows "\<exists>s'. step w (Some i) s s'"
proof -
  obtain data where d: "w_source w data" using assms(2) by (auto simp: total_world_def)
  show ?thesis
    using assms(1) d step.fetch_fail [OF assms(1) d] step.fetch_ok [OF assms(1) d]
    by (cases "loadPool w (sys_ev s) data") auto
qed

lemma call_enabled:
  assumes "at s i (Call p sl)" "total_world w"
  shows "\<exists>s'. step w (Some i) s s'"
proof -
  obtain out where out: "w_js w (slot_script sl) (th_url (sys_threads s ! i)) (th_host (sys_threads s ! i)) out"
    using assms(2) unfolding total_world_def by blast
  show ?thesis
    using assms(1) out step.call_err [OF assms(1)] step.call_ok [OF assms(1)] by (cases out) auto
qed

lemma put_enabled:
  assumes "at s i (PutResult p sl out)" "inv_cached w s"
  shows "\<exists>s'. step w (Some i) s s'"
  using rc.put_total [OF rc.coherent_inv, of "fresh w s" "ev_cache (sys_ev s)" 0 "mkKey s i" out
      "rp_gen (ev_pools (sys_ev s) ! p)"] assms step.put [OF assms(1)]
  unfolding inv_cached_def by blast

lemma enabled:
  assumes "at s i l" "\<not> final l" "\<not> may_block l" "ev_mu (sys_ev s) = None \<or> swapping l"
    and "total_world w" "inv_cached w s"
  shows "\<exists>s'. step w (Some i) s s'"
proof (cases l)
  case (SwapLock p t)
  then show ?thesis using assms step.swap_closed [of s i p t] step.swap_lock [of s i p t] by auto
next
  case LoadPool
  then show ?thesis using assms step.no_pool [of s i] step.got_pool [of s i]
    by (cases "ev_pool (sys_ev s)") auto
qed (use assms lookup_enabled sections_enabled fetch_enabled call_enabled put_enabled swapping_enabled
      step.finish step.give in \<open>fastforce simp del: One_nat_def\<close>)+

lemma progress:
  assumes "inv_ctl s" "inv_data w s" "inv_slots s" "total_world w" "at s i l" "\<not> final l"
  shows "\<exists>j s'. step w (Some j) s s'"
proof (cases "ev_mu (sys_ev s) = None")
  case False
  then have "0 < count swapping s" using assms(1) by (simp add: inv_ctl_def)
  then show ?thesis using count_ex swapping_enabled by blast
next
  case True
  have go: "\<exists>s'. step w (Some j) s s'" if "at s j m" "\<not> final m" "\<not> may_block m" for j m
    using enabled [OF that(1,2,3)] True assms(2,4) by (simp add: inv_data_def)
  show ?thesis
  proof (cases "may_block l")
    case False
    then show ?thesis using go assms(5,6) by blast
  next
    case block: True
    show ?thesis
    proof (cases l)
      case CondWait
      have "0 < count loading s"
        using assms(1) count_pos [OF assms(5), of waiting] CondWait by (simp add: inv_ctl_def)
      then obtain j m where "at s j m" "loading m" using count_ex by blast
      then show ?thesis using go [of j m] by (cases m) auto
    next
      case (TakeSlot p)
      have p: "p < length (ev_pools (sys_ev s))"
        using inv_thr_at [of w s i l] assms(2,5) TakeSlot by (simp add: inv_data_def inv_pools_def)
      show ?thesis
      proof (cases "rp_slots (ev_pools (sys_ev s) ! p)")
        case Nil
        then have "0 < count (holds_slot p) s"
          using assms(3) p effectivePoolSize_pos [of "ev_poolSize (sys_ev s)"] by (auto simp: inv_slots_def)
        then obtain j m where "at s j m" "holds_slot p m" using count_ex by blast
        then show ?thesis using go [of j m] by (cases m) auto
      next
        case (Cons sl rest)
        then show ?thesis using step.take assms(5) TakeSlot by blast
      qed
    qed (use block in auto)
  qed
qed

section \<open>Termination\<close>

text \<open>How many loads a goroutine may still cause (its own or one it starts in the background), and
  how far it is from its end.  Every step of a goroutine lowers the total in this order.\<close>

fun weight :: "pc \<Rightarrow> nat" where
  "weight GetFirst = 2"
| "weight (Kick r) = 2"
| "weight Ensure = 2"
| "weight CondWait = 2"
| "weight Fetch = 1"
| "weight (SwapLock p t) = 1"
| "weight (SwapGen p t) = 1"
| "weight (SwapStore p t) = 1"
| "weight (FinishLoad ok) = 1"
| "weight _ = 0"

fun rank :: "pc \<Rightarrow> nat" where
  "rank GetFirst = 3"
| "rank (Kick r) = 2"
| "rank Ensure = 2"
| "rank CondWait = 1"
| "rank Fetch = 5"
| "rank (SwapLock p t) = 4"
| "rank (SwapGen p t) = 3"
| "rank (SwapStore p t) = 2"
| "rank (FinishLoad ok) = 1"
| "rank GetAgain = 6"
| "rank LoadPool = 5"
| "rank (TakeSlot p) = 4"
| "rank (Call p sl) = 3"
| "rank (PutResult p sl r) = 2"
| "rank (GiveSlot p sl r) = 1"
| "rank (Returned r) = 0"
| "rank Exited = 0"

definition total :: "(pc \<Rightarrow> nat) \<Rightarrow> sys \<Rightarrow> nat" where
  "total f s = sum_list (map (\<lambda>g. f (th_pc g)) (sys_threads s))"

lemma sum_list_update_nat:
  fixes f :: "'a \<Rightarrow> nat"
  shows "i < length xs \<Longrightarrow> sum_list (map f (xs[i := x])) + f (xs ! i) = sum_list (map f xs) + f x"
proof (induction xs arbitrary: i)
  case (Cons a xs)
  then show ?case by (cases i) auto
qed simp

lemma total_goto: "at s i l \<Longrightarrow> total f (goto i l' s) + f l = total f s + f l'"
  using sum_list_update_nat [of i "sys_threads s" "\<lambda>g. f (th_pc g)" "(sys_threads s ! i)\<lparr>th_pc := l'\<rparr>"]
  by (simp add: at_def total_def goto_def)

lemma total_goto_eq: "at s i l \<Longrightarrow> total f (goto i l' s) = total f s + f l' - f l"
  using total_goto [of s i l f l'] by simp

lemma total_ge: "at s i l \<Longrightarrow> f l \<le> total f s"
  unfolding at_def total_def using member_le_sum_list [of "f l" "map (\<lambda>g. f (th_pc g)) (sys_threads s)"] by force

lemma total_frame [simp]:
  "total f (setEv e s) = total f s" "total f (setCache c s) = total f s"
  "total f (s\<lparr>sys_scripts := ts\<rparr>) = total f s" "total f (spawn g s) = total f s + f (th_pc g)"
  "total weight (broadcast s) = total weight s"
proof -
  have "weight (th_pc (wake g)) = weight (th_pc g)" for g by (simp add: wake_def)
  then show "total weight (broadcast s) = total weight s" by (simp add: total_def broadcast_def o_def)
qed (simp_all add: total_def setEv_def setCache_def spawn_def)

lemmas total_dests = total_ge [where f = weight] total_ge [where f = rank]

lemma step_decreases:
  "step w a s s' \<Longrightarrow> a \<noteq> None \<Longrightarrow>
     total weight s' < total weight s \<or> total weight s' = total weight s \<and> total rank s' < total rank s"
  by (induction rule: step.induct) (auto simp: total_goto_eq dest: total_dests)

lemma steps_wf: "wf {(s', s). \<exists>i. step w (Some i) s s'}"
proof (rule wf_subset)
  show "wf (inv_image (less_than <*lex*> less_than) (\<lambda>s. (total weight s, total rank s)))"
    by (intro wf_inv_image wf_lex_prod wf_less_than)
  show "{(s', s). \<exists>i. step w (Some i) s s'} \<subseteq>
      inv_image (less_than <*lex*> less_than) (\<lambda>s. (total weight s, total rank s))"
    using step_decreases [of w "Some _"] by auto
qed

section \<open>An executable scheduler\<close>

text \<open>One step of a given goroutine at a given time, when the outcomes of the script and of the
  source are functions; \<^const>\<open>None\<close> when the goroutine is done or blocked.  It is an instance
  of the step relation and makes concrete runs computable.\<close>

definition det_world :: "(string \<Rightarrow> string \<Rightarrow> string \<Rightarrow> string option) \<Rightarrow> string option \<Rightarrow> world" where
  "det_world js data = \<lparr>w_run = (\<lambda>_. True), w_utils = [], w_js = (\<lambda>t u h out. out = js t u h), w_source = (\<lambda>d. d = data)\<rparr>"

definition unlocked :: "sys \<Rightarrow> sys \<Rightarrow> sys option" where
  "unlocked s s' = (if ev_mu (sys_ev s) = None then Some s' else None)"

definition exec_step :: "(string \<Rightarrow> string \<Rightarrow> string \<Rightarrow> string option) \<Rightarrow> string option \<Rightarrow> int \<Rightarrow> nat \<Rightarrow> sys \<Rightarrow> sys option" where
  "exec_step js data now i s =
     (if length (sys_threads s) \<le> i then None
      else
        (let e = sys_ev s; g = sys_threads s ! i; key = mkKey s i
         in case th_pc g of
              GetFirst \<Rightarrow> (case cacheGet now key (ev_cache e) of
                  (Some r, c) \<Rightarrow> Some (goto i (Kick r) (setCache c s))
                | (None, c) \<Rightarrow> Some (goto i Ensure (setCache c s)))
            | Kick r \<Rightarrow> unlocked s (case kickReloadIfStale now e of
                  (False, e') \<Rightarrow> goto i (Returned r) (setEv e' s)
                | (True, e') \<Rightarrow> spawn bgReloader (goto i (Returned r) (setEv e' s)))
            | Ensure \<Rightarrow> unlocked s (case ensureLoaded now e of
                  (Proceed, e') \<Rightarrow> goto i GetAgain (setEv e' s)
                | (Wait, e') \<Rightarrow> goto i CondWait (setEv e' s)
                | (Spawn, e') \<Rightarrow> spawn bgReloader (goto i GetAgain (setEv e' s))
                | (LoadHere, e') \<Rightarrow> goto i Fetch (setEv e' s))
            | CondWait \<Rightarrow> None
            | Fetch \<Rightarrow> (case loadPool (det_world js data) e data of
                  None \<Rightarrow> Some (goto i (FinishLoad False) s)
                | Some (p, t) \<Rightarrow> Some (goto i (SwapLock p t) s))
            | SwapLock p t \<Rightarrow> unlocked s (if ev_closed e then goto i (FinishLoad True) s
                else goto i (SwapGen p t) (setEv (e\<lparr>ev_mu := Some i, ev_cache := invalidate (ev_cache e)\<rparr>) s))
            | SwapGen p t \<Rightarrow> Some (goto i (SwapStore (p\<lparr>rp_gen := generation (ev_cache e)\<rparr>) t) s)
            | SwapStore p t \<Rightarrow>
                Some (goto i (FinishLoad True) ((setEv (publish now p e) s)\<lparr>sys_scripts := sys_scripts s @ [t]\<rparr>))
            | FinishLoad ok \<Rightarrow> unlocked s
                (broadcast (goto i (if th_bg g then Exited else GetAgain) (setEv (finishLoad now (th_bg g) ok e) s)))
            | GetAgain \<Rightarrow> (case cacheGet now key (ev_cache e) of
                  (Some r, c) \<Rightarrow> Some (goto i (Returned r) (setCache c s))
                | (None, c) \<Rightarrow> Some (goto i LoadPool (setCache c s)))
            | LoadPool \<Rightarrow> (case ev_pool e of
                  None \<Rightarrow> Some (goto i (Returned ''DIRECT'') s)
                | Some p \<Rightarrow> Some (goto i (TakeSlot p) s))
            | TakeSlot p \<Rightarrow> (case rp_slots (ev_pools e ! p) of
                  [] \<Rightarrow> None
                | sl # rest \<Rightarrow> Some (goto i (Call p sl) (setEv (takeSlot p rest e) s)))
            | Call p sl \<Rightarrow> (case js (slot_script sl) (th_url g) (th_host g) of
                  None \<Rightarrow> Some (goto i (GiveSlot p sl ''DIRECT'') s)
                | Some raw \<Rightarrow> Some (goto i (PutResult p sl (normalizeProxyResult raw)) s))
            | PutResult p sl out \<Rightarrow> map_option (\<lambda>c. goto i (GiveSlot p sl out) (setCache c s))
                (putIfGen now key out (rp_gen (ev_pools e ! p)) (ev_cache e))
            | GiveSlot p sl r \<Rightarrow> Some (goto i (Returned r) (setEv (giveSlot p sl e) s))
            | Returned r \<Rightarrow> None
            | Exited \<Rightarrow> None))"

lemma exec_step_sound:
  assumes "exec_step js data now i s = Some s'"
  shows "step (det_world js data) (Some i) s s'"
proof -
  have at: "at s i (th_pc (sys_threads s ! i))" and i: "i < length (sys_threads s)"
    using assms by (auto simp: exec_step_def at_def split: if_splits)
  note eq = assms [unfolded exec_step_def Let_def unlocked_def]

  show ?thesis
  proof (cases "th_pc (sys_threads s ! i)")
    case (FinishLoad ok)
    then show ?thesis
      using i eq step.finish [OF at [unfolded FinishLoad] _ refl, of "det_world js data" now]
      by (simp split: if_splits)
  qed (use i eq at in \<open>auto simp: det_world_def split: if_splits option.splits prod.splits bool.splits
         ensure.splits list.splits intro!: step.intros\<close>)
qed

fun exec_run :: "(string \<Rightarrow> string \<Rightarrow> string \<Rightarrow> string option) \<Rightarrow> string option \<Rightarrow> int \<Rightarrow> nat list \<Rightarrow> sys \<Rightarrow> sys option" where
  "exec_run js data now [] s = Some s"
| "exec_run js data now (i # is) s =
     (case exec_step js data now i s of None \<Rightarrow> None | Some s' \<Rightarrow> exec_run js data now is s')"

lemma exec_run_reach:
  "reach (det_world js data) e0 s \<Longrightarrow> exec_run js data now is s = Some s' \<Longrightarrow> reach (det_world js data) e0 s'"
proof (induction "is" arbitrary: s)
  case (Cons i "is")
  then show ?case by (auto split: option.splits intro: reach.next_step exec_step_sound)
qed simp

definition oneCall :: "string \<Rightarrow> string \<Rightarrow> sys" where
  "oneCall u h = spawn \<lparr>th_url = u, th_host = h, th_bg = False, th_pc = GetFirst\<rparr>
     (initSys (newEvaluator ''wpad.dat'' [] 0))"

lemma oneCall_reach: "reach w (newEvaluator ''wpad.dat'' [] 0) (oneCall u h)"
  unfolding oneCall_def by (rule reach.next_step [OF reach.start step.request])

lemmas exec_defs = exec_step_def Let_def oneCall_def newEvaluator_def initSys_def spawn_def goto_def
  setCache_def setEv_def mkKey_def broadcast_def wake_def unlocked_def ensureLoaded_def loadedLocked_def
  loadPool_def det_world_def buildPool_def effectivePoolSize_def defaultPoolSize_def compile_def
  decodeText_def publish_def finishLoad_def takeSlot_def giveSlot_def
  newResultCache_def defaultCacheTTL_def defaultCacheCap_def cacheGet_def cacheKey_def invalidate_def
  generation_def putIfGen_def putLocked_def evict.simps moveToFront_def normalizeProxyResult_def

section \<open>Properties\<close>

text \<open>C7: whatever the interleaving of requests and reloads, a cached answer is the answer of the
  script that was published last, to this URL and host: a result computed by an older script
  is never served once a new one is in place.  The URLs hold no NUL byte (it separates the parts of
  the key) and fewer than \<open>2 ^ 64 - 1\<close> reloads have happened.\<close>

theorem cached_result_current:
  assumes "reach w (newEvaluator src enc ivl) s"
    and "fst (cacheGet now (cacheKey u h) (ev_cache (sys_ev s))) = Some r"
    and "length (sys_scripts s) + 1 < 2 ^ 64"
    and "CHR 0x00 \<notin> set u" "\<forall>g\<in>set (sys_threads s). CHR 0x00 \<notin> set (th_url g)"
  shows "ev_mu (sys_ev s) = None \<and> sys_scripts s \<noteq> [] \<and>
    (\<exists>raw. w_js w (last (sys_scripts s)) u h (Some raw) \<and> r = normalizeProxyResult raw)"
proof -
  have "inv_cached w s" using inv_data_reach [OF assms(1)] by (simp add: inv_data_def)
  then have "fresh w s (cacheKey u h) r"
    using cached_get(3) [of w s now "cacheKey u h"] assms(2) by (metis prod.collapse)
  then have f: "ev_mu (sys_ev s) = None" "sys_scripts s \<noteq> []" "computed w {last (sys_scripts s)} (calls s) (cacheKey u h) r"
    using assms(3) by (simp_all add: fresh_def)
  from f(3) obtain u' h' raw where c: "(u', h') \<in> calls s" "cacheKey u' h' = cacheKey u h"
    "w_js w (last (sys_scripts s)) u' h' (Some raw)" "r = normalizeProxyResult raw"
    by (auto simp: computed_def)
  have "CHR 0x00 \<notin> set u'" using c(1) assms(5) by (auto simp: calls_def)
  then have "u' = u \<and> h' = h" using cacheKey_inject c(2) assms(4) by blast
  then have "w_js w (last (sys_scripts s)) u h (Some raw)" using c(3) by simp
  then show ?thesis using f(1,2) c(4) by blast
qed

theorem cached_result_current_witness:
  "\<exists>s raw. reach (det_world (\<lambda>t u h. Some ''PROXY p:1; DIRECT'') (Some ''s'')) (newEvaluator ''wpad.dat'' [] 0) s \<and>
     w_js (det_world (\<lambda>t u h. Some ''PROXY p:1; DIRECT'') (Some ''s'')) (last (sys_scripts s)) ''http://a/'' ''a'' (Some raw) \<and>
     ''p:1,DIRECT'' = normalizeProxyResult raw"
proof -
  let ?w = "det_world (\<lambda>t u h. Some ''PROXY p:1; DIRECT'') (Some ''s'')"
  have "\<exists>s. exec_run (\<lambda>t u h. Some ''PROXY p:1; DIRECT'') (Some ''s'') 5 (replicate 13 0)
      (oneCall ''http://a/'' ''a'') = Some s \<and>
    fst (cacheGet 6 (cacheKey ''http://a/'' ''a'') (ev_cache (sys_ev s))) = Some ''p:1,DIRECT'' \<and>
    length (sys_scripts s) = 1 \<and> (\<forall>g\<in>set (sys_threads s). CHR 0x00 \<notin> set (th_url g))"
    by (simp add: exec_defs go_simps numeral_eq_Suc)
  then obtain s where s: "exec_run (\<lambda>t u h. Some ''PROXY p:1; DIRECT'') (Some ''s'') 5 (replicate 13 0)
      (oneCall ''http://a/'' ''a'') = Some s"
    "fst (cacheGet 6 (cacheKey ''http://a/'' ''a'') (ev_cache (sys_ev s))) = Some ''p:1,DIRECT''"
    "length (sys_scripts s) = 1" "\<forall>g\<in>set (sys_threads s). CHR 0x00 \<notin> set (th_url g)"
    by (elim exE conjE)
  have r: "reach ?w (newEvaluator ''wpad.dat'' [] 0) s" by (rule exec_run_reach [OF oneCall_reach s(1)])
  have "length (sys_scripts s) + 1 < 2 ^ 64" "CHR 0x00 \<notin> set ''http://a/''" using s(3) by simp_all
  from cached_result_current [OF r s(2) this s(4)] r show ?thesis by (elim conjE exE) blast
qed

text \<open>Every result a call returns is \<^verbatim>\<open>DIRECT\<close> or the normalised answer of a published script to the URL and host of that call.\<close>

lemma returned_computed:
  assumes "reach w (newEvaluator src enc ivl) s" "at s i (Returned r)"
    and "\<forall>g\<in>set (sys_threads s). CHR 0x00 \<notin> set (th_url g)"
  shows "r = ''DIRECT'' \<or> (\<exists>t\<in>set (sys_scripts s). \<exists>raw.
    w_js w t (th_url (sys_threads s ! i)) (th_host (sys_threads s ! i)) (Some raw) \<and> r = normalizeProxyResult raw)"
proof (cases "r = ''DIRECT''")
  case False
  have "inv_thr w s" using inv_data_reach [OF assms(1)] by (simp add: inv_data_def)
  from inv_thr_at [OF this assms(2)] False
  have "computed w (set (sys_scripts s)) (calls s) (mkKey s i) r" by (simp add: answer_def mkKey_def)
  then obtain t u h raw where c: "t \<in> set (sys_scripts s)" "(u, h) \<in> calls s" "cacheKey u h = mkKey s i"
    "w_js w t u h (Some raw)" "r = normalizeProxyResult raw"
    by (auto simp: computed_def)
  have "CHR 0x00 \<notin> set u" "CHR 0x00 \<notin> set (th_url (sys_threads s ! i))"
    using c(2) assms(2,3) by (auto simp: calls_def at_def)
  then have "u = th_url (sys_threads s ! i) \<and> h = th_host (sys_threads s ! i)"
    using cacheKey_inject c(3) unfolding mkKey_def by blast
  with c show ?thesis by blast
qed simp

section \<open>Why a call returns DIRECT\<close>

text \<open>A call returns something other than a script's answer only for a reason: a published script fails on it, a load of the
  source had failed before any script was published, or the evaluator was closed.\<close>

definition leads :: "world \<Rightarrow> sys \<Rightarrow> sys \<Rightarrow> bool" where
  "leads w = (\<lambda>s s'. \<exists>a. step w a s s')\<^sup>*\<^sup>*"

text \<open>A load of the source has failed on the way to a state.\<close>

definition loadFailed :: "world \<Rightarrow> evaluator \<Rightarrow> sys \<Rightarrow> bool" where
  "loadFailed w e0 s \<longleftrightarrow> (\<exists>s1 i data. reach w e0 s1 \<and> at s1 i Fetch \<and> w_source w data \<and> loadPool w (sys_ev s1) data = None \<and>
     leads w (goto i (FinishLoad False) s1) s)"

text \<open>On the way to a state there was a moment when a call for the URL and host had been made, a load had failed and no script had
  been published yet.\<close>

definition unloaded :: "world \<Rightarrow> evaluator \<Rightarrow> sys \<Rightarrow> string \<Rightarrow> string \<Rightarrow> bool" where
  "unloaded w e0 s u h \<longleftrightarrow> (\<exists>s1. reach w e0 s1 \<and> leads w s1 s \<and> loadFailed w e0 s1 \<and> sys_scripts s1 = [] \<and> (u, h) \<in> calls s1)"

definition excused :: "world \<Rightarrow> evaluator \<Rightarrow> sys \<Rightarrow> string \<Rightarrow> string \<Rightarrow> bool" where
  "excused w e0 s u h \<longleftrightarrow> (\<exists>t\<in>set (sys_scripts s). w_js w t u h None) \<or> unloaded w e0 s u h \<or> ev_closed (sys_ev s)"

lemma leads_step: "step w a s s' \<Longrightarrow> leads w s s'"
  unfolding leads_def by (rule r_into_rtranclp) blast

lemma loadFailed_leads: "loadFailed w e0 s \<Longrightarrow> leads w s s' \<Longrightarrow> loadFailed w e0 s'"
  unfolding loadFailed_def leads_def by (meson rtranclp_trans)

lemma unloaded_leads: "unloaded w e0 s u h \<Longrightarrow> leads w s s' \<Longrightarrow> unloaded w e0 s' u h"
  unfolding unloaded_def leads_def by (meson rtranclp_trans)

lemma no_pool_no_script: "reach w (newEvaluator src enc ivl) s \<Longrightarrow> ev_pool (sys_ev s) = None \<Longrightarrow> ev_closed (sys_ev s) \<or> sys_scripts s = []"
proof (induction rule: reach.induct)
  case (next_step s a s')
  from next_step(2,3,4) show ?case
    by (induction rule: step.induct) (auto simp: section_defs split: if_splits)
qed (simp add: initSys_def)

fun why :: "world \<Rightarrow> evaluator \<Rightarrow> sys \<Rightarrow> string \<Rightarrow> string \<Rightarrow> pc \<Rightarrow> bool" where
  "why w e0 s u h (Kick r) = (computed w (set (sys_scripts s)) (calls s) (cacheKey u h) r \<or> r = ''DIRECT'' \<and> excused w e0 s u h)"
| "why w e0 s u h (Returned r) = (computed w (set (sys_scripts s)) (calls s) (cacheKey u h) r \<or> r = ''DIRECT'' \<and> excused w e0 s u h)"
| "why w e0 s u h (GiveSlot p sl r) = (computed w (set (sys_scripts s)) (calls s) (cacheKey u h) r \<or> r = ''DIRECT'' \<and> excused w e0 s u h)"
| "why w e0 s u h GetAgain = (ev_pool (sys_ev s) \<noteq> None \<or> loadFailed w e0 s \<or> ev_closed (sys_ev s))"
| "why w e0 s u h LoadPool = (ev_pool (sys_ev s) \<noteq> None \<or> loadFailed w e0 s \<or> ev_closed (sys_ev s))"
| "why w e0 s u h (FinishLoad ok) = (ev_pool (sys_ev s) \<noteq> None \<or> loadFailed w e0 s \<or> ev_closed (sys_ev s))"
| "why w e0 s u h _ = True"

definition inv_why :: "world \<Rightarrow> evaluator \<Rightarrow> sys \<Rightarrow> bool" where
  "inv_why w e0 s \<longleftrightarrow> (\<forall>g\<in>set (sys_threads s). why w e0 s (th_url g) (th_host g) (th_pc g))"

text \<open>What a step never takes back.\<close>

definition later :: "world \<Rightarrow> sys \<Rightarrow> sys \<Rightarrow> bool" where
  "later w s s' \<longleftrightarrow> leads w s s' \<and> set (sys_scripts s) \<subseteq> set (sys_scripts s') \<and> calls s \<subseteq> calls s' \<and>
     (ev_closed (sys_ev s) \<longrightarrow> ev_closed (sys_ev s')) \<and>
     (ev_pool (sys_ev s) \<noteq> None \<longrightarrow> ev_pool (sys_ev s') \<noteq> None \<or> ev_closed (sys_ev s'))"

lemma step_encoding: "step w a s s' \<Longrightarrow> ev_encoding (sys_ev s') = ev_encoding (sys_ev s)"
  by (induction rule: step.induct)
    (auto simp: section_defs finishLoad_def takeSlot_def giveSlot_def publish_def Let_def split: if_splits)

lemma step_later: "step w a s s' \<Longrightarrow> later w s s'"
  unfolding later_def
proof (intro conjI)
  assume st: "step w a s s'"
  show "leads w s s'" using leads_step [OF st] .
  show "set (sys_scripts s) \<subseteq> set (sys_scripts s')" using st by (induction rule: step.induct) auto
  show "calls s \<subseteq> calls s'" using st by (induction rule: step.induct) (auto simp: calls_goto)
  show "ev_closed (sys_ev s) \<longrightarrow> ev_closed (sys_ev s')"
    using st by (induction rule: step.induct) (auto simp: section_defs split: if_splits)
  show "ev_pool (sys_ev s) \<noteq> None \<longrightarrow> ev_pool (sys_ev s') \<noteq> None \<or> ev_closed (sys_ev s')"
    using st by (induction rule: step.induct) (auto simp: section_defs split: if_splits)
qed

lemma excused_later: "excused w e0 s u h \<Longrightarrow> later w s s' \<Longrightarrow> excused w e0 s' u h"
  using unloaded_leads [of w e0 s u h s'] by (auto simp: excused_def later_def)

lemma why_later: "why w e0 s u h l \<Longrightarrow> later w s s' \<Longrightarrow> why w e0 s' u h l"
  using loadFailed_leads [of w e0 s s'] excused_later [of w e0 s u h s']
    computed_mono [of w "set (sys_scripts s)" "calls s" "cacheKey u h" _ "set (sys_scripts s')" "calls s'"]
  by (cases "(w, e0, s, u, h, l)" rule: why.cases) (auto simp: later_def)

lemma inv_why_move:
  assumes "inv_why w e0 s" "later w s s'"
    and "\<forall>g'\<in>set (sys_threads s'). g' \<in> set (sys_threads s) \<or> why w e0 s' (th_url g') (th_host g') (th_pc g')"
  shows "inv_why w e0 s'"
  using assms why_later by (fastforce simp: inv_why_def)

lemma why_at: "inv_why w e0 s \<Longrightarrow> at s i l \<Longrightarrow> why w e0 s (th_url (sys_threads s ! i)) (th_host (sys_threads s ! i)) l"
  by (force simp: inv_why_def at_def)

text \<open>The goroutines a step leaves alone, and the one it moves.\<close>

definition moved :: "world \<Rightarrow> evaluator \<Rightarrow> sys \<Rightarrow> sys \<Rightarrow> goroutine list \<Rightarrow> bool" where
  "moved w e0 s s' gs \<longleftrightarrow> (\<forall>g\<in>set gs. g \<in> set (sys_threads s) \<or> why w e0 s' (th_url g) (th_host g) (th_pc g))"

lemma moved_goto:
  assumes "sys_threads s0 = sys_threads s" "why w e0 s' (th_url (sys_threads s ! i)) (th_host (sys_threads s ! i)) l"
  shows "moved w e0 s s' (sys_threads (goto i l s0))"
  using assms set_update_subset_insert [of "sys_threads s" i "(sys_threads s ! i)\<lparr>th_pc := l\<rparr>"]
  by (fastforce simp: moved_def goto_def)

lemma moved_spawn:
  "moved w e0 s s' (sys_threads x) \<Longrightarrow> why w e0 s' (th_url g) (th_host g) (th_pc g) \<Longrightarrow> moved w e0 s s' (sys_threads (spawn g x))"
  by (auto simp: moved_def spawn_def)

lemma moved_broadcast: "moved w e0 s s' (sys_threads x) \<Longrightarrow> moved w e0 s s' (sys_threads (broadcast x))"
  by (auto simp: moved_def broadcast_def wake_def)

lemma moved_self: "moved w e0 s s' (sys_threads s)" "moved w e0 s s' (sys_threads (setEv e s))"
  by (simp_all add: moved_def)

lemma hit_computed:
  assumes "inv_data w s" "cacheGet now (mkKey s i) (ev_cache (sys_ev s)) = (Some r, c)"
  shows "computed w (set (sys_scripts s)) (calls s) (cacheKey (th_url (sys_threads s ! i)) (th_host (sys_threads s ! i))) r"
  using cached_get(3) [of w s now "mkKey s i" "Some r" c r] assms by (simp add: inv_data_def fresh_def mkKey_def)

lemma why_carries:
  assumes "inv_why w e0 s" "at s i l" "step w a s s'" "\<And>x u h. why w e0 x u h l \<Longrightarrow> why w e0 x u h l'"
  shows "why w e0 s' (th_url (sys_threads s ! i)) (th_host (sys_threads s ! i)) l'"
  using assms why_at why_later step_later by blast

lemma step_moved:
  assumes "step w a s s'" "inv_data w s" "inv_why w e0 s" "reach w e0 s" "e0 = newEvaluator src enc ivl"
  shows "moved w e0 s s' (sys_threads s')"
  using assms
proof (induction rule: step.induct)
  case (kick s i r now e)
  show ?case by (intro moved_goto why_carries [OF kick(5,1) step.kick [OF kick(1-3)]]) simp_all
next
  case (kick_spawn s i r now e)
  show ?case
    by (intro moved_spawn moved_goto why_carries [OF kick_spawn(5,1) step.kick_spawn [OF kick_spawn(1-3)]]) simp_all
next
  case (give s i p sl r)
  show ?case by (intro moved_goto why_carries [OF give(3,1) step.give [OF give(1)]]) simp_all
next
  case (no_pool s i)
  note st = step.no_pool [OF no_pool(1,2)]
  have "excused w e0 (goto i (Returned ''DIRECT'') s) (th_url (sys_threads s ! i)) (th_host (sys_threads s ! i))"
  proof (cases "ev_closed (sys_ev s)")
    case False
    then have "loadFailed w e0 s" "sys_scripts s = []"
      using why_at [OF no_pool(4,1)] no_pool_no_script [OF no_pool(5) [unfolded no_pool(6)] no_pool(2)] no_pool(2) by auto
    then show ?thesis
      using no_pool(1,5) leads_step [OF st] calls_at [of s i] by (auto simp: excused_def unloaded_def)
  qed (simp add: excused_def)
  then show ?case by (intro moved_goto) simp_all
next
  case (again_miss s i now c)
  show ?case by (intro moved_goto why_carries [OF again_miss(4,1) step.again_miss [OF again_miss(1,2)]]) simp_all
next
  case (get_hit s i now r c)
  then show ?case using hit_computed by (intro moved_goto) (simp_all add: calls_goto)
next
  case (again_hit s i now r c)
  then show ?case using hit_computed by (intro moved_goto) (simp_all add: calls_goto)
next
  case (fetch_fail s i data)
  then have "loadFailed w e0 (goto i (FinishLoad False) s)" unfolding loadFailed_def leads_def by blast
  then show ?case by (intro moved_goto) simp_all
next
  case (finish s i ok bg now)
  show ?case by (intro moved_broadcast moved_goto why_carries [OF finish(5,1) step.finish [OF finish(1-3)]]) auto
next
  case (call_err s i p sl)
  then show ?case using inv_thr_at [of w s i "Call p sl"]
    by (intro moved_goto) (auto simp: inv_data_def excused_def)
next
  case (put s i p sl out now c)
  then show ?case
    using inv_thr_at [of w s i "PutResult p sl out"] calls_at [of s i]
      computed_mono [of w "{sys_scripts s ! p}" _ _ out "set (sys_scripts s)" "calls s"]
    by (intro moved_goto) (auto simp: inv_data_def calls_goto)
qed (use why_at [of w] in \<open>auto simp: calls_goto section_defs loadedLocked_def excused_def bgReloader_def
       intro!: moved_goto moved_spawn moved_broadcast moved_self split: if_splits\<close>)

lemma inv_why_step:
  assumes "step w a s s'" "inv_data w s" "inv_why w e0 s" "reach w e0 s" "e0 = newEvaluator src enc ivl"
  shows "inv_why w e0 s'"
  using inv_why_move [OF assms(3) step_later [OF assms(1)]] step_moved [OF assms] by (simp add: moved_def)

lemma inv_why_reach: "reach w (newEvaluator src enc ivl) s \<Longrightarrow> inv_why w (newEvaluator src enc ivl) s"
proof (induction rule: reach.induct)
  case start
  then show ?case by (simp add: inv_why_def initSys_def)
next
  case (next_step s a s')
  then show ?case using inv_why_step inv_data_reach by blast
qed

text \<open>The outcome of a finished call, with its reason.\<close>

lemma returned_why:
  assumes "reach w (newEvaluator src enc ivl) s" "at s i (Returned r)"
    and "\<forall>g\<in>set (sys_threads s). CHR 0x00 \<notin> set (th_url g)"
    and "u = th_url (sys_threads s ! i)" "h = th_host (sys_threads s ! i)"
  shows "(\<exists>t\<in>set (sys_scripts s). \<exists>raw. w_js w t u h (Some raw) \<and> r = normalizeProxyResult raw) \<or>
    r = ''DIRECT'' \<and> excused w (newEvaluator src enc ivl) s u h"
proof (cases "computed w (set (sys_scripts s)) (calls s) (cacheKey u h) r")
  case True
  then obtain t u' h' raw where c: "t \<in> set (sys_scripts s)" "(u', h') \<in> calls s" "cacheKey u' h' = cacheKey u h"
    "w_js w t u' h' (Some raw)" "r = normalizeProxyResult raw"
    by (auto simp: computed_def)
  have "CHR 0x00 \<notin> set u'" "CHR 0x00 \<notin> set u"
    using c(2) assms(2,3,4) by (auto simp: calls_def at_def)
  then have "u' = u \<and> h' = h" using cacheKey_inject c(3) by blast
  with c show ?thesis by blast
next
  case False
  then show ?thesis using why_at [OF inv_why_reach [OF assms(1)] assms(2)] assms(4,5) by simp
qed

text \<open>C27: the PAC source is loaded by at most one goroutine at a time, exactly while \<^verbatim>\<open>reloading\<close> is
  set, and no wake-up is lost: a goroutine waits on \<^verbatim>\<open>loadWait\<close> only while such a loader, which
  will broadcast, exists and the evaluator is open.\<close>

theorem single_flight_reload:
  assumes "reach w (newEvaluator src enc ivl) s"
  shows "count loading s = (if ev_reloading (sys_ev s) then 1 else 0) \<and>
    (0 < count waiting s \<longrightarrow> count loading s = 1 \<and> \<not> ev_closed (sys_ev s))"
  using inv_ctl_reach [OF assms] by (auto simp: inv_ctl_def)

theorem single_flight_reload_witness:
  "\<exists>s. count loading s = (if ev_reloading (sys_ev s) then 1 else 0) \<and> ev_reloading (sys_ev s)"
proof -
  obtain s where s: "exec_run (\<lambda>t u h. None) (Some ''s'') 5 [0, 0] (oneCall ''http://a/'' ''a'') = Some s"
    "ev_reloading (sys_ev s)"
    by (simp add: exec_defs)
  from single_flight_reload [OF exec_run_reach [OF oneCall_reach s(1)]] s(2)
  show ?thesis by blast
qed

text \<open>C28: every call returns.  From any reachable state the goroutines can take only finitely many
  steps, under any scheduler, and as long as one of them is not done some goroutine can take
  a step: there is no deadlock on the mutex, the condition variable or the slots.  The script
  engine and the source are assumed to return.\<close>

theorem calls_return:
  assumes "reach w (newEvaluator src enc ivl) s" "total_world w"
  shows "wf {(s', s). \<exists>i. step w (Some i) s s'} \<and>
    (\<forall>i l. at s i l \<and> \<not> final l \<longrightarrow> (\<exists>j s'. step w (Some j) s s'))"
  using steps_wf progress [OF inv_ctl_reach [OF assms(1)] inv_data_reach [OF assms(1)]
      inv_slots_reach [OF assms(1)] assms(2)] by blast

theorem calls_return_witness:
  "\<exists>j s'. step (det_world (\<lambda>t u h. None) None) (Some j) (oneCall ''http://a/'' ''a'') s'"
proof -
  have "total_world (det_world (\<lambda>t u h. None) None)" by (simp add: total_world_def det_world_def)
  moreover have "at (oneCall ''http://a/'' ''a'') 0 GetFirst"
    by (simp add: oneCall_def at_def spawn_def initSys_def)
  ultimately show ?thesis
    using calls_return [OF oneCall_reach, THEN conjunct2, rule_format, of "det_world (\<lambda>t u h. None) None"
        "''http://a/''" "''a''" 0 GetFirst]
    by simp
qed

text \<open>C29: \<^verbatim>\<open>Close\<close> is final: once closed, no step opens the evaluator again, publishes a pool, makes the pool
  pointer point anywhere or starts a reload (the number of loading goroutines and the \<^verbatim>\<open>reloading\<close> flag only go
  down), even when a load was under way, and no goroutine waits for one.\<close>

theorem closed_is_final:
  assumes "reach w (newEvaluator src enc ivl) s" "ev_closed (sys_ev s)" "step w a s s'"
  shows "ev_closed (sys_ev s') \<and> ev_pool (sys_ev s') = None \<and> length (ev_pools (sys_ev s')) = length (ev_pools (sys_ev s)) \<and>
    count loading s' \<le> count loading s \<and> (ev_reloading (sys_ev s') \<longrightarrow> ev_reloading (sys_ev s)) \<and> count waiting s' = 0"
proof -
  have c: "inv_ctl s" by (rule inv_ctl_reach [OF assms(1)])
  have "ev_closed (sys_ev s') \<and> length (ev_pools (sys_ev s')) = length (ev_pools (sys_ev s))"
    using assms(3,2) c
  proof (induction rule: step.induct)
    case (swap_store s i p t now)
    then show ?case using closed_not_swapping [of s i "SwapStore p t"] by simp
  qed (auto simp: section_defs finishLoad_def takeSlot_def giveSlot_def split: if_splits)
  moreover have "inv_ctl s'" by (rule inv_ctl_step [OF assms(3) c])
  moreover have "ev_reloading (sys_ev s') \<longrightarrow> ev_reloading (sys_ev s)"
    using assms(3,2)
    by (induction rule: step.induct) (auto simp: section_defs split: if_splits)
  ultimately show ?thesis using c by (simp add: inv_ctl_def split: if_splits)
qed

theorem closed_is_final_witness:
  "let s = broadcast (setEv (closeEvaluator (sys_ev (oneCall ''http://a/'' ''a''))) (oneCall ''http://a/'' ''a''))
   in ev_closed (sys_ev (broadcast (setEv (closeEvaluator (sys_ev s)) s))) \<and>
      ev_pool (sys_ev (broadcast (setEv (closeEvaluator (sys_ev s)) s))) = None"
proof -
  let ?init = "oneCall ''http://a/'' ''a''"
  let ?s = "broadcast (setEv (closeEvaluator (sys_ev ?init)) ?init)"
  have mu: "ev_mu (sys_ev ?init) = None" "ev_mu (sys_ev ?s) = None"
    by (simp_all add: oneCall_def initSys_def newEvaluator_def closeEvaluator_def)
  have "reach (det_world (\<lambda>t u h. None) None) (newEvaluator ''wpad.dat'' [] 0) ?s"
    by (rule reach.next_step [OF oneCall_reach step.close [OF mu(1)]])
  moreover have "ev_closed (sys_ev ?s)" by (simp add: closeEvaluator_def)
  ultimately show ?thesis
    unfolding Let_def using closed_is_final [OF _ _ step.close [OF mu(2)]] by blast
qed

end
