(* ===== verification/Go_Base64.thy ===== *)
theory Go_Base64
  imports Go_Strings
begin

text \<open>
  The part of \<^verbatim>\<open>encoding/base64\<close> and \<^verbatim>\<open>encoding/hex\<close> the authentication code uses: \<^verbatim>\<open>StdEncoding\<close>
  with padding.  \<^verbatim>\<open>DecodeString\<close> skips carriage returns and newlines anywhere, accepts padding
  only at the end of the last quantum and ignores the unused bits of that quantum.
\<close>

section \<open>Definitions\<close>

text \<open>The alphabet \<^verbatim>\<open>A-Z\<close>, \<^verbatim>\<open>a-z\<close>, \<^verbatim>\<open>0-9\<close>, \<^verbatim>\<open>+\<close>, \<^verbatim>\<open>/\<close>, by the low six bits of a number.\<close>

definition b64char :: "nat \<Rightarrow> char" where
  "b64char n =
     (let m = n mod 64
      in char_of (if m < 26 then m + 65 else if m < 52 then m + 71 else if m < 62 then m - 4
                  else if m = 62 then 43 else 47))"

definition b64val :: "char \<Rightarrow> nat option" where
  "b64val c =
     (let b = of_char c :: nat
      in if 65 \<le> b \<and> b \<le> 90 then Some (b - 65)
         else if 97 \<le> b \<and> b \<le> 122 then Some (b - 71)
         else if 48 \<le> b \<and> b \<le> 57 then Some (b + 4)
         else if b = 43 then Some 62
         else if b = 47 then Some 63
         else None)"

fun b64encode :: "string \<Rightarrow> string" where
  "b64encode [] = []"
| "b64encode [a] =
     (let n = of_char a * 65536 :: nat
      in [b64char (n div 262144), b64char (n div 4096), CHR ''='', CHR ''=''])"
| "b64encode [a, b] =
     (let n = of_char a * 65536 + of_char b * 256 :: nat
      in [b64char (n div 262144), b64char (n div 4096), b64char (n div 64), CHR ''=''])"
| "b64encode (a # b # c # rest) =
     (let n = of_char a * 65536 + of_char b * 256 + of_char c :: nat
      in b64char (n div 262144) # b64char (n div 4096) # b64char (n div 64) # b64char n # b64encode rest)"

text \<open>The bytes of a quantum of four digits, most significant first.\<close>

definition b64bytes :: "nat \<Rightarrow> nat \<Rightarrow> nat \<Rightarrow> nat \<Rightarrow> string" where
  "b64bytes w x y z =
     (let n = w * 262144 + x * 4096 + y * 64 + z
      in [char_of (n div 65536), char_of (n div 256), char_of n])"

fun b64quanta :: "string \<Rightarrow> string option" where
  "b64quanta [] = Some []"
| "b64quanta (a # b # c # d # rest) =
     (case (b64val a, b64val b) of
        (Some w, Some x) \<Rightarrow>
          (case (b64val c, b64val d) of
             (Some y, Some z) \<Rightarrow> map_option (\<lambda>bs. b64bytes w x y z @ bs) (b64quanta rest)
           | (Some y, None) \<Rightarrow> if d = CHR ''='' \<and> rest = [] then Some (take 2 (b64bytes w x y 0)) else None
           | (None, _) \<Rightarrow>
               if c = CHR ''='' \<and> d = CHR ''='' \<and> rest = [] then Some (take 1 (b64bytes w x 0 0)) else None)
      | _ \<Rightarrow> None)"
| "b64quanta _ = None"

definition isNewline :: "char \<Rightarrow> bool" where
  "isNewline c \<longleftrightarrow> c = CHR 0x0A \<or> c = CHR 0x0D"

definition b64decode :: "string \<Rightarrow> string option" where
  "b64decode s = b64quanta (filter (\<lambda>c. \<not> isNewline c) s)"

definition hexEncode :: "string \<Rightarrow> string" where
  "hexEncode bs = concat (map (\<lambda>c. let b = of_char c :: nat in
     [''0123456789abcdef'' ! (b div 16), ''0123456789abcdef'' ! (b mod 16)]) bs)"

section \<open>Round trip\<close>

lemma of_char_less256 [simp]: "(of_char c :: nat) < 256"
  by (rule nat_of_char_less_256)

lemma of_char_char_of: "k < 256 \<Longrightarrow> (of_char (char_of k :: char) :: nat) = k"
  by (simp add: of_char_of)

lemma char_of_mod256: "(char_of (n mod 256) :: char) = char_of (n :: nat)"
  by (metis char_of_char of_char_of)

lemma b64val_char_of:
  "k < 256 \<Longrightarrow> b64val (char_of k) =
     (if 65 \<le> k \<and> k \<le> 90 then Some (k - 65) else if 97 \<le> k \<and> k \<le> 122 then Some (k - 71)
      else if 48 \<le> k \<and> k \<le> 57 then Some (k + 4) else if k = 43 then Some 62 else if k = 47 then Some 63 else None)"
  unfolding b64val_def by (simp only: of_char_char_of Let_def)

definition b64code :: "nat \<Rightarrow> nat" where
  "b64code m = (if m < 26 then m + 65 else if m < 52 then m + 71 else if m < 62 then m - 4
     else if m = 62 then 43 else 47)"

lemma b64char_code: "b64char n = char_of (b64code (n mod 64))"
  by (simp only: b64char_def b64code_def Let_def)

lemma b64code_less: "m < 64 \<Longrightarrow> b64code m < 256 \<and> b64code m \<noteq> 10 \<and> b64code m \<noteq> 13"
  by (auto simp: b64code_def)

lemma b64val_code: "m < 64 \<Longrightarrow> b64val (char_of (b64code m)) = Some m"
proof -
  assume m: "m < 64"
  consider "m < 26" | "26 \<le> m" "m < 52" | "52 \<le> m" "m < 62" | "m = 62" | "m = 63" using m by linarith
  then show ?thesis
  proof cases
    case 1
    then show ?thesis using b64val_char_of [of "m + 65"] by (simp add: b64code_def)
  next
    case 2
    then show ?thesis using b64val_char_of [of "m + 71"] by (simp add: b64code_def)
  next
    case 3
    define k where "k = m - 4"
    then have "m = k + 4" "48 \<le> k" "k < 58" using 3 by auto
    then show ?thesis using b64val_char_of [of k] by (simp add: b64code_def)
  next
    case 4
    then show ?thesis using b64val_char_of [of 43] by (simp add: b64code_def)
  next
    case 5
    then show ?thesis using b64val_char_of [of 47] by (simp add: b64code_def)
  qed
qed

lemma b64val_char [simp]: "b64val (b64char n) = Some (n mod 64)"
  unfolding b64char_code by (rule b64val_code) simp

lemma isNewline_char_of: "(k :: nat) < 256 \<Longrightarrow> isNewline (char_of k) \<longleftrightarrow> k = 10 \<or> k = 13"
proof -
  assume k: "k < 256"
  have "isNewline c \<longleftrightarrow> (of_char c :: nat) = of_char CHR 0x0A \<or> (of_char c :: nat) = of_char CHR 0x0D" for c
    unfolding isNewline_def of_char_eq_iff ..
  then show ?thesis unfolding of_char_char_of [OF k] by (simp add: of_char_char_of [OF k] del: of_char_of)
qed

lemma b64char_not_newline [simp]: "\<not> isNewline (b64char n)"
  using b64code_less [of "n mod 64"] isNewline_char_of [of "b64code (n mod 64)"]
  by (simp add: b64char_code)

lemma pad_not_newline [simp]: "\<not> isNewline CHR ''=''"
  by (simp add: isNewline_def)

lemma b64val_pad [simp]: "b64val CHR ''='' = None"
  by (simp add: b64val_def)

lemma digits64:
  fixes n :: nat
  assumes "n < 16777216"
  shows "n div 262144 mod 64 * 262144 + n div 4096 mod 64 * 4096 + n div 64 mod 64 * 64 + n mod 64 = n"
proof -
  let ?a = "n div 64" let ?b = "n div 64 div 64" let ?c = "n div 64 div 64 div 64"
  have d: "n div 4096 = ?b" "n div 262144 = ?c" by (simp_all add: div_mult2_eq [symmetric])
  have "?c mod 64 = ?c" using assms by (simp add: div_mult2_eq [symmetric])
  moreover have "?c * 64 + ?b mod 64 = ?b" "?b * 64 + ?a mod 64 = ?a" "?a * 64 + n mod 64 = n" by simp_all
  ultimately show ?thesis unfolding d by linarith
qed

lemma char_parts:
  fixes a b c :: nat
  assumes "a < 256" "b < 256" "c < 256"
  shows "(a * 65536 + b * 256 + c) div 65536 = a" "(a * 65536 + b * 256 + c) div 256 mod 256 = b"
    "(a * 65536 + b * 256 + c) mod 256 = c"
proof -
  have e: "a * 65536 + b * 256 + c = (a * 256 + b) * 256 + c" by simp
  have "((a * 256 + b) * 256 + c) div 65536 = ((a * 256 + b) * 256 + c) div 256 div 256"
    by (simp add: div_mult2_eq [symmetric])
  then show "(a * 65536 + b * 256 + c) div 65536 = a" "(a * 65536 + b * 256 + c) div 256 mod 256 = b"
    "(a * 65536 + b * 256 + c) mod 256 = c"
    unfolding e using assms by (simp_all only: div256) 
qed

lemma quantum_bytes:
  fixes a b c :: char
  defines "n \<equiv> of_char a * 65536 + of_char b * 256 + of_char c :: nat"
  shows "b64bytes (n div 262144 mod 64) (n div 4096 mod 64) (n div 64 mod 64) (n mod 64) = [a, b, c]"
proof -
  have lt: "(of_char a :: nat) < 256" "(of_char b :: nat) < 256" "(of_char c :: nat) < 256" by simp_all
  have "n < 16777216" unfolding n_def using lt by linarith
  moreover have "(char_of (n div 65536) :: char) = a" "(char_of (n div 256) :: char) = b" "(char_of n :: char) = c"
    using char_parts [OF lt] unfolding n_def by (metis char_of_mod256 char_of_char)+
  ultimately show ?thesis by (simp only: b64bytes_def Let_def digits64)
qed

lemma b64quanta_encode: "b64quanta (b64encode s) = Some s"
proof (induction s rule: b64encode.induct)
  case (2 a)
  have "of_char a * 65536 div 64 mod 64 = (0 :: nat)" "of_char a * 65536 mod 64 = (0 :: nat)" by simp_all
  then show ?case using quantum_bytes [of a "CHR 0x00" "CHR 0x00"] by (simp add: Let_def)
next
  case (3 a b)
  have "(of_char a * 65536 + of_char b * 256) mod 64 = (0 :: nat)" by (simp add: mod_add_eq [symmetric])
  then show ?case using quantum_bytes [of a b "CHR 0x00"] by (simp add: Let_def)
next
  case (4 a b c rest)
  then show ?case using quantum_bytes [of a b c] by (simp add: Let_def)
qed simp

lemma encode_no_newline: "filter (\<lambda>c. \<not> isNewline c) (b64encode s) = b64encode s"
  by (induction s rule: b64encode.induct) (simp_all add: Let_def)

lemma b64_roundtrip: "b64decode (b64encode s) = Some s"
  by (simp add: b64decode_def encode_no_newline b64quanta_encode)

end
