(* ===== verification/Go_Http.thy ===== *)
theory Go_Http
  imports Net_Addr Go_Base64
begin

text \<open>
  What the sources use of \<^verbatim>\<open>net/url\<close> and \<^verbatim>\<open>net/http\<close>: URLs with their parser and printer,
  header maps with canonical keys, and the request fields the proxy reads.  A header map is an
  association list with distinct keys; its order stands for Go's unspecified iteration order.
\<close>

section \<open>Escaping\<close>

datatype encoding = EncPath | EncHost | EncZone | EncUserPassword | EncFragment

definition isAlnum :: "char \<Rightarrow> bool" where
  "isAlnum c \<longleftrightarrow> (let n = of_char c :: nat in
     48 \<le> n \<and> n \<le> 57 \<or> 65 \<le> n \<and> n \<le> 90 \<or> 97 \<le> n \<and> n \<le> 122)"

definition shouldEscape :: "char \<Rightarrow> encoding \<Rightarrow> bool" where
  "shouldEscape c mode =
     (if isAlnum c then False
      else if (mode = EncHost \<or> mode = EncZone) \<and> c \<in> set ''!$&()*+,;=:[]<>'' \<union> {CHR 0x27, CHR 0x22} then False
      else if c \<in> set ''-_.~'' then False
      else if c \<in> set ''$&+,/:;=?@'' then
        (case mode of
           EncPath \<Rightarrow> c = CHR ''?''
         | EncUserPassword \<Rightarrow> c \<in> set ''@/?:''
         | EncFragment \<Rightarrow> False
         | EncHost \<Rightarrow> True
         | EncZone \<Rightarrow> True)
      else if mode = EncFragment \<and> c \<in> set ''!()*'' then False
      else True)"

definition upperHex :: "nat \<Rightarrow> char" where
  "upperHex n = (if n < 10 then char_of (48 + n) else char_of (55 + n))"

fun escape :: "encoding \<Rightarrow> string \<Rightarrow> string" where
  "escape mode [] = []"
| "escape mode (c # cs) =
     (if shouldEscape c mode
      then CHR ''%'' # upperHex (of_char c div 16) # upperHex (of_char c mod 16) # escape mode cs
      else c # escape mode cs)"

fun unescape :: "encoding \<Rightarrow> string \<Rightarrow> string option" where
  "unescape mode [] = Some []"
| "unescape mode (c # cs) =
     (if c = CHR ''%'' then
        (case cs of
           h # l # rest \<Rightarrow>
             (case (hexVal h, hexVal l) of
                (Some x, Some y) \<Rightarrow>
                  if mode = EncHost \<and> x < 8 \<and> \<not> (h = CHR ''2'' \<and> l = CHR ''5'') then None
                  else if mode = EncZone \<and> \<not> (h = CHR ''2'' \<and> l = CHR ''5'') \<and> 16 * x + y \<noteq> 32 \<and>
                    shouldEscape (char_of (16 * x + y)) EncHost then None
                  else map_option (Cons (char_of (16 * x + y))) (unescape mode rest)
              | _ \<Rightarrow> None)
         | _ \<Rightarrow> None)
      else if (mode = EncHost \<or> mode = EncZone) \<and> (of_char c :: nat) < 128 \<and> shouldEscape c mode then None
      else map_option (Cons c) (unescape mode cs))"

definition validEncoded :: "string \<Rightarrow> encoding \<Rightarrow> bool" where
  "validEncoded s mode = list_all (\<lambda>c. c \<in> set ''!$&()*+,;=:@[]%'' \<union> {CHR 0x27} \<or> \<not> shouldEscape c mode) s"

section \<open>URLs\<close>

record url =
  u_scheme :: string
  u_opaque :: string
  u_user :: "(string \<times> string option) option"
  u_host :: string
  u_path :: string
  u_rawPath :: string
  u_omitHost :: bool
  u_forceQuery :: bool
  u_rawQuery :: string

definition emptyURL :: url where
  "emptyURL = \<lparr>u_scheme = [], u_opaque = [], u_user = None, u_host = [], u_path = [], u_rawPath = [],
     u_omitHost = False, u_forceQuery = False, u_rawQuery = []\<rparr>"

text \<open>\<^verbatim>\<open>getScheme\<close>: the scheme and the rest, \<^const>\<open>None\<close> for a missing scheme before a colon.\<close>

fun schemeLen :: "nat \<Rightarrow> string \<Rightarrow> nat option" where
  "schemeLen i [] = Some 0"
| "schemeLen i (c # cs) =
     (let n = of_char c :: nat
      in if 65 \<le> n \<and> n \<le> 90 \<or> 97 \<le> n \<and> n \<le> 122 then schemeLen (Suc i) cs
         else if 48 \<le> n \<and> n \<le> 57 \<or> c \<in> set ''+-.'' then (if i = 0 then Some 0 else schemeLen (Suc i) cs)
         else if c = CHR '':'' then (if i = 0 then None else Some i)
         else Some 0)"

definition getScheme :: "string \<Rightarrow> (string \<times> string) option" where
  "getScheme s =
     (case schemeLen 0 s of
        None \<Rightarrow> None
      | Some 0 \<Rightarrow> Some ([], s)
      | Some (Suc n) \<Rightarrow> Some (take (Suc n) s, drop (Suc (Suc n)) s))"

definition validOptionalPort :: "string \<Rightarrow> bool" where
  "validOptionalPort port \<longleftrightarrow>
     (case port of [] \<Rightarrow> True | c # cs \<Rightarrow> c = CHR '':'' \<and> list_all (\<lambda>d. digitVal d \<noteq> None) cs)"

text \<open>\<^verbatim>\<open>parseHost\<close>; in a bracketed host the part from \<^verbatim>\<open>%25\<close> to the bracket is a zone.\<close>

fun splitZone :: "string \<Rightarrow> (string \<times> string) option" where
  "splitZone [] = None"
| "splitZone (c # cs) =
     (if hasPrefix (c # cs) ''%25'' then Some ([], c # cs)
      else map_option (\<lambda>(a, b). (c # a, b)) (splitZone cs))"

definition parseHost :: "string \<Rightarrow> string option" where
  "parseHost host =
     (if hasPrefix host ''['' then
        (case lastCut CHR '']'' host of
           None \<Rightarrow> None
         | Some (a, colonPort) \<Rightarrow>
             if \<not> validOptionalPort colonPort then None
             else
               (case splitZone a of
                  None \<Rightarrow> unescape EncHost host
                | Some (addr, zone) \<Rightarrow>
                    (case (unescape EncHost addr, unescape EncZone zone, unescape EncHost (CHR '']'' # colonPort)) of
                       (Some h1, Some h2, Some h3) \<Rightarrow> Some (h1 @ h2 @ h3)
                     | _ \<Rightarrow> None)))
      else
        (case lastCut CHR '':'' host of
           Some (a, port) \<Rightarrow> if validOptionalPort (CHR '':'' # port) then unescape EncHost host else None
         | None \<Rightarrow> unescape EncHost host))"

definition validUserinfo :: "string \<Rightarrow> bool" where
  "validUserinfo s = list_all (\<lambda>c. isAlnum c \<or> c \<in> set ''-._:~!$&()*+,;=%@'' \<union> {CHR 0x27}) s"

definition parseAuthority :: "string \<Rightarrow> ((string \<times> string option) option \<times> string) option" where
  "parseAuthority authority =
     (case lastCut CHR ''@'' authority of
        None \<Rightarrow> map_option (Pair None) (parseHost authority)
      | Some (userinfo, hostpart) \<Rightarrow>
          (case parseHost hostpart of
             None \<Rightarrow> None
           | Some host \<Rightarrow>
               if \<not> validUserinfo userinfo then None
               else
                 (case cutChar CHR '':'' userinfo of (u, p, ok) \<Rightarrow>
                    if \<not> ok then map_option (\<lambda>u'. (Some (u', None), host)) (unescape EncUserPassword userinfo)
                    else
                      (case (unescape EncUserPassword u, unescape EncUserPassword p) of
                         (Some u', Some p') \<Rightarrow> Some (Some (u', Some p'), host)
                       | _ \<Rightarrow> None))))"

definition setPath :: "string \<Rightarrow> url \<Rightarrow> url option" where
  "setPath p u =
     map_option (\<lambda>path. u\<lparr>u_path := path, u_rawPath := (if p = escape EncPath path then [] else p)\<rparr>)
       (unescape EncPath p)"

definition isCTL :: "char \<Rightarrow> bool" where
  "isCTL c \<longleftrightarrow> (of_char c :: nat) < 32 \<or> (of_char c :: nat) = 127"

text \<open>\<^verbatim>\<open>parse(rawURL, false)\<close> after the scheme: the query is cut off, the rest is an opaque part or an
  authority and a path.\<close>

definition parseRest :: "string \<Rightarrow> string \<Rightarrow> url option" where
  "parseRest scheme rest0 =
     (let u0 = emptyURL\<lparr>u_scheme := toLower scheme\<rparr>;
          force = (hasSuffix rest0 ''?'' \<and> count_list rest0 CHR ''?'' = 1);
          (rest, query) = (if force then (butlast rest0, []) else (case cutChar CHR ''?'' rest0 of (a, b, _) \<Rightarrow> (a, b)));
          u1 = u0\<lparr>u_forceQuery := force, u_rawQuery := query\<rparr>
      in if \<not> hasPrefix rest ''/'' \<and> scheme \<noteq> [] then Some (u1\<lparr>u_opaque := rest\<rparr>)
         else if \<not> hasPrefix rest ''/'' \<and> CHR '':'' \<in> set (fst (cutChar CHR ''/'' rest)) then None
         else if (scheme \<noteq> [] \<or> \<not> hasPrefix rest ''///'') \<and> hasPrefix rest ''//'' then
           (let auth_path = drop 2 rest;
                authority = takeWhile (\<lambda>c. c \<noteq> CHR ''/'') auth_path
            in case parseAuthority authority of
                 None \<Rightarrow> None
               | Some (user, host) \<Rightarrow>
                   setPath (drop (length authority) auth_path) (u1\<lparr>u_user := user, u_host := host\<rparr>))
         else if scheme \<noteq> [] \<and> hasPrefix rest ''/'' then setPath rest (u1\<lparr>u_omitHost := True\<rparr>)
         else setPath rest u1)"

definition urlParse :: "string \<Rightarrow> url option" where
  "urlParse raw =
     (case cutChar CHR ''#'' raw of (s, frag, _) \<Rightarrow>
        if list_ex isCTL s then None
        else if unescape EncFragment frag = None then None
        else if s = ''*'' then Some (emptyURL\<lparr>u_path := ''*''\<rparr>)
        else (case getScheme s of None \<Rightarrow> None | Some (scheme, rest) \<Rightarrow> parseRest scheme rest))"

definition isAbs :: "url \<Rightarrow> bool" where
  "isAbs u \<longleftrightarrow> u_scheme u \<noteq> []"

definition escapedPath :: "url \<Rightarrow> string" where
  "escapedPath u =
     (if u_rawPath u \<noteq> [] \<and> validEncoded (u_rawPath u) EncPath \<and> unescape EncPath (u_rawPath u) = Some (u_path u)
      then u_rawPath u
      else if u_path u = ''*'' then ''*''
      else escape EncPath (u_path u))"

definition querySuffix :: "url \<Rightarrow> string" where
  "querySuffix u = (if u_forceQuery u \<or> u_rawQuery u \<noteq> [] then CHR ''?'' # u_rawQuery u else [])"

definition userString :: "string \<times> string option \<Rightarrow> string" where
  "userString up = (case up of
      (u, None) \<Rightarrow> escape EncUserPassword u
    | (u, Some p) \<Rightarrow> escape EncUserPassword u @ '':'' @ escape EncUserPassword p)"

definition urlString :: "url \<Rightarrow> string" where
  "urlString u =
     (let s = (if u_scheme u \<noteq> [] then u_scheme u @ '':'' else [])
      in (if u_opaque u \<noteq> [] then s @ u_opaque u
          else
            (let auth = (if (u_scheme u \<noteq> [] \<or> u_host u \<noteq> [] \<or> u_user u \<noteq> None) \<and>
                            \<not> (u_omitHost u \<and> u_host u = [] \<and> u_user u = None)
                         then (if u_host u \<noteq> [] \<or> u_path u \<noteq> [] \<or> u_user u \<noteq> None then ''//'' else []) @
                              (case u_user u of None \<Rightarrow> [] | Some up \<Rightarrow> userString up @ ''@'') @
                              escape EncHost (u_host u)
                         else []);
                 path = escapedPath u;
                 slash = (if path \<noteq> [] \<and> \<not> hasPrefix path ''/'' \<and> u_host u \<noteq> [] then ''/'' else []);
                 dot = (if s @ auth @ slash = [] \<and> CHR '':'' \<in> set (fst (cutChar CHR ''/'' path)) then ''./'' else [])
             in s @ auth @ slash @ dot @ path)) @ querySuffix u)"

definition requestURIOf :: "url \<Rightarrow> string" where
  "requestURIOf u =
     (if u_opaque u = [] then (if escapedPath u = [] then ''/'' else escapedPath u)
      else if hasPrefix (u_opaque u) ''//'' then u_scheme u @ '':'' @ u_opaque u
      else u_opaque u) @ querySuffix u"

definition hostname :: "url \<Rightarrow> string" where
  "hostname u =
     (let host = (case lastCut CHR '':'' (u_host u) of
                    Some (h, port) \<Rightarrow> if validOptionalPort (CHR '':'' # port) then h else u_host u
                  | None \<Rightarrow> u_host u)
      in if hasPrefix host ''['' \<and> hasSuffix host '']'' then butlast (tl host) else host)"

section \<open>Headers\<close>

type_synonym header = "(string \<times> string list) list"

definition isToken :: "char \<Rightarrow> bool" where
  "isToken c \<longleftrightarrow> isAlnum c \<or> c \<in> set ''!#$%&*+-.^_`|~'' \<union> {CHR 0x27}"

fun canonLoop :: "bool \<Rightarrow> string \<Rightarrow> string" where
  "canonLoop up [] = []"
| "canonLoop up (c # cs) = (if up then upperChar c else lowerChar c) # canonLoop (c = CHR ''-'') cs"

definition canonicalKey :: "string \<Rightarrow> string" where
  "canonicalKey key = (if list_all isToken key then canonLoop True key else key)"

definition hdrValues :: "header \<Rightarrow> string \<Rightarrow> string list" where
  "hdrValues h key = (case map_of h (canonicalKey key) of None \<Rightarrow> [] | Some vs \<Rightarrow> vs)"

definition hdrGet :: "header \<Rightarrow> string \<Rightarrow> string" where
  "hdrGet h key = (case hdrValues h key of [] \<Rightarrow> [] | v # _ \<Rightarrow> v)"

definition hdrDel :: "header \<Rightarrow> string \<Rightarrow> header" where
  "hdrDel h key = filter (\<lambda>(k, _). k \<noteq> canonicalKey key) h"

fun alistUpdate :: "string \<Rightarrow> string list \<Rightarrow> header \<Rightarrow> header" where
  "alistUpdate k vs [] = [(k, vs)]"
| "alistUpdate k vs ((k', vs') # h) = (if k' = k then (k, vs) # h else (k', vs') # alistUpdate k vs h)"

definition hdrSet :: "header \<Rightarrow> string \<Rightarrow> string \<Rightarrow> header" where
  "hdrSet h key v = alistUpdate (canonicalKey key) [v] h"

definition hdrAdd :: "header \<Rightarrow> string \<Rightarrow> string \<Rightarrow> header" where
  "hdrAdd h key v = alistUpdate (canonicalKey key) (hdrValues h key @ [v]) h"

definition hdrOk :: "header \<Rightarrow> bool" where
  "hdrOk h \<longleftrightarrow> distinct (map fst h)"

section \<open>Requests and responses\<close>

record request =
  r_method :: string
  r_url :: url
  r_host :: string
  r_header :: header
  r_close :: bool
  r_tls :: bool
  r_remoteAddr :: string
  r_body :: string

record response =
  p_status :: int
  p_header :: header
  p_close :: bool
  p_body :: string

section \<open>Facts\<close>

lemma map_of_alistUpdate: "map_of (alistUpdate k vs h) k' = (if k' = k then Some vs else map_of h k')"
  by (induction h) auto

lemma keys_alistUpdate: "set (map fst (alistUpdate k vs h)) = insert k (set (map fst h))"
proof (induction h)
  case (Cons kv h)
  then show ?case by (cases kv) (simp only: alistUpdate.simps list.map prod.sel list.set split: if_split, blast)
qed simp

lemma hdrOk_alistUpdate: "hdrOk h \<Longrightarrow> hdrOk (alistUpdate k vs h)"
  unfolding hdrOk_def
proof (induction h)
  case (Cons kv h)
  then show ?case using keys_alistUpdate [of k vs h] by (cases kv) (auto simp del: set_map)
qed simp

lemma hdrOk_ops [inv_intros]:
  "hdrOk h \<Longrightarrow> hdrOk (hdrSet h k v)" "hdrOk h \<Longrightarrow> hdrOk (hdrAdd h k v)" "hdrOk h \<Longrightarrow> hdrOk (hdrDel h k)"
  by (simp_all add: hdrSet_def hdrAdd_def hdrDel_def hdrOk_alistUpdate)
    (simp add: hdrOk_def distinct_map_filter)

lemma hdrGet_set [simp]: "hdrGet (hdrSet h k v) k = v"
  by (simp add: hdrGet_def hdrValues_def hdrSet_def map_of_alistUpdate)

lemma map_of_hdrDel: "map_of (hdrDel h k) k' = (if k' = canonicalKey k then None else map_of h k')"
  by (induction h) (auto simp: hdrDel_def)

lemma hdrValues_set: "hdrValues (hdrSet h k v) k' = (if canonicalKey k' = canonicalKey k then [v] else hdrValues h k')"
  by (simp add: hdrValues_def hdrSet_def map_of_alistUpdate)

lemma hdrValues_add:
  "hdrValues (hdrAdd h k v) k' = (if canonicalKey k' = canonicalKey k then hdrValues h k @ [v] else hdrValues h k')"
  by (simp add: hdrValues_def hdrAdd_def map_of_alistUpdate)

lemma hdrValues_del: "hdrValues (hdrDel h k) k' = (if canonicalKey k' = canonicalKey k then [] else hdrValues h k')"
  by (simp add: hdrValues_def map_of_hdrDel)

end
