(* ===== verification/Go_Crypto.thy ===== *)
theory Go_Crypto
  imports Go_Base64
begin

text \<open>
  \<^verbatim>\<open>crypto/md5\<close> and \<^verbatim>\<open>crypto/sha256\<close> on byte strings, as digest authentication and the nonces use
  them.  The digests are total functions of the input; nothing is proved about collisions.
\<close>

section \<open>Blocks\<close>

definition byteWord :: "char \<Rightarrow> 32 word" where
  "byteWord c = of_nat (of_char c)"

definition wordByte :: "32 word \<Rightarrow> char" where
  "wordByte w = char_of (unat w mod 256)"

text \<open>The message followed by \<^verbatim>\<open>0x80\<close>, zeros up to 56 modulo 64, and its length in bits.\<close>

definition padLen :: "nat \<Rightarrow> nat" where
  "padLen n = (119 - n mod 64) mod 64"

definition lenBytes :: "nat \<Rightarrow> string" where
  "lenBytes n = map (\<lambda>i. char_of (8 * n div 256 ^ i mod 256)) [0..<8]"

definition padMessage :: "(string \<Rightarrow> string) \<Rightarrow> string \<Rightarrow> string" where
  "padMessage order s = s @ [CHR 0x80] @ replicate (padLen (length s)) CHR 0x00 @ order (lenBytes (length s))"

fun words32 :: "(string \<Rightarrow> string) \<Rightarrow> string \<Rightarrow> 32 word list" where
  "words32 order (a # b # c # d # rest) =
     foldl (\<lambda>w x. push_bit 8 w OR byteWord x) 0 (order [a, b, c, d]) # words32 order rest"
| "words32 order _ = []"

definition rotl :: "nat \<Rightarrow> 32 word \<Rightarrow> 32 word" where
  "rotl n w = push_bit n w OR drop_bit (32 - n) w"

definition wordBytes :: "32 word \<Rightarrow> string" where
  "wordBytes w = map (\<lambda>i. wordByte (drop_bit (8 * i) w)) [0..<4]"

fun blocksOf :: "nat \<Rightarrow> 'a list \<Rightarrow> 'a list list" where
  "blocksOf 0 ws = []"
| "blocksOf (Suc n) ws = take 16 ws # blocksOf n (drop 16 ws)"

section \<open>MD5\<close>

definition md5K :: "32 word list" where
  "md5K = [3614090360, 3905402710, 606105819, 3250441966, 4118548399, 1200080426, 2821735955, 4249261313,
      1770035416, 2336552879, 4294925233, 2304563134, 1804603682, 4254626195, 2792965006, 1236535329,
      4129170786, 3225465664, 643717713, 3921069994, 3593408605, 38016083, 3634488961, 3889429448,
      568446438, 3275163606, 4107603335, 1163531501, 2850285829, 4243563512, 1735328473, 2368359562,
      4294588738, 2272392833, 1839030562, 4259657740, 2763975236, 1272893353, 4139469664, 3200236656,
      681279174, 3936430074, 3572445317, 76029189, 3654602809, 3873151461, 530742520, 3299628645,
      4096336452, 1126891415, 2878612391, 4237533241, 1700485571, 2399980690, 4293915773, 2240044497,
      1873313359, 4264355552, 2734768916, 1309151649, 4149444226, 3174756917, 718787259, 3951481745]"

definition md5S :: "nat list" where
  "md5S = concat (replicate 4 [7, 12, 17, 22]) @ concat (replicate 4 [5, 9, 14, 20]) @
     concat (replicate 4 [4, 11, 16, 23]) @ concat (replicate 4 [6, 10, 15, 21])"

fun md5Round :: "32 word list \<Rightarrow> nat \<Rightarrow> 32 word \<times> 32 word \<times> 32 word \<times> 32 word \<Rightarrow>
    32 word \<times> 32 word \<times> 32 word \<times> 32 word" where
  "md5Round m i (a, b, c, d) =
     (let (f, g) = (if i < 16 then ((b AND c) OR (NOT b AND d), i)
                    else if i < 32 then ((d AND b) OR (NOT d AND c), (5 * i + 1) mod 16)
                    else if i < 48 then (b XOR c XOR d, (3 * i + 5) mod 16)
                    else (c XOR (b OR NOT d), (7 * i) mod 16))
      in (d, b + rotl (md5S ! i) (a + f + md5K ! i + m ! g), b, c))"

definition md5Block :: "32 word list \<Rightarrow> 32 word \<times> 32 word \<times> 32 word \<times> 32 word \<Rightarrow>
    32 word \<times> 32 word \<times> 32 word \<times> 32 word" where
  "md5Block m st =
     (case st of (a, b, c, d) \<Rightarrow>
        (case fold (md5Round m) [0..<64] st of (a', b', c', d') \<Rightarrow> (a + a', b + b', c + c', d + d')))"

definition md5Sum :: "string \<Rightarrow> string" where
  "md5Sum s =
     (let ws = words32 rev (padMessage id s)
      in case fold md5Block (blocksOf (length ws div 16) ws) (1732584193, 4023233417, 2562383102, 271733878) of
           (a, b, c, d) \<Rightarrow> wordBytes a @ wordBytes b @ wordBytes c @ wordBytes d)"

section \<open>SHA-256\<close>

definition rotr :: "nat \<Rightarrow> 32 word \<Rightarrow> 32 word" where
  "rotr n w = rotl (32 - n) w"

definition sha256K :: "32 word list" where
  "sha256K = [1116352408, 1899447441, 3049323471, 3921009573, 961987163, 1508970993, 2453635748, 2870763221,
      3624381080, 310598401, 607225278, 1426881987, 1925078388, 2162078206, 2614888103, 3248222580,
      3835390401, 4022224774, 264347078, 604807628, 770255983, 1249150122, 1555081692, 1996064986,
      2554220882, 2821834349, 2952996808, 3210313671, 3336571891, 3584528711, 113926993, 338241895,
      666307205, 773529912, 1294757372, 1396182291, 1695183700, 1986661051, 2177026350, 2456956037,
      2730485921, 2820302411, 3259730800, 3345764771, 3516065817, 3600352804, 4094571909, 275423344,
      430227734, 506948616, 659060556, 883997877, 958139571, 1322822218, 1537002063, 1747873779,
      1955562222, 2024104815, 2227730452, 2361852424, 2428436474, 2756734187, 3204031479, 3329325298]"

fun shaExtend :: "nat \<Rightarrow> 32 word list \<Rightarrow> 32 word list" where
  "shaExtend 0 ws = ws"
| "shaExtend (Suc n) ws =
     (let i = length ws;
          x = ws ! (i - 15); y = ws ! (i - 2);
          s0 = rotr 7 x XOR rotr 18 x XOR drop_bit 3 x;
          s1 = rotr 17 y XOR rotr 19 y XOR drop_bit 10 y
      in shaExtend n (ws @ [ws ! (i - 16) + s0 + ws ! (i - 7) + s1]))"

fun shaRound :: "32 word \<times> 32 word \<Rightarrow> 32 word list \<Rightarrow> 32 word list" where
  "shaRound (k, w) [a, b, c, d, e, f, g, h] =
     (let s1 = rotr 6 e XOR rotr 11 e XOR rotr 25 e;
          ch = (e AND f) XOR (NOT e AND g);
          t1 = h + s1 + ch + k + w;
          s0 = rotr 2 a XOR rotr 13 a XOR rotr 22 a;
          maj = (a AND b) XOR (a AND c) XOR (b AND c)
      in [t1 + s0 + maj, a, b, c, d + t1, e, f, g])"
| "shaRound _ st = st"

definition shaBlock :: "32 word list \<Rightarrow> 32 word list \<Rightarrow> 32 word list" where
  "shaBlock m st = map2 (+) st (fold shaRound (zip sha256K (shaExtend 48 m)) st)"

definition sha256Sum :: "string \<Rightarrow> string" where
  "sha256Sum s =
     (let ws = words32 id (padMessage rev s)
      in concat (map (rev \<circ> wordBytes) (fold shaBlock (blocksOf (length ws div 16) ws)
           [1779033703, 3144134277, 1013904242, 2773480762, 1359893119, 2600822924, 528734635, 1541459225])))"

end
