(* ===== verification/Auth.thy ===== *)
theory Auth
  imports Go_Http Go_Crypto
begin

text \<open>
  \<^verbatim>\<open>internal/auth\<close>: choice of an authentication scheme from a proxy's challenges and the sessions
  that produce the \<^verbatim>\<open>Proxy-Authorization\<close> values (\<^verbatim>\<open>auth.go\<close>, \<^verbatim>\<open>basic.go\<close>, \<^verbatim>\<open>digest.go\<close>,
  \<^verbatim>\<open>ntlm.go\<close>, \<^verbatim>\<open>negotiate.go\<close>, \<^verbatim>\<open>sspi_other.go\<close>).  The NTLM, Kerberos, SSPI and key-ring
  packages and the operating system are the fields of \<open>authEnv\<close>; \<open>'c\<close> is the state of an SSPI
  client.  The eight random bytes a digest token draws are an argument of \<open>token\<close>.
\<close>

section \<open>Choosing a scheme\<close>

record credentials =
  cr_username :: string
  cr_password :: string

definition excludeScheme :: "string list \<Rightarrow> string \<Rightarrow> string list" where
  "excludeScheme list exclude = filter (\<lambda>item. item \<noteq> exclude) list"

definition safeSchemes :: "string list" where
  "safeSchemes = [''NEGOTIATE'', ''NTLM'', ''DIGEST'']"

definition allSchemes :: "string list" where
  "allSchemes = [''NEGOTIATE'', ''NTLM'', ''DIGEST'', ''BASIC'']"

definition preferenceOrder :: "string \<Rightarrow> string list" where
  "preferenceOrder preference0 =
     (let preference = toUpper (trimSpace preference0)
      in if preference = [] \<or> preference = ''ANY'' then allSchemes
         else if preference = ''ANYSAFE'' then safeSchemes
         else if preference = ''NONE'' then []
         else if hasPrefix preference ''ONLY'' then [trimPrefix preference ''ONLY'']
         else if hasPrefix preference ''SAFE'' \<and> hasPrefix (trimPrefix preference ''SAFE'') ''NO'' then
           excludeScheme safeSchemes (trimPrefix (trimPrefix preference ''SAFE'') ''NO'')
         else if hasPrefix preference ''NO'' then excludeScheme allSchemes (trimPrefix preference ''NO'')
         else [preference])"

text \<open>One turn of the loop of \<^verbatim>\<open>parseChallenges\<close>.\<close>

definition parseChallenge :: "string \<Rightarrow> (string \<Rightarrow> string option) \<Rightarrow> (string \<Rightarrow> string option)" where
  "parseChallenge value out =
     (let trimmed = trimSpace value
      in if trimmed = [] then out
         else
           (case splitN2 CHR '' '' trimmed of
              [p0, p1] \<Rightarrow> out(toUpper (trimSpace p0) \<mapsto> trimSpace p1)
            | p0 # _ \<Rightarrow> out(toUpper (trimSpace p0) \<mapsto> [])
            | [] \<Rightarrow> out))"

definition parseChallenges :: "string list \<Rightarrow> (string \<Rightarrow> string option)" where
  "parseChallenges values = fold parseChallenge values Map.empty"

fun firstOffered :: "(string \<Rightarrow> string option) \<Rightarrow> string list \<Rightarrow> (string \<times> string) option" where
  "firstOffered offered [] = None"
| "firstOffered offered (scheme # schemes) =
     (case offered scheme of
        Some challenge \<Rightarrow> Some (scheme, challenge)
      | None \<Rightarrow> firstOffered offered schemes)"

definition ChooseScheme :: "string \<Rightarrow> string list \<Rightarrow> (string \<times> string) option" where
  "ChooseScheme preference challenges = firstOffered (parseChallenges challenges) (preferenceOrder preference)"

section \<open>Helpers of the sessions\<close>

definition RequestURI :: "request \<Rightarrow> string" where
  "RequestURI req =
     (if r_method req = ''CONNECT'' then r_host req
      else if isAbs (r_url req) then urlString (r_url req)
      else if requestURIOf (r_url req) \<noteq> [] then requestURIOf (r_url req)
      else ''/'')"

definition parseUser :: "string \<Rightarrow> string \<times> string \<times> bool" where
  "parseUser username =
     (if CHR 0x5C \<in> set username then
        (case splitN2 CHR 0x5C username of
           [d, u] \<Rightarrow> (u, d, True)
         | _ \<Rightarrow> (username, [], True))
      else if CHR ''@'' \<in> set username then (username, [], False)
      else (username, [], True))"

definition decodeChallenge :: "string \<Rightarrow> string go_result" where
  "decodeChallenge challenge =
     (if trimSpace challenge = [] then Error ''empty challenge''
      else (case b64decode (trimSpace challenge) of
          None \<Rightarrow> Error ''illegal base64 data''
        | Some data \<Rightarrow> Return data))"

record 'c authEnv =
  ae_getenv :: "string \<Rightarrow> string"
  ae_keyring :: "string \<Rightarrow> string \<Rightarrow> string option"
  ae_hostname :: "string option"
  ae_windows :: bool
  ae_fileExists :: "string \<Rightarrow> bool"
  ae_ntlmNegotiate :: "string \<Rightarrow> string \<Rightarrow> string option"
  ae_ntlmAuthenticate :: "string \<Rightarrow> string \<Rightarrow> string \<Rightarrow> string \<Rightarrow> string option"
  ae_krbLoad :: "string \<Rightarrow> bool"
  ae_krbLogin :: "string \<Rightarrow> string \<Rightarrow> string \<Rightarrow> string \<Rightarrow> bool"
  ae_spnego :: "string \<Rightarrow> string \<Rightarrow> string \<Rightarrow> string \<Rightarrow> string option"
  ae_newTokenClient :: "string \<Rightarrow> credentials \<Rightarrow> string \<Rightarrow> 'c option"
  ae_next :: "'c \<Rightarrow> string \<Rightarrow> (string \<times> bool) option \<times> 'c"

definition CredentialsFromConfig :: "'c authEnv \<Rightarrow> string \<Rightarrow> credentials" where
  "CredentialsFromConfig env username =
     (let pw0 = ae_getenv env ''PX_PASSWORD'';
          password = (if pw0 = [] \<and> username \<noteq> [] then
            (case ae_keyring env ''Px'' username of Some secret \<Rightarrow> secret | None \<Rightarrow> pw0) else pw0)
      in \<lparr>cr_username = username, cr_password = password\<rparr>)"

definition workstation :: "'c authEnv \<Rightarrow> string" where
  "workstation env = (case ae_hostname env of Some host \<Rightarrow> host | None \<Rightarrow> ''PX'')"

definition md5Hex :: "string \<Rightarrow> string" where
  "md5Hex value = hexEncode (md5Sum value)"

definition firstCSV :: "string \<Rightarrow> string" where
  "firstCSV value = trimSpace (hd (splitChar CHR '','' value))"

text \<open>The loop shared by \<^verbatim>\<open>parseDigestChallenge\<close> and \<^verbatim>\<open>parseAuthHeader\<close>: later parts overwrite
  earlier ones.\<close>

definition parseParam :: "string \<Rightarrow> (string \<Rightarrow> string option) \<Rightarrow> (string \<Rightarrow> string option)" where
  "parseParam part out =
     (case cutChar CHR ''='' (trimSpace part) of (k, v, ok) \<Rightarrow>
        if ok then out(toLower (trimSpace k) \<mapsto> trimCut (trimSpace v) [CHR 0x22]) else out)"

definition parseParams :: "string \<Rightarrow> (string \<Rightarrow> string option)" where
  "parseParams s = fold parseParam (splitChar CHR '','' s) Map.empty"

definition parseDigestChallenge :: "string \<Rightarrow> (string \<Rightarrow> string option)" where
  "parseDigestChallenge challenge = parseParams (trimSpace (trimPrefix challenge ''Digest''))"

text \<open>Indexing a Go map: the zero value when the key is missing.\<close>

definition param :: "(string \<Rightarrow> string option) \<Rightarrow> string \<Rightarrow> string" where
  "param m k = (case m k of None \<Rightarrow> [] | Some v \<Rightarrow> v)"

definition hex8 :: "int \<Rightarrow> string" where
  "hex8 n = (let s = hexStr (nat n) in replicate (8 - length s) CHR ''0'' @ s)"

definition quoted :: "string \<Rightarrow> string \<Rightarrow> string" where
  "quoted k v = k @ [CHR ''='', CHR 0x22] @ v @ [CHR 0x22]"

section \<open>Sessions\<close>

record 'c negotiate =
  n_creds :: credentials
  n_sspi :: "'c option"
  n_usedSSPI :: bool
  n_done :: bool

datatype 'c session =
  BasicSession credentials
| DigestSession credentials int
| NTLMSession credentials int
| NegotiateSession "'c negotiate"

fun sessionScheme :: "'c session \<Rightarrow> string" where
  "sessionScheme (BasicSession cr) = ''BASIC''"
| "sessionScheme (DigestSession cr nc) = ''DIGEST''"
| "sessionScheme (NTLMSession cr stage) = ''NTLM''"
| "sessionScheme (NegotiateSession n) = ''NEGOTIATE''"

definition newNegotiateSession :: "'c authEnv \<Rightarrow> credentials \<Rightarrow> string \<Rightarrow> 'c session" where
  "newNegotiateSession env creds targetHost =
     (case ae_newTokenClient env ''Negotiate'' creds targetHost of
        Some c \<Rightarrow> NegotiateSession \<lparr>n_creds = creds, n_sspi = Some c, n_usedSSPI = True, n_done = False\<rparr>
      | None \<Rightarrow> NegotiateSession \<lparr>n_creds = creds, n_sspi = None, n_usedSSPI = False, n_done = False\<rparr>)"

definition NewSession :: "'c authEnv \<Rightarrow> credentials \<Rightarrow> string \<Rightarrow> string \<Rightarrow> 'c session go_result" where
  "NewSession env creds scheme0 targetHost =
     (let scheme = toUpper (trimSpace scheme0)
      in if scheme = ''BASIC'' then Return (BasicSession creds)
         else if scheme = ''DIGEST'' then Return (DigestSession creds 0)
         else if scheme = ''NTLM'' then Return (NTLMSession creds 0)
         else if scheme = ''NEGOTIATE'' then Return (newNegotiateSession env creds targetHost)
         else Error (''unsupported auth scheme '' @ scheme))"

definition basicToken :: "credentials \<Rightarrow> (string \<times> bool) go_result" where
  "basicToken cr =
     (if cr_username cr = [] then Error ''username required for basic auth''
      else Return (''Basic '' @ b64encode (cr_username cr @ '':'' @ cr_password cr), True))"

definition digestToken :: "credentials \<Rightarrow> int \<Rightarrow> string \<Rightarrow> request \<Rightarrow> string \<Rightarrow> string" where
  "digestToken cr ncount rnd req challenge =
     (let params = parseDigestChallenge challenge;
          uri = RequestURI req;
          cnonce = hexEncode rnd;
          nc = hex8 ncount;
          realm = param params ''realm''; nonce = param params ''nonce''; qop = param params ''qop'';
          algorithm = (if param params ''algorithm'' = [] then ''MD5'' else param params ''algorithm'');
          ha1 = md5Hex (cr_username cr @ '':'' @ realm @ '':'' @ cr_password cr);
          ha2 = md5Hex (r_method req @ '':'' @ uri);
          response = (if qop = [] then md5Hex (ha1 @ '':'' @ nonce @ '':'' @ ha2)
                      else md5Hex (ha1 @ '':'' @ nonce @ '':'' @ nc @ '':'' @ cnonce @ '':auth:'' @ ha2));
          opaque = param params ''opaque'';
          parts = [quoted ''username'' (cr_username cr), quoted ''realm'' realm, quoted ''nonce'' nonce,
                   quoted ''uri'' uri, quoted ''response'' response, ''algorithm='' @ algorithm] @
                  (if opaque = [] then [] else [quoted ''opaque'' opaque]) @
                  (if qop = [] then []
                   else [''qop='' @ firstCSV qop, ''nc='' @ nc, quoted ''cnonce'' cnonce])
      in ''Digest '' @ joinStr '', '' parts)"

definition ntlmToken :: "'c authEnv \<Rightarrow> credentials \<Rightarrow> int \<Rightarrow> string \<Rightarrow> (string \<times> bool) go_result \<times> int" where
  "ntlmToken env cr stage challenge =
     (if stage = 0 then
        (case ae_ntlmNegotiate env [] (workstation env) of
           None \<Rightarrow> (Error ''ntlm negotiate'', stage)
         | Some msg \<Rightarrow> (Return (''NTLM '' @ b64encode msg, False), 1))
      else if stage = 1 then
        (case decodeChallenge challenge of
           Return data \<Rightarrow>
             (case ae_ntlmAuthenticate env data (cr_username cr) (cr_password cr) (workstation env) of
                None \<Rightarrow> (Error ''ntlm authenticate'', stage)
              | Some msg \<Rightarrow> (Return (''NTLM '' @ b64encode msg, True), 2))
         | Error e \<Rightarrow> (Error e, stage)
         | Panic p \<Rightarrow> (Panic p, stage))
      else (Return ([], True), stage))"

text \<open>\<^verbatim>\<open>loadKrb5Config\<close>: the first candidate that exists is loaded, whatever the outcome.  The Windows
  path is what \<^verbatim>\<open>filepath.Join\<close> gives for a \<^verbatim>\<open>ProgramData\<close> that is empty or already clean.\<close>

definition krb5Candidates :: "'c authEnv \<Rightarrow> string list" where
  "krb5Candidates env =
     filter (\<lambda>c. c \<noteq> [])
       ((if ae_getenv env ''KRB5_CONFIG'' \<noteq> [] then [ae_getenv env ''KRB5_CONFIG''] else []) @
        [if ae_windows env
         then joinStr [CHR 0x5C] ((if ae_getenv env ''ProgramData'' = [] then [] else [ae_getenv env ''ProgramData'']) @
                [''MIT'', ''Kerberos5'', ''krb5.ini''])
         else ''/etc/krb5.conf''])"

definition loadKrb5Config :: "'c authEnv \<Rightarrow> string go_result" where
  "loadKrb5Config env =
     (case find (ae_fileExists env) (krb5Candidates env) of
        None \<Rightarrow> Error ''krb5.conf not found''
      | Some c \<Rightarrow> if ae_krbLoad env c then Return c else Error ''krb5.conf invalid'')"

definition buildKrbClient :: "'c authEnv \<Rightarrow> credentials \<Rightarrow> (string \<times> string) go_result" where
  "buildKrbClient env cr =
     (case parseUser (cr_username cr) of (user, realm, _) \<Rightarrow>
        if realm = [] then Error ''kerberos realm is required in username''
        else go_bind (loadKrb5Config env) (\<lambda>cfg.
          if ae_krbLogin env user (toUpper realm) (cr_password cr) cfg then Return (user, toUpper realm)
          else Error ''kerberos login failed''))"

definition krbToken :: "'c authEnv \<Rightarrow> credentials \<Rightarrow> request \<Rightarrow> (string \<times> bool) go_result" where
  "krbToken env cr req =
     go_bind (buildKrbClient env cr) (\<lambda>(user, realm).
       (case ae_spnego env user realm (cr_password cr) (''HTTP/'' @ hostname (r_url req)) of
          None \<Rightarrow> Error ''spnego''
        | Some authorization \<Rightarrow>
            (let value = trimSpace (trimPrefix authorization ''Authorization'')
             in if hasPrefix value ''Negotiate '' then Return (value, True)
                else Error ''failed to create negotiate header'')))"

definition negotiateToken :: "'c authEnv \<Rightarrow> request \<Rightarrow> string \<Rightarrow> 'c negotiate \<Rightarrow> (string \<times> bool) go_result \<times> 'c negotiate" where
  "negotiateToken env req challenge n =
     (if n_done n then (Return ([], True), n)
      else if n_usedSSPI n then
        (case (if trimSpace challenge \<noteq> [] then decodeChallenge challenge else Return []) of
           Error e \<Rightarrow> (Error e, n)
         | Panic p \<Rightarrow> (Panic p, n)
         | Return input \<Rightarrow>
             (case n_sspi n of
                None \<Rightarrow> (Panic ''nil pointer dereference'', n)
              | Some c \<Rightarrow>
                  (case ae_next env c input of
                     (None, c') \<Rightarrow> (Error ''sspi'', n\<lparr>n_sspi := Some c'\<rparr>)
                   | (Some (out, complete), c') \<Rightarrow>
                       (Return (''Negotiate '' @ b64encode out, complete),
                        n\<lparr>n_sspi := Some c', n_done := complete\<rparr>))))
      else (krbToken env (n_creds n) req, n))"

fun token :: "'c authEnv \<Rightarrow> string \<Rightarrow> request \<Rightarrow> string \<Rightarrow> 'c session \<Rightarrow> (string \<times> bool) go_result \<times> 'c session" where
  "token env rnd req challenge (BasicSession cr) = (basicToken cr, BasicSession cr)"
| "token env rnd req challenge (DigestSession cr nc) =
     (Return (digestToken cr (nc + 1) rnd req challenge, True), DigestSession cr (nc + 1))"
| "token env rnd req challenge (NTLMSession cr stage) =
     (case ntlmToken env cr stage challenge of (r, stage') \<Rightarrow> (r, NTLMSession cr stage'))"
| "token env rnd req challenge (NegotiateSession n) =
     (case negotiateToken env req challenge n of (r, n') \<Rightarrow> (r, NegotiateSession n'))"

text \<open>\<^verbatim>\<open>sspi_other.go\<close>: off Windows there is no SSPI client.\<close>

definition newTokenClient :: "string \<Rightarrow> credentials \<Rightarrow> string \<Rightarrow> 'c option" where
  "newTokenClient package creds targetHost = None"

end
