(* ===== verification/Client_Auth.thy ===== *)
theory Client_Auth
  imports Auth
begin

text \<open>
  \<^verbatim>\<open>internal/clientauth\<close>: authentication of the clients of the proxy (\<^verbatim>\<open>clientauth.go\<close>,
  \<^verbatim>\<open>basic.go\<close>, \<^verbatim>\<open>digest.go\<close>, \<^verbatim>\<open>negotiate.go\<close>, \<^verbatim>\<open>sspi_other.go\<close>).  The NTLM server package, the
  SSPI server and the key ring are the fields of \<open>clientEnv\<close>, with \<open>'n\<close> and \<open>'s\<close> the states
  of their sessions.  What the clock and the random source give to one call is its argument \<open>tick\<close>.
\<close>

section \<open>State\<close>

record ('n, 's) clientState =
  cs_authed :: bool
  cs_digestNonce :: string
  cs_digestIssuedAt :: int
  cs_ntlm :: "'n option"
  cs_sspi :: "'s option"

definition newState :: "('n, 's) clientState" where
  "newState = \<lparr>cs_authed = False, cs_digestNonce = [], cs_digestIssuedAt = 0, cs_ntlm = None, cs_sspi = None\<rparr>"

record ('n, 's) clientEnv =
  ce_getenv :: "string \<Rightarrow> string"
  ce_keyring :: "string \<Rightarrow> string \<Rightarrow> string option"
  ce_ntlmCreate :: "'n option"
  ce_ntlmSetUser :: "string \<Rightarrow> string \<Rightarrow> string \<Rightarrow> 'n \<Rightarrow> 'n"
  ce_ntlmNegotiate :: "string \<Rightarrow> 'n \<Rightarrow> 'n option"
  ce_ntlmChallenge :: "'n \<Rightarrow> (string \<times> 'n) option"
  ce_ntlmParse :: "string \<Rightarrow> string option"
  ce_ntlmAuthenticate :: "string \<Rightarrow> 'n \<Rightarrow> bool \<times> 'n"
  ce_newSSPI :: "'s option"
  ce_accept :: "'s \<Rightarrow> string \<Rightarrow> (string \<times> bool) option \<times> 's"

record tick =
  tk_now :: int
  tk_stamp :: string
  tk_unix :: int
  tk_random :: string

record handler =
  h_username :: string
  h_password :: string
  h_methods :: "string list"
  h_noSSPI :: bool

definition expandMethods :: "string \<Rightarrow> bool \<Rightarrow> string list" where
  "expandMethods raw0 noSSPI =
     (let raw = toUpper (trimSpace raw0)
      in if raw = [] \<or> raw = ''NONE'' then []
         else if raw = ''ANY'' then
           (if noSSPI then [''NTLM'', ''DIGEST'', ''BASIC''] else [''NEGOTIATE'', ''NTLM'', ''DIGEST'', ''BASIC''])
         else if raw = ''ANYSAFE'' then
           (if noSSPI then [''NTLM'', ''DIGEST''] else [''NEGOTIATE'', ''NTLM'', ''DIGEST''])
         else filter (\<lambda>part. \<not> (part = ''NEGOTIATE'' \<and> noSSPI) \<and> part \<noteq> ''NONE'' \<and> part \<noteq> [])
                (map trimSpace (splitChar CHR '','' raw)))"

definition newHandler :: "('n, 's) clientEnv \<Rightarrow> string \<Rightarrow> string \<Rightarrow> bool \<Rightarrow> handler" where
  "newHandler env username auth noSSPI =
     (let pw0 = ce_getenv env ''PX_CLIENT_PASSWORD'';
          password = (if pw0 = [] \<and> username \<noteq> [] then
            (case ce_keyring env ''PxClient'' username of Some secret \<Rightarrow> secret | None \<Rightarrow> pw0) else pw0)
      in \<lparr>h_username = username, h_password = password, h_methods = expandMethods auth noSSPI, h_noSSPI = noSSPI\<rparr>)"

definition enabled :: "handler \<Rightarrow> bool" where
  "enabled h \<longleftrightarrow> h_methods h \<noteq> []"

section \<open>Challenges\<close>

definition issueNonce :: "tick \<Rightarrow> string \<Rightarrow> string" where
  "issueNonce tk remoteAddr =
     b64encode (itoa (tk_unix tk) @ '':'' @
       hexEncode (sha256Sum (tk_stamp tk @ '':'' @ remoteAddr @ '':PxClient'')))"

definition digestChallenge :: "string \<Rightarrow> string" where
  "digestChallenge nonce =
     quoted ''realm'' ''PxClient'' @ '', '' @ quoted ''nonce'' nonce @ '', algorithm=MD5, '' @ quoted ''qop'' ''auth''"

definition challengeMethod :: "tick \<Rightarrow> string \<Rightarrow> string \<Rightarrow> header \<times> ('n, 's) clientState \<Rightarrow> header \<times> ('n, 's) clientState" where
  "challengeMethod tk remoteAddr method hs =
     (case hs of (headers, st) \<Rightarrow>
        if method = ''BASIC'' then (hdrAdd headers ''Proxy-Authenticate'' (quoted ''Basic realm'' ''PxClient''), st)
        else if method = ''DIGEST'' then
          (let nonce = issueNonce tk remoteAddr
           in (hdrAdd headers ''Proxy-Authenticate'' (''Digest '' @ digestChallenge nonce),
               st\<lparr>cs_digestNonce := nonce, cs_digestIssuedAt := tk_now tk\<rparr>))
        else if method = ''NTLM'' then (hdrAdd headers ''Proxy-Authenticate'' ''NTLM'', st)
        else if method = ''NEGOTIATE'' then (hdrAdd headers ''Proxy-Authenticate'' ''Negotiate'', st)
        else (headers, st))"

definition challenge :: "handler \<Rightarrow> tick \<Rightarrow> ('n, 's) clientState \<Rightarrow> string \<Rightarrow> header \<times> ('n, 's) clientState" where
  "challenge h tk st remoteAddr = fold (challengeMethod tk remoteAddr) (h_methods h) ([], st)"

section \<open>Verification\<close>

definition splitUser :: "string \<Rightarrow> string \<times> string" where
  "splitUser username =
     (if CHR 0x5C \<in> set username then
        (case splitN2 CHR 0x5C username of [d, u] \<Rightarrow> (d, u) | _ \<Rightarrow> ([], username))
      else ([], username))"

definition usernameFromBasic :: "string \<Rightarrow> (string \<times> string) option" where
  "usernameFromBasic raw =
     (case b64decode raw of
        None \<Rightarrow> None
      | Some decoded \<Rightarrow> (case cutChar CHR '':'' decoded of (user, pass, ok) \<Rightarrow> if ok then Some (user, pass) else None))"

definition verifyBasic :: "('n, 's) clientEnv \<Rightarrow> handler \<Rightarrow> string \<Rightarrow> bool" where
  "verifyBasic env h raw =
     (case usernameFromBasic raw of
        None \<Rightarrow> False
      | Some (user, pass) \<Rightarrow>
          if user = [] then False
          else if h_username h \<noteq> [] \<and> \<not> equalFold user (h_username h) then False
          else if h_username h \<noteq> [] then pass = h_password h
          else (case ce_keyring env ''PxClient'' user of None \<Rightarrow> False | Some secret \<Rightarrow> pass = secret))"

definition parseAuthHeader :: "string \<Rightarrow> (string \<Rightarrow> string option)" where
  "parseAuthHeader header = parseParams header"

definition verifyDigest :: "handler \<Rightarrow> tick \<Rightarrow> request \<Rightarrow> ('n, 's) clientState \<Rightarrow> string \<Rightarrow> bool" where
  "verifyDigest h tk r st header =
     (if cs_digestNonce st = [] \<or> tk_now tk - cs_digestIssuedAt st > 5 * 60 * 10 ^ 9 then False
      else
        (let params = parseAuthHeader (trimSpace (trimPrefix header ''Digest''))
         in if param params ''nonce'' \<noteq> cs_digestNonce st then False
            else
              (let user = param params ''username''
               in if h_username h \<noteq> [] \<and> \<not> equalFold user (h_username h) then False
                  else if h_password h = [] then False
                  else
                    (let expected = digestToken \<lparr>cr_username = user, cr_password = h_password h\<rparr> 1 (tk_random tk) r
                                      (digestChallenge (cs_digestNonce st));
                         expectedParams = parseAuthHeader (trimSpace (trimPrefix expected ''Digest''))
                     in param expectedParams ''response'' = param params ''response''))))"

definition verifyNTLM :: "('n, 's) clientEnv \<Rightarrow> handler \<Rightarrow> string \<Rightarrow> ('n, 's) clientState \<Rightarrow>
    (bool \<times> string) go_result \<times> ('n, 's) clientState" where
  "verifyNTLM env h payload st =
     (if h_username h = [] \<or> h_password h = [] then
        (Error ''client_username and password are required for NTLM'', st)
      else
        (case b64decode payload of
           None \<Rightarrow> (Error ''illegal base64 data'', st)
         | Some data \<Rightarrow>
             (case cs_ntlm st of
                None \<Rightarrow>
                  (case ce_ntlmCreate env of
                     None \<Rightarrow> (Error ''create server session'', st)
                   | Some sess0 \<Rightarrow>
                       (case splitUser (h_username h) of (domain, user) \<Rightarrow>
                          (case ce_ntlmNegotiate env data (ce_ntlmSetUser env user (h_password h) domain sess0) of
                             None \<Rightarrow> (Error ''process negotiate'', st)
                           | Some sess1 \<Rightarrow>
                               (case ce_ntlmChallenge env sess1 of
                                  None \<Rightarrow> (Error ''generate challenge'', st)
                                | Some (ch, sess2) \<Rightarrow>
                                    (Return (False, ''NTLM '' @ b64encode ch), st\<lparr>cs_ntlm := Some sess2\<rparr>)))))
              | Some sess \<Rightarrow>
                  (case ce_ntlmParse env data of
                     None \<Rightarrow> (Error ''parse authenticate'', st)
                   | Some msg \<Rightarrow>
                       (case ce_ntlmAuthenticate env msg sess of
                          (False, sess') \<Rightarrow> (Error ''process authenticate'', st\<lparr>cs_ntlm := Some sess'\<rparr>)
                        | (True, sess') \<Rightarrow> (Return (True, []), st\<lparr>cs_ntlm := Some sess'\<rparr>))))))"

definition verifyNegotiate :: "('n, 's) clientEnv \<Rightarrow> handler \<Rightarrow> string \<Rightarrow> ('n, 's) clientState \<Rightarrow>
    (bool \<times> string) go_result \<times> ('n, 's) clientState" where
  "verifyNegotiate env h payload st =
     (if hasPrefix payload ''TlRMTVNTUA'' then verifyNTLM env h payload st
      else if h_noSSPI h then (Error ''negotiate requires SSPI on this platform'', st)
      else
        (case (case cs_sspi st of Some sv \<Rightarrow> Some sv | None \<Rightarrow> ce_newSSPI env) of
           None \<Rightarrow> (Error ''sspi unavailable'', st)
         | Some sv \<Rightarrow>
             (case b64decode payload of
                None \<Rightarrow> (Error ''illegal base64 data'', st\<lparr>cs_sspi := Some sv\<rparr>)
              | Some data \<Rightarrow>
                  (case ce_accept env sv data of
                     (None, sv') \<Rightarrow> (Error ''accept'', st\<lparr>cs_sspi := Some sv'\<rparr>)
                   | (Some (out, done'), sv') \<Rightarrow>
                       if done' then (Return (True, []), st\<lparr>cs_sspi := Some sv'\<rparr>)
                       else (Return (False, ''Negotiate '' @ b64encode out), st\<lparr>cs_sspi := Some sv'\<rparr>)))))"

text \<open>\<^verbatim>\<open>Authenticate\<close>: the verdict, the headers of a refusal (\<^const>\<open>None\<close> is nil), the error that is
  logged, and the state.\<close>

type_synonym ('n, 's) verdict = "bool \<times> header option \<times> string option \<times> ('n, 's) clientState"

definition refuse :: "handler \<Rightarrow> tick \<Rightarrow> request \<Rightarrow> ('n, 's) clientState \<Rightarrow> ('n, 's) verdict" where
  "refuse h tk r st = (case challenge h tk st (r_remoteAddr r) of (headers, st') \<Rightarrow> (False, Some headers, None, st'))"

definition handshake :: "handler \<Rightarrow> tick \<Rightarrow> request \<Rightarrow> (bool \<times> string) go_result \<times> ('n, 's) clientState \<Rightarrow> ('n, 's) verdict" where
  "handshake h tk r res =
     (case res of
        (Return (True, header), st) \<Rightarrow> (True, None, None, st\<lparr>cs_authed := True\<rparr>)
      | (Return (False, header), st) \<Rightarrow>
          if header \<noteq> [] then (False, Some (hdrAdd [] ''Proxy-Authenticate'' header), None, st) else refuse h tk r st
      | (_, st) \<Rightarrow> refuse h tk r st)"

definition Authenticate :: "('n, 's) clientEnv \<Rightarrow> handler \<Rightarrow> tick \<Rightarrow> request \<Rightarrow> ('n, 's) clientState \<Rightarrow> ('n, 's) verdict" where
  "Authenticate env h tk r st =
     (if \<not> enabled h \<or> cs_authed st then (True, None, None, st)
      else
        (let value = hdrGet (r_header r) ''Proxy-Authorization''
         in if value = [] then refuse h tk r st
            else
              (case cutChar CHR '' '' value of (scheme0, payload0, _) \<Rightarrow>
                 (let scheme = toUpper (trimSpace scheme0); payload = trimSpace payload0
                  in if scheme = ''BASIC'' then
                       (if verifyBasic env h payload then (True, None, None, st\<lparr>cs_authed := True\<rparr>) else refuse h tk r st)
                     else if scheme = ''DIGEST'' then
                       (if verifyDigest h tk r st value then (True, None, None, st\<lparr>cs_authed := True\<rparr>) else refuse h tk r st)
                     else if scheme = ''NTLM'' then handshake h tk r (verifyNTLM env h payload st)
                     else if scheme = ''NEGOTIATE'' then handshake h tk r (verifyNegotiate env h payload st)
                     else refuse h tk r st))))"

text \<open>\<^verbatim>\<open>CloseState\<close>: the SSPI server that has to be closed, if any.\<close>

definition closeState :: "('n, 's) clientState option \<Rightarrow> 's option" where
  "closeState st = (case st of None \<Rightarrow> None | Some s \<Rightarrow> cs_sspi s)"

text \<open>\<^verbatim>\<open>sspi_other.go\<close>: off Windows there is no SSPI server.\<close>

definition newNegotiateServer :: "'s option" where
  "newNegotiateServer = None"

end
