(* ===== verification/Auth_Props.thy ===== *)
theory Auth_Props
  imports Client_Auth
begin

text \<open>
  Properties of the authentication code: which scheme is chosen, that a session stays with its
  scheme, the NTLM handshake, and what the client side accepts.  The contract of \<^verbatim>\<open>auth.Session\<close> is
  the locale \<open>auth_session\<close>; the upstream code relies on it.
\<close>

section \<open>The session contract\<close>

locale auth_session =
  fixes scheme :: "'s \<Rightarrow> string"
    and tok :: "'e \<Rightarrow> string \<Rightarrow> request \<Rightarrow> string \<Rightarrow> 's \<Rightarrow> (string \<times> bool) go_result \<times> 's"
  assumes scheme_kept: "scheme (snd (tok e rnd req ch s)) = scheme s"
    and header_scheme: "fst (tok e rnd req ch s) = Return (h, d) \<Longrightarrow> h = [] \<or> hasPrefix (toUpper h) (scheme s @ '' '')"
begin

text \<open>The headers of a sequence of rounds, each with its random bytes and challenge, up to the
  first error.\<close>

fun rounds :: "'e \<Rightarrow> request \<Rightarrow> (string \<times> string) list \<Rightarrow> 's \<Rightarrow> string list" where
  "rounds e req [] s = []"
| "rounds e req ((rnd, ch) # xs) s =
     (case tok e rnd req ch s of
        (Return (h, _), s') \<Rightarrow> h # rounds e req xs s'
      | _ \<Rightarrow> [])"

lemma rounds_scheme: "h \<in> set (rounds e req xs s) \<Longrightarrow> h = [] \<or> hasPrefix (toUpper h) (scheme s @ '' '')"
proof (induction xs arbitrary: s)
  case (Cons x xs)
  obtain rnd ch where x: "x = (rnd, ch)" by fastforce
  obtain r s' where t: "tok e rnd req ch s = (r, s')" by fastforce
  have k: "scheme s' = scheme s" using scheme_kept [of e rnd req ch s] t by simp
  show ?case
  proof (cases r)
    case (Return hd')
    obtain h0 d where hd': "hd' = (h0, d)" by fastforce
    have "h0 = [] \<or> hasPrefix (toUpper h0) (scheme s @ '' '')"
      using header_scheme [of e rnd req ch s h0 d] t Return hd' by simp
    then show ?thesis using Cons.prems Cons.IH [of s'] x t k Return hd' by auto
  qed (use Cons.prems x t in simp_all)
qed simp

end

lemma toUpper_append [simp]: "toUpper (a @ b) = toUpper a @ toUpper b"
  by (simp add: toUpper_def)

lemma hasPrefix_toUpper: "hasPrefix s p \<Longrightarrow> hasPrefix (toUpper s) (toUpper p)"
  by (auto simp: hasPrefix_iff)

lemma scheme_words:
  "toUpper ''Basic '' = ''BASIC ''" "toUpper ''Digest '' = ''DIGEST ''" "toUpper ''NTLM '' = ''NTLM ''"
  "toUpper ''Negotiate '' = ''NEGOTIATE ''" "toUpper ''Basic'' = ''BASIC''" "toUpper ''Digest'' = ''DIGEST''"
  by (simp_all add: go_simps)

lemma header_word: "hasPrefix h w \<Longrightarrow> toUpper w = u \<Longrightarrow> hasPrefix (toUpper h) u"
  using hasPrefix_toUpper by blast

lemma ntlmToken_header:
  "fst (ntlmToken env cr stage ch) = Return (h, d) \<Longrightarrow> h = [] \<or> hasPrefix h ''NTLM ''"
  by (auto simp: ntlmToken_def hasPrefix_iff split: if_splits option.splits go_result.splits)

lemma krbToken_header: "krbToken env cr req = Return (h, d) \<Longrightarrow> hasPrefix h ''Negotiate ''"
  by (auto simp: krbToken_def go_bind_Return_iff Let_def split: option.splits if_splits)

lemma negotiateToken_header:
  "fst (negotiateToken env req ch n) = Return (h, d) \<Longrightarrow> h = [] \<or> hasPrefix h ''Negotiate ''"
  by (auto simp: negotiateToken_def hasPrefix_iff dest: krbToken_header [unfolded hasPrefix_iff]
      split: if_splits option.splits go_result.splits prod.splits)

lemma token_scheme: "sessionScheme (snd (token env rnd req ch s)) = sessionScheme s"
  by (cases s) (simp_all split: prod.split)

lemma token_header:
  assumes "fst (token env rnd req ch s) = Return (h, d)"
  shows "h = [] \<or> hasPrefix (toUpper h) (sessionScheme s @ '' '')"
proof (cases s)
  case (BasicSession cr)
  then have "hasPrefix h ''Basic ''" using assms by (auto simp: basicToken_def hasPrefix_iff split: if_splits)
  then show ?thesis using header_word scheme_words(1) BasicSession by simp
next
  case (DigestSession cr nc)
  then have "hasPrefix h ''Digest ''" using assms by (auto simp: digestToken_def hasPrefix_iff Let_def)
  then show ?thesis using header_word scheme_words(2) DigestSession by simp
next
  case (NTLMSession cr stage)
  then show ?thesis using assms ntlmToken_header [of env cr stage ch h d] header_word scheme_words(3)
    by (auto split: prod.splits)
next
  case (NegotiateSession n)
  then show ?thesis using assms negotiateToken_header [of env req ch n h d] header_word scheme_words(4)
    by (auto split: prod.splits)
qed

interpretation sess: auth_session sessionScheme token
  by unfold_locales (simp_all add: token_scheme token_header)

lemma NewSession_scheme:
  "NewSession env creds scheme target = Return s \<Longrightarrow> sessionScheme s = toUpper (trimSpace scheme)"
  by (auto simp: NewSession_def Let_def newNegotiateSession_def split: if_splits option.splits)

section \<open>Choice of the scheme\<close>

text \<open>The scheme and the parameters of one challenge value, and the last value of a scheme.\<close>

definition challengeScheme :: "string \<Rightarrow> string" where
  "challengeScheme value = toUpper (trimSpace (fst (cutChar CHR '' '' (trimSpace value))))"

definition challengeParams :: "string \<Rightarrow> string" where
  "challengeParams value = trimSpace (fst (snd (cutChar CHR '' '' (trimSpace value))))"

lemma parseChallenge_eq:
  "parseChallenge value out = (if trimSpace value = [] then out else out(challengeScheme value \<mapsto> challengeParams value))"
proof (cases "CHR '' '' \<in> set (trimSpace value)")
  case True
  then show ?thesis
    by (auto simp: parseChallenge_def splitN2_def challengeScheme_def challengeParams_def Let_def split: prod.splits)
      (metis cutChar_spec)+
next
  case False
  then show ?thesis
    by (auto simp: parseChallenge_def splitN2_def challengeScheme_def challengeParams_def Let_def cutChar_none)
qed

lemma parseChallenges_append:
  "parseChallenges (xs @ [v]) = (if trimSpace v = [] then parseChallenges xs
     else (parseChallenges xs)(challengeScheme v \<mapsto> challengeParams v))"
  by (simp add: parseChallenges_def parseChallenge_eq)

text \<open>The challenge a list of values offers for a scheme: its last one.\<close>

definition offered :: "string list \<Rightarrow> string \<Rightarrow> string option" where
  "offered values s =
     map_option challengeParams (find (\<lambda>v. trimSpace v \<noteq> [] \<and> challengeScheme v = s) (rev values))"

lemma parseChallenges_offered: "parseChallenges values s = offered values s"
proof (induction "values" rule: rev_induct)
  case Nil
  then show ?case by (simp add: parseChallenges_def offered_def)
next
  case (snoc v vs)
  then show ?case by (simp add: parseChallenges_append offered_def)
qed

lemma firstOffered_spec:
  "firstOffered off ss = Some (s, c) \<longleftrightarrow>
     (\<exists>xs ys. ss = xs @ s # ys \<and> (\<forall>x\<in>set xs. off x = None) \<and> off s = Some c)"
proof (induction ss)
  case (Cons x ss)
  show ?case
  proof (cases "off x")
    case None
    have "(\<exists>xs ys. x # ss = xs @ s # ys \<and> (\<forall>x\<in>set xs. off x = None) \<and> off s = Some c) \<longleftrightarrow>
        (\<exists>xs ys. ss = xs @ s # ys \<and> (\<forall>x\<in>set xs. off x = None) \<and> off s = Some c)" (is "?L = ?R")
    proof
      assume ?L
      then obtain xs ys where e: "x # ss = xs @ s # ys" "\<forall>x\<in>set xs. off x = None" "off s = Some c" by blast
      then have "xs \<noteq> []" using None by auto
      then show ?R using e by (metis append_Cons list.inject list.set_intros(2) neq_Nil_conv)
    next
      assume ?R
      then obtain xs ys where "ss = xs @ s # ys" "\<forall>x\<in>set xs. off x = None" "off s = Some c" by blast
      then show ?L using None by - (rule exI [of _ "x # xs"], simp)
    qed
    then show ?thesis using None Cons.IH by simp
  next
    case (Some d)
    then show ?thesis by (auto simp: Cons_eq_append_conv)
  qed
qed simp

section \<open>Base64 text\<close>

lemma b64char_plain: "b64char n \<notin> {CHR '' '', CHR '','', CHR 0x22, CHR 0x09, CHR 0x0A, CHR 0x0B, CHR 0x0C, CHR 0x0D}"
proof
  assume "b64char n \<in> {CHR '' '', CHR '','', CHR 0x22, CHR 0x09, CHR 0x0A, CHR 0x0B, CHR 0x0C, CHR 0x0D}"
  then have "b64val (b64char n) = None" by (elim insertE emptyE) (simp_all only:, simp_all add: b64val_def)
  then show False by simp
qed

lemma set_b64encode: "set (b64encode s) \<subseteq> insert CHR ''='' (range b64char)"
  by (induction s rule: b64encode.induct) (simp_all add: Let_def)

lemma b64encode_plain:
  assumes "c \<in> set (b64encode s)"
  shows "c \<notin> {CHR '' '', CHR '','', CHR 0x22, CHR 0x09, CHR 0x0A, CHR 0x0B, CHR 0x0C, CHR 0x0D}"
proof (cases "c = CHR ''=''")
  case True
  then show ?thesis by simp
next
  case False
  then obtain n where c: "c = b64char n" using assms set_b64encode by blast
  show ?thesis unfolding c by (rule b64char_plain)
qed

lemma b64encode_trim [simp]: "trimSpace (b64encode s) = b64encode s"
  by (rule trimSpace_id, rule trimmed_no_space) (auto simp: isSpace_def dest: b64encode_plain)

section \<open>Client verification\<close>

lemma cut_space_word: "CHR '' '' \<notin> set w \<Longrightarrow> cutChar CHR '' '' (w @ '' '' @ p) = (w, p, True)"
  using cutChar_append [of "CHR '' ''" w p] by simp

lemma refuse_verdict: "\<exists>hs. refuse h tk r st = (False, Some hs, None, snd (challenge h tk st (r_remoteAddr r)))"
  by (simp add: refuse_def split: prod.split)

lemma challenge_authed [simp]: "cs_authed (snd (challenge h tk st ra)) = cs_authed st"
proof -
  have "cs_authed (snd (fold (challengeMethod tk ra) ms (hs, st))) = cs_authed st" for ms hs st
    by (induction ms arbitrary: hs st) (simp_all add: challengeMethod_def Let_def)
  then show ?thesis by (simp add: challenge_def)
qed

lemma usernameFromBasic_encode:
  "CHR '':'' \<notin> set user \<Longrightarrow> usernameFromBasic (b64encode (user @ '':'' @ pass)) = Some (user, pass)"
  using cutChar_append [of "CHR '':''" user pass] by (simp add: usernameFromBasic_def b64_roundtrip)

lemma verifyNTLM_keeps: "cs_authed (snd (verifyNTLM env h payload st)) = cs_authed st"
  by (auto simp: verifyNTLM_def split: option.split prod.split bool.split)

lemma verifyNegotiate_keeps: "cs_authed (snd (verifyNegotiate env h payload st)) = cs_authed st"
  by (auto simp: verifyNegotiate_def verifyNTLM_keeps split: option.split prod.split bool.split)

text \<open>What counts as proof of identity for each scheme.\<close>

definition proven :: "('n, 's) clientEnv \<Rightarrow> handler \<Rightarrow> tick \<Rightarrow> request \<Rightarrow> ('n, 's) clientState \<Rightarrow> bool" where
  "proven env h tk r st \<longleftrightarrow>
     (let value = hdrGet (r_header r) ''Proxy-Authorization'';
          scheme = toUpper (trimSpace (fst (cutChar CHR '' '' value)));
          payload = trimSpace (fst (snd (cutChar CHR '' '' value)))
      in scheme = ''BASIC'' \<and> verifyBasic env h payload \<or>
         scheme = ''DIGEST'' \<and> verifyDigest h tk r st value \<or>
         scheme = ''NTLM'' \<and> (\<exists>hd. fst (verifyNTLM env h payload st) = Return (True, hd)) \<or>
         scheme = ''NEGOTIATE'' \<and> (\<exists>hd. fst (verifyNegotiate env h payload st) = Return (True, hd)))"

lemma handshake_verdict:
  "handshake h tk r (res, st) = (ok, hs, err, st') \<Longrightarrow>
     (ok \<longleftrightarrow> (\<exists>hd. res = Return (True, hd))) \<and> (ok \<longrightarrow> cs_authed st' \<and> hs = None) \<and>
     (\<not> ok \<longrightarrow> cs_authed st' = cs_authed st \<and> hs \<noteq> None)"
  using refuse_verdict [of h tk r st]
  by (auto simp: handshake_def split: go_result.splits bool.splits if_splits)

lemma empty_value_not_proven:
  "hdrGet (r_header r) ''Proxy-Authorization'' = [] \<Longrightarrow> \<not> proven env h tk r st"
  by (simp add: proven_def Let_def toUpper_def)

lemma Authenticate_verdict:
  assumes "enabled h" "\<not> cs_authed st" "Authenticate env h tk r st = (ok, hs, err, st')"
  shows "(ok \<longleftrightarrow> proven env h tk r st) \<and> cs_authed st' = ok \<and> (hs = None \<longleftrightarrow> ok)"
proof -
  let ?v = "hdrGet (r_header r) ''Proxy-Authorization''"
  obtain sc pl f where c: "cutChar CHR '' '' ?v = (sc, pl, f)" by (metis prod_cases3)
  define scheme where "scheme = toUpper (trimSpace sc)"
  define payload where "payload = trimSpace pl"
  obtain rn sn where n: "verifyNTLM env h payload st = (rn, sn)" by fastforce
  obtain rg sg where g: "verifyNegotiate env h payload st = (rg, sg)" by fastforce
  have keeps: "cs_authed sn = cs_authed st" "cs_authed sg = cs_authed st"
    using verifyNTLM_keeps [of env h payload st] verifyNegotiate_keeps [of env h payload st] n g by simp_all
  note rv = refuse_verdict [of h tk r st]
  have p: "proven env h tk r st \<longleftrightarrow>
      scheme = ''BASIC'' \<and> verifyBasic env h payload \<or> scheme = ''DIGEST'' \<and> verifyDigest h tk r st ?v \<or>
      scheme = ''NTLM'' \<and> (\<exists>hd. rn = Return (True, hd)) \<or> scheme = ''NEGOTIATE'' \<and> (\<exists>hd. rg = Return (True, hd))"
    using c n g by (simp add: proven_def scheme_def payload_def Let_def)
  have a: "Authenticate env h tk r st =
      (if ?v = [] then refuse h tk r st
       else if scheme = ''BASIC'' then
         (if verifyBasic env h payload then (True, None, None, st\<lparr>cs_authed := True\<rparr>) else refuse h tk r st)
       else if scheme = ''DIGEST'' then
         (if verifyDigest h tk r st ?v then (True, None, None, st\<lparr>cs_authed := True\<rparr>) else refuse h tk r st)
       else if scheme = ''NTLM'' then handshake h tk r (rn, sn)
       else if scheme = ''NEGOTIATE'' then handshake h tk r (rg, sg)
       else refuse h tk r st)"
    using assms(1,2) n g by (simp add: Authenticate_def c Let_def scheme_def payload_def)
  consider "?v = []" | "?v \<noteq> []" "scheme = ''BASIC''" | "?v \<noteq> []" "scheme = ''DIGEST''"
    | "?v \<noteq> []" "scheme = ''NTLM''" | "?v \<noteq> []" "scheme = ''NEGOTIATE''"
    | "?v \<noteq> []" "scheme \<notin> {''BASIC'', ''DIGEST'', ''NTLM'', ''NEGOTIATE''}" by blast
  then show ?thesis
  proof cases
    case 1
    then show ?thesis using assms(2,3) a rv empty_value_not_proven [OF 1, of env h tk st] by auto
  next
    case 4
    then show ?thesis using assms(2,3) a p keeps handshake_verdict [of h tk r rn sn ok hs err st'] by auto
  next
    case 5
    then show ?thesis using assms(2,3) a p keeps handshake_verdict [of h tk r rg sg ok hs err st'] by auto
  qed (use assms(2,3) a p rv in \<open>auto split: if_splits\<close>)
qed

section \<open>Digest headers\<close>

text \<open>Values that survive the parameter syntax: no comma and no double quote.\<close>

definition plainValue :: "string \<Rightarrow> bool" where
  "plainValue v \<longleftrightarrow> CHR '','' \<notin> set v \<and> CHR 0x22 \<notin> set v"

definition paramName :: "string \<Rightarrow> bool" where
  "paramName k \<longleftrightarrow> k \<noteq> [] \<and> toLower k = k \<and> (\<forall>c\<in>set k. \<not> isSpace c \<and> c \<noteq> CHR ''='' \<and> c \<noteq> CHR '','')"

lemma trimSpace_cons_space: "trimSpace (CHR '' '' # s) = trimSpace s"
  by (simp add: trimSpace_def trimFunc_def trimLeftFunc_def isSpace_def)

lemma trimmed_ends:
  "s \<noteq> [] \<Longrightarrow> \<not> isSpace (hd s) \<Longrightarrow> \<not> isSpace (last s) \<Longrightarrow> trimSpace s = s"
  by (rule trimSpace_id) (simp add: trimmed_def)

lemma trimCut_quoted: "CHR 0x22 \<notin> set v \<Longrightarrow> trimCut ([CHR 0x22] @ v @ [CHR 0x22]) [CHR 0x22] = v"
proof (cases "v = []")
  case True
  then show ?thesis by (simp add: trimCut_def trimFunc_def trimLeftFunc_def trimRightFunc_def)
next
  case False
  assume q: "CHR 0x22 \<notin> set v"
  have "hd v \<noteq> CHR 0x22" "last v \<noteq> CHR 0x22" using False q hd_in_set last_in_set by metis+
  then have "dropWhile (\<lambda>c. c = CHR 0x22) (v @ [CHR 0x22]) = v @ [CHR 0x22]"
    "dropWhile (\<lambda>c. c = CHR 0x22) (rev v) = rev v"
    using False by (simp_all add: dropWhile_id_iff hd_rev)
  then show ?thesis by (simp add: trimCut_def trimFunc_def trimLeftFunc_def trimRightFunc_def)
qed

lemma parseParam_quoted:
  assumes "paramName k" "plainValue v"
  shows "parseParam (quoted k v) out = out(k \<mapsto> v)" "parseParam (CHR '' '' # quoted k v) out = out(k \<mapsto> v)"
proof -
  have k: "k \<noteq> []" "\<forall>c\<in>set k. \<not> isSpace c \<and> c \<noteq> CHR ''='' \<and> c \<noteq> CHR '',''" "toLower k = k"
    using assms(1) by (simp_all add: paramName_def)
  have t: "trimSpace (quoted k v) = quoted k v"
    using k by (intro trimmed_ends) (simp_all add: quoted_def isSpace_def)
  have "cutChar CHR ''='' (quoted k v) = (k, [CHR 0x22] @ v @ [CHR 0x22], True)"
    using cutChar_append [of "CHR ''=''" k "[CHR 0x22] @ v @ [CHR 0x22]"] k by (auto simp: quoted_def)
  moreover have "trimSpace k = k" using k by (intro trimSpace_id trimmed_no_space) simp
  moreover have "trimSpace ([CHR 0x22] @ v @ [CHR 0x22]) = [CHR 0x22] @ v @ [CHR 0x22]"
    by (rule trimmed_ends) (simp_all add: isSpace_def)
  ultimately have "parseParam' = out(k \<mapsto> v)" if "parseParam' = (case cutChar CHR ''='' (quoted k v) of (k, v, ok) \<Rightarrow>
        if ok then out(toLower (trimSpace k) \<mapsto> trimCut (trimSpace v) [CHR 0x22]) else out)" for parseParam'
    using that k(3) trimCut_quoted [of v] assms(2) by (simp add: plainValue_def)
  then show "parseParam (quoted k v) out = out(k \<mapsto> v)" "parseParam (CHR '' '' # quoted k v) out = out(k \<mapsto> v)"
    by (simp_all add: parseParam_def t trimSpace_cons_space)
qed

lemma splitChar_joinStr_space:
  assumes "ps \<noteq> []" "\<forall>p\<in>set ps. CHR '','' \<notin> set p"
  shows "splitChar CHR '','' (joinStr '', '' ps) = hd ps # map (Cons CHR '' '') (tl ps)"
  using assms
proof (induction ps rule: induct_list012)
  case (2 x)
  then show ?case by (simp add: splitChar_single)
next
  case (3 x y zs)
  have "splitChar CHR '','' (joinStr '', '' (y # zs)) = y # map (Cons CHR '' '') zs" using 3 by simp
  then show ?case
    using 3 splitChar_append [of "CHR '',''" x "CHR '' '' # joinStr '', '' (y # zs)"] by simp
qed simp

text \<open>A header as a list of fields, quoted or bare, and what the parameter parser reads from it.\<close>

fun renderField :: "string \<times> string \<times> bool \<Rightarrow> string" where
  "renderField (k, v, q) = (if q then quoted k v else k @ ''='' @ v)"

fun fieldOk :: "string \<times> string \<times> bool \<Rightarrow> bool" where
  "fieldOk (k, v, q) = (paramName k \<and> plainValue v \<and> (q \<or> v \<noteq> [] \<and> (\<forall>c\<in>set v. \<not> isSpace c)))"

lemma parseParam_bare:
  assumes "paramName k" "plainValue v" "v \<noteq> []" "\<forall>c\<in>set v. \<not> isSpace c"
  shows "parseParam (k @ ''='' @ v) out = out(k \<mapsto> v)" "parseParam (CHR '' '' # k @ ''='' @ v) out = out(k \<mapsto> v)"
proof -
  have k: "k \<noteq> []" "\<forall>c\<in>set k. \<not> isSpace c \<and> c \<noteq> CHR ''='' \<and> c \<noteq> CHR '',''" "toLower k = k"
    using assms(1) by (simp_all add: paramName_def)
  have t: "trimSpace (k @ ''='' @ v) = k @ ''='' @ v"
    using k assms(3,4) by (intro trimmed_ends) auto
  have c: "cutChar CHR ''='' (k @ ''='' @ v) = (k, v, True)"
    using cutChar_append [of "CHR ''=''" k v] k by auto
  have kt: "trimSpace k = k" "trimSpace v = v" using k assms(4) by (auto intro!: trimSpace_id trimmed_no_space)
  have "hd v \<noteq> CHR 0x22" "last v \<noteq> CHR 0x22"
    using assms(2,3) hd_in_set last_in_set unfolding plainValue_def by metis+
  then have "trimCut v [CHR 0x22] = v"
    unfolding trimCut_def by (intro trimFunc_id) (simp add: trimmed_def)
  then show "parseParam (k @ ''='' @ v) out = out(k \<mapsto> v)" "parseParam (CHR '' '' # k @ ''='' @ v) out = out(k \<mapsto> v)"
    using kt k(3) c t by (simp_all only: parseParam_def trimSpace_cons_space prod.case if_True)
qed

lemma parseParam_field:
  assumes "fieldOk f"
  shows "parseParam (renderField f) out = out(fst f \<mapsto> fst (snd f))"
    "parseParam (CHR '' '' # renderField f) out = out(fst f \<mapsto> fst (snd f))"
proof -
  obtain k v q where f: "f = (k, v, q)" by (metis prod_cases3)
  show "parseParam (renderField f) out = out(fst f \<mapsto> fst (snd f))"
    "parseParam (CHR '' '' # renderField f) out = out(fst f \<mapsto> fst (snd f))"
    using assms f parseParam_quoted [of k v out] parseParam_bare [of k v out] by (cases q; simp)+
qed

lemma renderField_no_comma: "fieldOk f \<Longrightarrow> CHR '','' \<notin> set (renderField f)"
  by (cases f) (auto simp: quoted_def paramName_def plainValue_def)

definition fieldMap :: "(string \<times> string \<times> bool) list \<Rightarrow> (string \<Rightarrow> string option)" where
  "fieldMap fs = fold (\<lambda>f m. m(fst f \<mapsto> fst (snd f))) fs Map.empty"

lemma fold_parseParam_fields:
  "\<forall>f\<in>set gs. fieldOk f \<Longrightarrow>
   fold parseParam (map (Cons CHR '' '') (map renderField gs)) m = fold (\<lambda>f m. m(fst f \<mapsto> fst (snd f))) gs m"
  by (induction gs arbitrary: m) (simp_all add: parseParam_field)

lemma parseParams_fields:
  assumes "fs \<noteq> []" "\<forall>f\<in>set fs. fieldOk f"
  shows "parseParams (joinStr '', '' (map renderField fs)) = fieldMap fs"
proof -
  note rest = fold_parseParam_fields
  have "splitChar CHR '','' (joinStr '', '' (map renderField fs)) =
      hd (map renderField fs) # map (Cons CHR '' '') (tl (map renderField fs))"
    using assms renderField_no_comma by (intro splitChar_joinStr_space) auto
  also have "\<dots> = renderField (hd fs) # map (Cons CHR '' '') (map renderField (tl fs))"
    using assms(1) by (cases fs) simp_all
  finally have s: "splitChar CHR '','' (joinStr '', '' (map renderField fs)) =
      renderField (hd fs) # map (Cons CHR '' '') (map renderField (tl fs))" .
  have "fold parseParam (splitChar CHR '','' (joinStr '', '' (map renderField fs))) Map.empty = fieldMap fs"
    unfolding s using assms rest [of "tl fs"] parseParam_field(1) [of "hd fs"]
    by (cases fs) (simp_all add: fieldMap_def)
  then show ?thesis by (simp add: parseParams_def)
qed

lemma digestChallenge_fields:
  "digestChallenge nonce = joinStr '', '' (map renderField
     [(''realm'', ''PxClient'', True), (''nonce'', nonce, True), (''algorithm'', ''MD5'', False), (''qop'', ''auth'', True)])"
  by (simp add: digestChallenge_def quoted_def)

lemma trim_quoted_text:
  "s = a @ [CHR 0x22] \<Longrightarrow> s \<noteq> [] \<Longrightarrow> \<not> isSpace (hd s) \<Longrightarrow> trimSpace s = s"
  by (intro trimmed_ends) (simp_all add: isSpace_def)

lemma names_ok [simp]:
  "paramName ''realm''" "paramName ''nonce''" "paramName ''algorithm''" "paramName ''qop''" "paramName ''username''"
  "paramName ''uri''" "paramName ''response''" "paramName ''nc''" "paramName ''cnonce''"
  by (simp_all add: paramName_def go_simps)

lemma parse_own_challenge:
  assumes "plainValue nonce"
  shows "parseDigestChallenge (digestChallenge nonce) =
    fieldMap [(''realm'', ''PxClient'', True), (''nonce'', nonce, True), (''algorithm'', ''MD5'', False), (''qop'', ''auth'', True)]"
proof -
  have "trimPrefix (digestChallenge nonce) ''Digest'' = digestChallenge nonce"
    by (simp add: trimPrefix_def digestChallenge_def quoted_def)
  moreover have "trimSpace (digestChallenge nonce) = digestChallenge nonce"
    by (rule trimmed_ends) (simp_all add: digestChallenge_def quoted_def isSpace_def)
  ultimately show ?thesis
    using assms unfolding parseDigestChallenge_def digestChallenge_fields
    by (simp only:, intro parseParams_fields) (auto simp: plainValue_def isSpace_def)
qed

lemma hex_digit_mem: "i < 16 \<Longrightarrow> ''0123456789abcdef'' ! i \<in> set ''0123456789abcdef''"
  by (rule nth_mem) simp

lemma set_hexEncode: "set (hexEncode s) \<subseteq> set ''0123456789abcdef''"
proof (induction s)
  case (Cons c s)
  have "(of_char c :: nat) div 16 < 16" "(of_char c :: nat) mod 16 < 16"
    using of_char_less256 [of c] by linarith+
  then show ?case
    using Cons hex_digit_mem [of "of_char c div 16"] hex_digit_mem [of "of_char c mod 16"]
    by (simp only: hexEncode_def list.map concat.simps Let_def set_append list.set Un_subset_iff insert_subset
        empty_subsetI simp_thms)
qed (simp add: hexEncode_def)

lemma plain_hexEncode [simp]: "plainValue (hexEncode s)"
  using set_hexEncode [of s] by (auto simp: plainValue_def)

lemma plain_b64encode [simp]: "plainValue (b64encode s)"
  by (auto simp: plainValue_def dest: b64encode_plain)

lemma hex8_1: "hex8 1 = ''00000001''"
proof -
  have "replicate 7 CHR ''0'' = ''0000000''" by (simp add: numeral_eq_Suc)
  then show ?thesis by (simp add: hex8_def hexStr.simps hexDigit_def go_simps)
qed

text \<open>The response the digest code computes for the challenge of \<^verbatim>\<open>clientauth.go\<close>.\<close>

definition digestResponse :: "string \<Rightarrow> string \<Rightarrow> request \<Rightarrow> string \<Rightarrow> string \<Rightarrow> string" where
  "digestResponse user pw req nonce cnonce =
     md5Hex (md5Hex (user @ '':PxClient:'' @ pw) @ '':'' @ nonce @ '':00000001:'' @ cnonce @ '':auth:'' @
       md5Hex (r_method req @ '':'' @ RequestURI req))"

lemma own_token_fields:
  assumes "plainValue nonce"
  shows "digestToken \<lparr>cr_username = user, cr_password = pw\<rparr> 1 rnd req (digestChallenge nonce) =
    ''Digest '' @ joinStr '', '' (map renderField
      [(''username'', user, True), (''realm'', ''PxClient'', True), (''nonce'', nonce, True),
       (''uri'', RequestURI req, True), (''response'', digestResponse user pw req nonce (hexEncode rnd), True),
       (''algorithm'', ''MD5'', False), (''qop'', ''auth'', False), (''nc'', ''00000001'', False),
       (''cnonce'', hexEncode rnd, True)])"
proof -
  let ?p = "parseDigestChallenge (digestChallenge nonce)"
  have p: "param ?p ''realm'' = ''PxClient''" "param ?p ''nonce'' = nonce" "param ?p ''qop'' = ''auth''"
    "param ?p ''algorithm'' = ''MD5''" "param ?p ''opaque'' = []"
    by (simp_all add: parse_own_challenge [OF assms] fieldMap_def param_def)
  have q: "firstCSV ''auth'' = ''auth''" by (simp add: firstCSV_def go_simps)
  show ?thesis
    unfolding digestToken_def Let_def p hex8_1 q digestResponse_def by simp
qed

lemma own_token_params:
  assumes "plainValue nonce" "plainValue user" "plainValue (RequestURI req)"
    and m_def: "m = parseAuthHeader (trimSpace (trimPrefix
     (digestToken \<lparr>cr_username = user, cr_password = pw\<rparr> 1 rnd req (digestChallenge nonce)) ''Digest''))"
  shows "param m ''nonce'' = nonce" "param m ''username'' = user"
    "param m ''response'' = digestResponse user pw req nonce (hexEncode rnd)"
proof -
  let ?fs = "[(''username'', user, True), (''realm'', ''PxClient'', True), (''nonce'', nonce, True),
       (''uri'', RequestURI req, True), (''response'', digestResponse user pw req nonce (hexEncode rnd), True),
       (''algorithm'', ''MD5'', False), (''qop'', ''auth'', False), (''nc'', ''00000001'', False),
       (''cnonce'', hexEncode rnd, True)]"
  have "trimSpace (CHR '' '' # joinStr '', '' (map renderField ?fs)) = joinStr '', '' (map renderField ?fs)"
    unfolding trimSpace_cons_space by (rule trimmed_ends) (simp_all add: quoted_def isSpace_def)
  moreover have "trimPrefix (''Digest '' @ s) ''Digest'' = CHR '' '' # s" for s
    by (simp add: trimPrefix_def)
  ultimately have "m = parseParams (joinStr '', '' (map renderField ?fs))"
    unfolding m_def own_token_fields [OF assms(1)] parseAuthHeader_def by (simp only:)
  also have "\<dots> = fieldMap ?fs"
    using assms(1-3) by (intro parseParams_fields) (auto simp: digestResponse_def md5Hex_def, auto simp: plainValue_def isSpace_def)
  finally have "m = fieldMap ?fs" .
  then show "param m ''nonce'' = nonce" "param m ''username'' = user"
    "param m ''response'' = digestResponse user pw req nonce (hexEncode rnd)"
    by (simp_all add: fieldMap_def param_def)
qed

section \<open>Properties\<close>

text \<open>Concrete values for the witnesses: a handler, a request with an authorization value, and an
  environment without NTLM or SSPI.\<close>

definition bareEnv :: "(unit, unit) clientEnv" where
  "bareEnv = \<lparr>ce_getenv = (\<lambda>_. []), ce_keyring = (\<lambda>_ _. None), ce_ntlmCreate = None,
     ce_ntlmSetUser = (\<lambda>_ _ _ x. x), ce_ntlmNegotiate = (\<lambda>_ _. None), ce_ntlmChallenge = (\<lambda>_. None),
     ce_ntlmParse = (\<lambda>_. None), ce_ntlmAuthenticate = (\<lambda>_ x. (False, x)), ce_newSSPI = newNegotiateServer,
     ce_accept = (\<lambda>s _. (None, s))\<rparr>"

definition bareAuthEnv :: "unit authEnv" where
  "bareAuthEnv = \<lparr>ae_getenv = (\<lambda>_. []), ae_keyring = (\<lambda>_ _. None), ae_hostname = None, ae_windows = False,
     ae_fileExists = (\<lambda>_. False), ae_ntlmNegotiate = (\<lambda>_ _. Some ''N''), ae_ntlmAuthenticate = (\<lambda>_ _ _ _. Some ''A''),
     ae_krbLoad = (\<lambda>_. False), ae_krbLogin = (\<lambda>_ _ _ _. False), ae_spnego = (\<lambda>_ _ _ _. None),
     ae_newTokenClient = newTokenClient, ae_next = (\<lambda>c _. (None, c))\<rparr>"

definition joeHandler :: "string list \<Rightarrow> handler" where
  "joeHandler methods = \<lparr>h_username = ''joe'', h_password = ''pw'', h_methods = methods, h_noSSPI = True\<rparr>"

definition authRequest :: "string \<Rightarrow> request" where
  "authRequest v = \<lparr>r_method = ''CONNECT'', r_url = emptyURL, r_host = ''example.com:443'',
     r_header = [(''Proxy-Authorization'', [v])], r_close = False, r_tls = False, r_remoteAddr = ''10.0.0.1:999'', r_body = []\<rparr>"

definition zeroTick :: tick where
  "zeroTick = \<lparr>tk_now = 0, tk_stamp = [], tk_unix = 0, tk_random = ''s''\<rparr>"

lemma canonical_auth: "canonicalKey ''Proxy-Authorization'' = ''Proxy-Authorization''"
  by (simp add: canonicalKey_def isToken_def isAlnum_def go_simps)

lemma authRequest_get: "hdrGet (r_header (authRequest v)) ''Proxy-Authorization'' = v"
  by (simp add: hdrGet_def hdrValues_def authRequest_def canonical_auth)

text \<open>Which schemes a preference leaves eligible, and how strong a scheme is.\<close>

definition eligible :: "string \<Rightarrow> string \<Rightarrow> bool" where
  "eligible pref s \<longleftrightarrow>
     (let p = toUpper (trimSpace pref); safe = {''NEGOTIATE'', ''NTLM'', ''DIGEST''}
      in (p = [] \<or> p = ''ANY'') \<and> s \<in> insert ''BASIC'' safe \<or>
         p = ''ANYSAFE'' \<and> s \<in> safe \<or>
         hasPrefix p ''SAFENO'' \<and> s \<in> safe - {drop 6 p} \<or>
         hasPrefix p ''NO'' \<and> p \<noteq> ''NONE'' \<and> s \<in> insert ''BASIC'' safe - {drop 2 p} \<or>
         p = ''ONLY'' @ s \<or>
         p = s \<and> p \<notin> {[], ''ANY'', ''ANYSAFE'', ''NONE''} \<and> \<not> hasPrefix p ''SAFENO'' \<and> \<not> hasPrefix p ''NO'' \<and> \<not> hasPrefix p ''ONLY'')"

definition strength :: "string \<Rightarrow> nat" where
  "strength s = (if s = ''NEGOTIATE'' then 0 else if s = ''NTLM'' then 1 else if s = ''DIGEST'' then 2 else 3)"

lemma preferenceOrder_cases:
  obtains "toUpper (trimSpace pref) \<in> {[], ''ANY''}" "preferenceOrder pref = allSchemes"
  | "toUpper (trimSpace pref) = ''ANYSAFE''" "preferenceOrder pref = safeSchemes"
  | "toUpper (trimSpace pref) = ''NONE''" "preferenceOrder pref = []"
  | x where "toUpper (trimSpace pref) = ''ONLY'' @ x" "preferenceOrder pref = [x]"
  | x where "toUpper (trimSpace pref) = ''SAFENO'' @ x" "preferenceOrder pref = excludeScheme safeSchemes x"
  | x where "toUpper (trimSpace pref) = ''NO'' @ x" "toUpper (trimSpace pref) \<noteq> ''NONE''" "preferenceOrder pref = excludeScheme allSchemes x"
  | "toUpper (trimSpace pref) \<notin> {[], ''ANY'', ''ANYSAFE'', ''NONE''}" "\<not> hasPrefix (toUpper (trimSpace pref)) ''ONLY''"
    "\<not> hasPrefix (toUpper (trimSpace pref)) ''SAFENO''" "\<not> hasPrefix (toUpper (trimSpace pref)) ''NO''"
    "preferenceOrder pref = [toUpper (trimSpace pref)]"
proof -
  define p where "p = toUpper (trimSpace pref)"
  consider "p \<in> {[], ''ANY'', ''ANYSAFE'', ''NONE''}" | x where "p = ''ONLY'' @ x" | x where "p = ''SAFENO'' @ x"
    | x where "p = ''NO'' @ x" "p \<noteq> ''NONE''"
    | "p \<notin> {[], ''ANY'', ''ANYSAFE'', ''NONE''}" "\<not> hasPrefix p ''ONLY''" "\<not> hasPrefix p ''SAFENO''" "\<not> hasPrefix p ''NO''"
    unfolding hasPrefix_iff by blast
  then show thesis
  proof cases
    case 1
    then show thesis using that(1-3) unfolding p_def [symmetric] by (auto simp: preferenceOrder_def Let_def p_def [symmetric])
  next
    case (2 x)
    then show thesis using that(4) [of x] by (simp add: preferenceOrder_def Let_def p_def [symmetric] trimPrefix_def)
  next
    case (3 x)
    then show thesis using that(5) [of x] by (simp add: preferenceOrder_def Let_def p_def [symmetric] trimPrefix_def)
  next
    case (4 x)
    then show thesis using that(6) [of x] by (simp add: preferenceOrder_def Let_def p_def [symmetric] trimPrefix_def)
  next
    case 5
    then have "\<not> (hasPrefix p ''SAFE'' \<and> hasPrefix (trimPrefix p ''SAFE'') ''NO'')"
      by (auto simp: hasPrefix_iff trimPrefix_def)
    then have "preferenceOrder pref = [p]" using 5 by (auto simp: preferenceOrder_def Let_def p_def [symmetric])
    then show thesis using that(7) 5 by (simp add: p_def)
  qed
qed

lemma preferenceOrder_eligible: "s \<in> set (preferenceOrder pref) \<longleftrightarrow> eligible pref s"
proof (rule preferenceOrder_cases [of pref])
  assume "toUpper (trimSpace pref) \<notin> {[], ''ANY'', ''ANYSAFE'', ''NONE''}" "\<not> hasPrefix (toUpper (trimSpace pref)) ''ONLY''"
    "\<not> hasPrefix (toUpper (trimSpace pref)) ''SAFENO''" "\<not> hasPrefix (toUpper (trimSpace pref)) ''NO''"
    "preferenceOrder pref = [toUpper (trimSpace pref)]"
  moreover then have "toUpper (trimSpace pref) \<noteq> ''ONLY'' @ s" by (auto simp: hasPrefix_iff)
  ultimately show ?thesis unfolding eligible_def Let_def by auto
next
  fix x assume "toUpper (trimSpace pref) = ''ONLY'' @ x" "preferenceOrder pref = [x]"
  then show ?thesis by (auto simp: eligible_def)
next
  fix x assume "toUpper (trimSpace pref) = ''NO'' @ x" "toUpper (trimSpace pref) \<noteq> ''NONE''"
    "preferenceOrder pref = excludeScheme allSchemes x"
  then show ?thesis by (simp add: eligible_def allSchemes_def excludeScheme_def) blast
next
  fix x assume "toUpper (trimSpace pref) = ''SAFENO'' @ x" "preferenceOrder pref = excludeScheme safeSchemes x"
  then show ?thesis by (simp add: eligible_def safeSchemes_def excludeScheme_def) blast
next
  assume p: "toUpper (trimSpace pref) \<in> {[], ''ANY''}" and o: "preferenceOrder pref = allSchemes"
  from p consider "toUpper (trimSpace pref) = []" | "toUpper (trimSpace pref) = ''ANY''" by blast
  then show ?thesis
  proof cases
    case 1
    then show ?thesis unfolding o by (simp add: eligible_def allSchemes_def toUpper_def) blast
  next
    case 2
    then show ?thesis unfolding o by (simp add: eligible_def allSchemes_def) blast
  qed
qed (simp_all add: eligible_def safeSchemes_def)

lemma eligible_excludes:
  assumes "eligible pref s"
  shows "toUpper (trimSpace pref) = ''ANYSAFE'' \<Longrightarrow> s \<noteq> ''BASIC''"
    and "toUpper (trimSpace pref) = ''SAFENO'' @ x \<Longrightarrow> s \<noteq> x \<and> s \<noteq> ''BASIC''"
    and "toUpper (trimSpace pref) = ''NO'' @ x \<Longrightarrow> s \<noteq> x"
    and "toUpper (trimSpace pref) = ''ONLY'' @ x \<Longrightarrow> s = x"
    and "toUpper (trimSpace pref) \<noteq> ''NONE''"
proof -
  note e = assms [unfolded eligible_def Let_def]
  show "s \<noteq> ''BASIC''" if "toUpper (trimSpace pref) = ''ANYSAFE''" using e unfolding that by auto
  show "s \<noteq> x \<and> s \<noteq> ''BASIC''" if "toUpper (trimSpace pref) = ''SAFENO'' @ x" using e unfolding that by auto
  show "s \<noteq> x" if "toUpper (trimSpace pref) = ''NO'' @ x" using e unfolding that by auto
  show "s = x" if "toUpper (trimSpace pref) = ''ONLY'' @ x" using e unfolding that by auto
  show "toUpper (trimSpace pref) \<noteq> ''NONE''" using e by (cases "toUpper (trimSpace pref) = ''NONE''") simp_all
qed

lemma preferenceOrder_sorted: "sorted_wrt (\<lambda>a b. strength a < strength b) (preferenceOrder pref)"
  by (rule preferenceOrder_cases [of pref])
    (auto simp: allSchemes_def safeSchemes_def excludeScheme_def strength_def)

lemma first_is_strongest:
  assumes "sorted_wrt (\<lambda>a b. strength a < strength b) order"
  shows "(\<exists>xs ys. order = xs @ s # ys \<and> (\<forall>x\<in>set xs. off x = None) \<and> off s = Some c) \<longleftrightarrow>
    s \<in> set order \<and> off s = Some c \<and> (\<forall>t\<in>set order. off t \<noteq> None \<longrightarrow> strength s \<le> strength t)"
proof
  assume "\<exists>xs ys. order = xs @ s # ys \<and> (\<forall>x\<in>set xs. off x = None) \<and> off s = Some c"
  then show "s \<in> set order \<and> off s = Some c \<and> (\<forall>t\<in>set order. off t \<noteq> None \<longrightarrow> strength s \<le> strength t)"
    using assms by (fastforce simp: sorted_wrt_append)
next
  assume r: "s \<in> set order \<and> off s = Some c \<and> (\<forall>t\<in>set order. off t \<noteq> None \<longrightarrow> strength s \<le> strength t)"
  then obtain xs ys where o: "order = xs @ s # ys" by (meson split_list)
  then have "\<forall>x\<in>set xs. strength x < strength s" using assms by (simp add: sorted_wrt_append)
  then show "\<exists>xs ys. order = xs @ s # ys \<and> (\<forall>x\<in>set xs. off x = None) \<and> off s = Some c"
    using o r by (intro exI [of _ xs] exI [of _ ys]) force
qed

text \<open>C23: \<^verbatim>\<open>ChooseScheme\<close> takes the strongest scheme (\<^verbatim>\<open>NEGOTIATE\<close>, \<^verbatim>\<open>NTLM\<close>, \<^verbatim>\<open>DIGEST\<close>, \<^verbatim>\<open>BASIC\<close>) among those that are
  offered (the last challenge of a scheme counts) and that the preference leaves eligible, and it fails only when there is
  none.  A preference excludes exactly what it says: \<^verbatim>\<open>SAFENOx\<close> gives neither \<^verbatim>\<open>x\<close> nor \<^verbatim>\<open>BASIC\<close>, \<^verbatim>\<open>NOx\<close> never gives
  \<^verbatim>\<open>x\<close>, \<^verbatim>\<open>ANYSAFE\<close> never \<^verbatim>\<open>BASIC\<close>, \<^verbatim>\<open>ONLYx\<close> gives only \<^verbatim>\<open>x\<close>, and \<^verbatim>\<open>NONE\<close> nothing.\<close>

theorem choose_scheme_spec:
  "(ChooseScheme pref values = Some (s, c) \<longleftrightarrow> eligible pref s \<and> offered values s = Some c \<and>
     (\<forall>t. eligible pref t \<and> offered values t \<noteq> None \<longrightarrow> strength s \<le> strength t)) \<and>
   (ChooseScheme pref values = None \<longleftrightarrow> \<not> (\<exists>t. eligible pref t \<and> offered values t \<noteq> None)) \<and>
   (ChooseScheme pref values = Some (s, c) \<longrightarrow>
     (toUpper (trimSpace pref) = ''ANYSAFE'' \<longrightarrow> s \<noteq> ''BASIC'') \<and>
     (\<forall>x. toUpper (trimSpace pref) = ''SAFENO'' @ x \<longrightarrow> s \<noteq> x \<and> s \<noteq> ''BASIC'') \<and>
     (\<forall>x. toUpper (trimSpace pref) = ''NO'' @ x \<longrightarrow> s \<noteq> x) \<and>
     (\<forall>x. toUpper (trimSpace pref) = ''ONLY'' @ x \<longrightarrow> s = x) \<and> toUpper (trimSpace pref) \<noteq> ''NONE'')"
proof (intro conjI)
  have first: "ChooseScheme pref values = Some (s, c) \<longleftrightarrow>
     (\<exists>xs ys. preferenceOrder pref = xs @ s # ys \<and> (\<forall>x\<in>set xs. offered values x = None) \<and> offered values s = Some c)" for s c
    by (simp add: ChooseScheme_def firstOffered_spec parseChallenges_offered)
  have spec: "ChooseScheme pref values = Some (s, c) \<longleftrightarrow> eligible pref s \<and> offered values s = Some c \<and>
     (\<forall>t. eligible pref t \<and> offered values t \<noteq> None \<longrightarrow> strength s \<le> strength t)" for s c
    unfolding first first_is_strongest [OF preferenceOrder_sorted] by (auto simp: preferenceOrder_eligible)
  then show "ChooseScheme pref values = Some (s, c) \<longleftrightarrow> eligible pref s \<and> offered values s = Some c \<and>
     (\<forall>t. eligible pref t \<and> offered values t \<noteq> None \<longrightarrow> strength s \<le> strength t)" .
  have "firstOffered off ss = None \<longleftrightarrow> (\<forall>x\<in>set ss. off x = None)" for off ss
    by (induction ss) (simp_all split: option.split)
  then show "ChooseScheme pref values = None \<longleftrightarrow> \<not> (\<exists>t. eligible pref t \<and> offered values t \<noteq> None)"
    by (auto simp: ChooseScheme_def parseChallenges_offered preferenceOrder_eligible)
  show "ChooseScheme pref values = Some (s, c) \<longrightarrow>
     (toUpper (trimSpace pref) = ''ANYSAFE'' \<longrightarrow> s \<noteq> ''BASIC'') \<and>
     (\<forall>x. toUpper (trimSpace pref) = ''SAFENO'' @ x \<longrightarrow> s \<noteq> x \<and> s \<noteq> ''BASIC'') \<and>
     (\<forall>x. toUpper (trimSpace pref) = ''NO'' @ x \<longrightarrow> s \<noteq> x) \<and>
     (\<forall>x. toUpper (trimSpace pref) = ''ONLY'' @ x \<longrightarrow> s = x) \<and> toUpper (trimSpace pref) \<noteq> ''NONE''"
    unfolding spec using eligible_excludes [of pref s] by blast
qed

theorem choose_scheme_spec_witness:
  "ChooseScheme ''safenontlm'' [''Basic realm=x'', ''Digest a'', ''NTLM'', ''Digest b''] = Some (''DIGEST'', ''b'') \<and>
   ''DIGEST'' \<noteq> ''NTLM'' \<and> ''DIGEST'' \<noteq> ''BASIC''"
proof -
  let ?vs = "[''Basic realm=x'', ''Digest a'', ''NTLM'', ''Digest b'']"
  have c: "ChooseScheme ''safenontlm'' ?vs = Some (''DIGEST'', ''b'')"
    by (simp add: ChooseScheme_def parseChallenges_def parseChallenge_def preferenceOrder_def safeSchemes_def excludeScheme_def Let_def go_simps)
  moreover have "toUpper (trimSpace ''safenontlm'') = ''SAFENO'' @ ''NTLM''" by (simp add: go_simps)
  ultimately show ?thesis
    using choose_scheme_spec [of "''safenontlm''" ?vs "''DIGEST''" "''b''"] by blast
qed

text \<open>The NTLM session is a two-message exchange.  A first token is the negotiate message, a second
  one the authenticate message computed from the proxy's challenge, and from then on the
  session has nothing to send; an undecodable challenge or a failure of the NTLM package is an
  error that leaves the exchange where it is.\<close>

lemma ntlm_handshake:
  "token env rnd req ch (NTLMSession cr 0) =
     (case ae_ntlmNegotiate env [] (workstation env) of
        None \<Rightarrow> (Error ''ntlm negotiate'', NTLMSession cr 0)
      | Some msg \<Rightarrow> (Return (''NTLM '' @ b64encode msg, False), NTLMSession cr 1)) \<and>
   token env rnd req (b64encode data) (NTLMSession cr 1) =
     (if data = [] then (Error ''empty challenge'', NTLMSession cr 1)
      else (case ae_ntlmAuthenticate env data (cr_username cr) (cr_password cr) (workstation env) of
          None \<Rightarrow> (Error ''ntlm authenticate'', NTLMSession cr 1)
        | Some msg \<Rightarrow> (Return (''NTLM '' @ b64encode msg, True), NTLMSession cr 2))) \<and>
   token env rnd req ch (NTLMSession cr 2) = (Return ([], True), NTLMSession cr 2)"
proof -
  have e: "b64encode data = [] \<longleftrightarrow> data = []"
    by (cases data rule: b64encode.cases) (simp_all add: Let_def)
  have "decodeChallenge (b64encode data) = (if data = [] then Error ''empty challenge'' else Return data)"
    by (simp add: decodeChallenge_def e b64_roundtrip)
  then show ?thesis by (simp add: ntlmToken_def split: option.split)
qed

section \<open>Who is entitled\<close>

text \<open>What a client must have shown, stated without the verifiers: for Basic, the user name and the password themselves; for
  Digest, the MD5 response over the configured password, the nonce of this connection and the request, for a nonce that is
  at most five minutes old; for NTLM and SPNEGO, that the session of the connection accepted its last message.\<close>

definition basicEntitled :: "('n, 's) clientEnv \<Rightarrow> handler \<Rightarrow> string \<Rightarrow> bool" where
  "basicEntitled env h payload \<longleftrightarrow>
     (\<exists>user pass. b64decode payload = Some (user @ '':'' @ pass) \<and> CHR '':'' \<notin> set user \<and> user \<noteq> [] \<and>
        (if h_username h = [] then ce_keyring env ''PxClient'' user = Some pass
         else toLower user = toLower (h_username h) \<and> pass = h_password h))"

definition digestEntitled :: "handler \<Rightarrow> tick \<Rightarrow> request \<Rightarrow> ('n, 's) clientState \<Rightarrow> string \<Rightarrow> bool" where
  "digestEntitled h tk r st value \<longleftrightarrow>
     (let shown = param (parseParams (trimSpace (trimPrefix value ''Digest'')))
      in cs_digestNonce st \<noteq> [] \<and> tk_now tk - cs_digestIssuedAt st \<le> 300 * 10 ^ 9 \<and> shown ''nonce'' = cs_digestNonce st \<and>
         (h_username h = [] \<or> toLower (shown ''username'') = toLower (h_username h)) \<and> h_password h \<noteq> [] \<and>
         shown ''response'' =
           digestResponse (shown ''username'') (h_password h) r (cs_digestNonce st) (hexEncode (tk_random tk)))"

definition ntlmEntitled :: "('n, 's) clientEnv \<Rightarrow> handler \<Rightarrow> string \<Rightarrow> ('n, 's) clientState \<Rightarrow> bool" where
  "ntlmEntitled env h payload st \<longleftrightarrow> h_username h \<noteq> [] \<and> h_password h \<noteq> [] \<and>
     (\<exists>data sess msg. b64decode payload = Some data \<and> cs_ntlm st = Some sess \<and> ce_ntlmParse env data = Some msg \<and>
        fst (ce_ntlmAuthenticate env msg sess))"

definition spnegoEntitled :: "('n, 's) clientEnv \<Rightarrow> handler \<Rightarrow> string \<Rightarrow> ('n, 's) clientState \<Rightarrow> bool" where
  "spnegoEntitled env h payload st \<longleftrightarrow> \<not> h_noSSPI h \<and>
     (\<exists>data sv out. b64decode payload = Some data \<and> (cs_sspi st = Some sv \<or> cs_sspi st = None \<and> ce_newSSPI env = Some sv) \<and>
        fst (ce_accept env sv data) = Some (out, True))"

definition entitled :: "('n, 's) clientEnv \<Rightarrow> handler \<Rightarrow> tick \<Rightarrow> request \<Rightarrow> ('n, 's) clientState \<Rightarrow> bool" where
  "entitled env h tk r st \<longleftrightarrow>
     (let value = hdrGet (r_header r) ''Proxy-Authorization'';
          scheme = toUpper (trimSpace (fst (cutChar CHR '' '' value)));
          payload = trimSpace (fst (snd (cutChar CHR '' '' value)))
      in scheme = ''BASIC'' \<and> basicEntitled env h payload \<or>
         scheme = ''DIGEST'' \<and> digestEntitled h tk r st value \<or>
         (scheme = ''NTLM'' \<or> scheme = ''NEGOTIATE'' \<and> hasPrefix payload ''TlRMTVNTUA'') \<and> ntlmEntitled env h payload st \<or>
         scheme = ''NEGOTIATE'' \<and> \<not> hasPrefix payload ''TlRMTVNTUA'' \<and> spnegoEntitled env h payload st)"

lemma verifyBasic_entitled: "verifyBasic env h payload \<longleftrightarrow> basicEntitled env h payload"
proof -
  have u: "usernameFromBasic payload = Some (user, pass) \<longleftrightarrow>
      b64decode payload = Some (user @ '':'' @ pass) \<and> CHR '':'' \<notin> set user" for user pass
  proof (cases "b64decode payload")
    case (Some d)
    obtain a b ok where c: "cutChar CHR '':'' d = (a, b, ok)" by (metis prod_cases3)
    have r: "usernameFromBasic payload = (if ok then Some (a, b) else None)" using Some c by (simp add: usernameFromBasic_def)
    show ?thesis
    proof
      assume "usernameFromBasic payload = Some (user, pass)"
      then have "ok" "a = user" "b = pass" using r by (auto split: if_splits)
      then show "b64decode payload = Some (user @ '':'' @ pass) \<and> CHR '':'' \<notin> set user"
        using cutChar_spec [OF c] Some by simp
    next
      assume "b64decode payload = Some (user @ '':'' @ pass) \<and> CHR '':'' \<notin> set user"
      then have "cutChar CHR '':'' d = (user, pass, True)" using cutChar_append [of "CHR '':''" user pass] Some by simp
      then show "usernameFromBasic payload = Some (user, pass)" using r c by simp
    qed
  qed (simp add: usernameFromBasic_def)
  have "verifyBasic env h payload \<longleftrightarrow> (\<exists>user pass. usernameFromBasic payload = Some (user, pass) \<and> user \<noteq> [] \<and>
        (if h_username h = [] then ce_keyring env ''PxClient'' user = Some pass
         else toLower user = toLower (h_username h) \<and> pass = h_password h))"
  proof (cases "usernameFromBasic payload")
    case (Some up)
    obtain user pass where "up = (user, pass)" by fastforce
    then show ?thesis using Some by (auto simp: verifyBasic_def equalFold_def split: option.split)
  qed (simp add: verifyBasic_def)
  then show ?thesis unfolding u basicEntitled_def by (simp only: conj_assoc)
qed

lemma splitChar_cons: "x \<noteq> c \<Longrightarrow> splitChar c (x # s) = (x # hd (splitChar c s)) # tl (splitChar c s)"
  using splitChar_not_Nil [of c s] by (cases "splitChar c s") simp_all

lemma splitChar_append2: "splitChar c (a @ c # b) = splitChar c a @ splitChar c b"
proof (induction a)
  case (Cons x a)
  then show ?case using splitChar_not_Nil [of c a] by (auto split: list.split)
qed simp

text \<open>The response of a header the digest code wrote is read back, whatever user name and URI stand before it.\<close>

lemma own_token_response:
  assumes "plainValue nonce"
  shows "param (parseAuthHeader (trimSpace (trimPrefix
     (digestToken \<lparr>cr_username = user, cr_password = pw\<rparr> 1 rnd req (digestChallenge nonce)) ''Digest''))) ''response'' =
    digestResponse user pw req nonce (hexEncode rnd)"
proof -
  let ?fs = "[(''username'', user, True), (''realm'', ''PxClient'', True), (''nonce'', nonce, True), (''uri'', RequestURI req, True)]"
  let ?gs = "[(''response'', digestResponse user pw req nonce (hexEncode rnd), True),
       (''algorithm'', ''MD5'', False), (''qop'', ''auth'', False), (''nc'', ''00000001'', False), (''cnonce'', hexEncode rnd, True)]"
  let ?t = "joinStr '', '' (map renderField ?fs) @ CHR '','' # CHR '' '' # joinStr '', '' (map renderField ?gs)"
  have tok: "digestToken \<lparr>cr_username = user, cr_password = pw\<rparr> 1 rnd req (digestChallenge nonce) = ''Digest '' @ ?t"
    unfolding own_token_fields [OF assms] by simp
  have "trimSpace (CHR '' '' # ?t) = ?t"
    unfolding trimSpace_cons_space by (rule trimmed_ends) (simp_all add: quoted_def isSpace_def)
  moreover have "trimPrefix (''Digest '' @ s) ''Digest'' = CHR '' '' # s" for s by (simp add: trimPrefix_def)
  ultimately have p: "parseAuthHeader (trimSpace (trimPrefix (''Digest '' @ ?t) ''Digest'')) =
      fold parseParam (splitChar CHR '','' ?t) Map.empty"
    unfolding parseAuthHeader_def parseParams_def by (simp only:)
  have ok: "\<forall>f\<in>set ?gs. fieldOk f"
    by (auto simp: digestResponse_def md5Hex_def) (auto simp: plainValue_def isSpace_def)
  have "\<forall>p\<in>set (map renderField gs). CHR '','' \<notin> set p" if "\<forall>f\<in>set gs. fieldOk f" for gs
    using that renderField_no_comma by auto
  from splitChar_joinStr_space [OF _ this [OF ok]]
  have "splitChar CHR '','' (joinStr '', '' (map renderField ?gs)) = hd (map renderField ?gs) # map (Cons CHR '' '') (tl (map renderField ?gs))"
    by simp
  then have sp: "splitChar CHR '','' (CHR '' '' # joinStr '', '' (map renderField ?gs)) = map (Cons CHR '' '') (map renderField ?gs)"
    using splitChar_cons [of "CHR '' ''" "CHR '',''" "joinStr '', '' (map renderField ?gs)"]
    by (simp only: list.sel list.map char.inject simp_thms if_True)
  have "fold parseParam (splitChar CHR '','' ?t) Map.empty =
      fold (\<lambda>f m. m(fst f \<mapsto> fst (snd f))) ?gs (fold parseParam (splitChar CHR '','' (joinStr '', '' (map renderField ?fs))) Map.empty)"
    unfolding splitChar_append2 sp fold_append comp_apply by (rule fold_parseParam_fields [OF ok])
  then show ?thesis unfolding tok p by (simp add: param_def)
qed

lemma verifyDigest_entitled:
  assumes "cs_digestNonce st = [] \<or> plainValue (cs_digestNonce st)"
  shows "verifyDigest h tk r st value \<longleftrightarrow> digestEntitled h tk r st value"
proof (cases "cs_digestNonce st = []")
  case False
  then have n: "plainValue (cs_digestNonce st)" using assms by simp
  show ?thesis
    unfolding verifyDigest_def digestEntitled_def Let_def own_token_response [OF n]
    by (auto simp: parseAuthHeader_def equalFold_def)
qed (simp add: verifyDigest_def digestEntitled_def)

lemma verifyNTLM_entitled: "(\<exists>hd. fst (verifyNTLM env h payload st) = Return (True, hd)) \<longleftrightarrow> ntlmEntitled env h payload st"
  by (auto simp: verifyNTLM_def ntlmEntitled_def split: option.split prod.split bool.split)

lemma verifyNegotiate_entitled:
  "(\<exists>hd. fst (verifyNegotiate env h payload st) = Return (True, hd)) \<longleftrightarrow>
    (if hasPrefix payload ''TlRMTVNTUA'' then ntlmEntitled env h payload st else spnegoEntitled env h payload st)"
proof (cases "hasPrefix payload ''TlRMTVNTUA''")
  case True
  then show ?thesis by (simp add: verifyNegotiate_def verifyNTLM_entitled)
next
  case False
  then show ?thesis
    by (cases "cs_sspi st"; cases "ce_newSSPI env"; cases "b64decode payload")
      (auto simp: verifyNegotiate_def spnegoEntitled_def split: option.splits prod.splits if_splits)
qed

lemma proven_entitled:
  assumes "cs_digestNonce st = [] \<or> plainValue (cs_digestNonce st)"
  shows "proven env h tk r st \<longleftrightarrow> entitled env h tk r st"
  unfolding proven_def entitled_def Let_def verifyBasic_entitled verifyDigest_entitled [OF assms] verifyNTLM_entitled
    verifyNegotiate_entitled by auto

section \<open>What a refusal carries\<close>

definition challengesFor :: "tick \<Rightarrow> string \<Rightarrow> string \<Rightarrow> string list" where
  "challengesFor tk remoteAddr method =
     (if method = ''BASIC'' then [quoted ''Basic realm'' ''PxClient'']
      else if method = ''DIGEST'' then [''Digest '' @ digestChallenge (issueNonce tk remoteAddr)]
      else if method = ''NTLM'' then [''NTLM''] else if method = ''NEGOTIATE'' then [''Negotiate''] else [])"

lemma challenge_carries:
  assumes "challenge h tk st ra = (headers, st')"
  shows "hdrValues headers ''Proxy-Authenticate'' = concat (map (challengesFor tk ra) (h_methods h))"
    and "cs_digestNonce st' = (if ''DIGEST'' \<in> set (h_methods h) then issueNonce tk ra else cs_digestNonce st)"
proof -
  have "hdrValues (fst (fold (challengeMethod tk ra) ms (hs, st))) ''Proxy-Authenticate'' =
      hdrValues hs ''Proxy-Authenticate'' @ concat (map (challengesFor tk ra) ms) \<and>
     cs_digestNonce (snd (fold (challengeMethod tk ra) ms (hs, st))) = (if ''DIGEST'' \<in> set ms then issueNonce tk ra else cs_digestNonce st)"
    for ms hs and st :: "('a, 'b) clientState"
  proof (induction ms arbitrary: hs st)
    case (Cons m ms)
    obtain hs1 st1 where c: "challengeMethod tk ra m (hs, st) = (hs1, st1)" by fastforce
    have "hdrValues hs1 ''Proxy-Authenticate'' = hdrValues hs ''Proxy-Authenticate'' @ challengesFor tk ra m"
      "cs_digestNonce st1 = (if m = ''DIGEST'' then issueNonce tk ra else cs_digestNonce st)"
      using c by (auto simp: challengeMethod_def challengesFor_def Let_def hdrValues_add split: if_splits)
    then show ?case using Cons.IH [of hs1 st1] c by auto
  qed simp
  from this [of "h_methods h" "[]" st] assms
  show "hdrValues headers ''Proxy-Authenticate'' = concat (map (challengesFor tk ra) (h_methods h))"
    and "cs_digestNonce st' = (if ''DIGEST'' \<in> set (h_methods h) then issueNonce tk ra else cs_digestNonce st)"
    by (simp_all add: challenge_def hdrValues_def)
qed

text \<open>A message of the NTLM or SPNEGO exchange, as a challenge.\<close>

definition continuation :: "string \<Rightarrow> bool" where
  "continuation v \<longleftrightarrow> (\<exists>msg. v = ''NTLM '' @ b64encode msg \<or> v = ''Negotiate '' @ b64encode msg)"

lemma verify_continues:
  "fst (verifyNTLM env h payload st) = Return (False, v) \<Longrightarrow> continuation v"
  "fst (verifyNegotiate env h payload st) = Return (False, v) \<Longrightarrow> continuation v"
  "cs_digestNonce (snd (verifyNTLM env h payload st)) = cs_digestNonce st"
  "cs_digestNonce (snd (verifyNegotiate env h payload st)) = cs_digestNonce st"
proof -
  show n: "fst (verifyNTLM env h payload st) = Return (False, v) \<Longrightarrow> continuation v" for v
    by (auto simp: verifyNTLM_def continuation_def split: option.splits prod.splits bool.splits if_splits)
  show d: "cs_digestNonce (snd (verifyNTLM env h payload st)) = cs_digestNonce st"
    by (auto simp: verifyNTLM_def split: option.split prod.split bool.split)
  show "fst (verifyNegotiate env h payload st) = Return (False, v) \<Longrightarrow> continuation v"
  proof (cases "hasPrefix payload ''TlRMTVNTUA''")
    case True
    then show "fst (verifyNegotiate env h payload st) = Return (False, v) \<Longrightarrow> continuation v"
      using n by (simp add: verifyNegotiate_def)
  qed (auto simp: verifyNegotiate_def continuation_def split: option.splits prod.splits bool.splits if_splits)
  show "cs_digestNonce (snd (verifyNegotiate env h payload st)) = cs_digestNonce st"
    by (auto simp: verifyNegotiate_def d split: option.split prod.split bool.split)
qed

lemma Authenticate_refusal_cases:
  assumes "enabled h" "\<not> cs_authed st" "Authenticate env h tk r st = (False, hs, err, st')"
  obtains "refuse h tk r st = (False, hs, err, st')"
  | payload where "handshake h tk r (verifyNTLM env h payload st) = (False, hs, err, st')"
  | payload where "handshake h tk r (verifyNegotiate env h payload st) = (False, hs, err, st')"
  using assms by (auto simp: Authenticate_def Let_def split: prod.splits if_splits)

lemma Authenticate_refusal:
  assumes "enabled h" "\<not> cs_authed st" "Authenticate env h tk r st = (False, hs, err, st')"
  shows "\<exists>headers. hs = Some headers \<and>
    (hdrValues headers ''Proxy-Authenticate'' = concat (map (challengesFor tk (r_remoteAddr r)) (h_methods h)) \<and>
       (''DIGEST'' \<in> set (h_methods h) \<longrightarrow> cs_digestNonce st' = issueNonce tk (r_remoteAddr r)) \<or>
     (\<exists>v. hdrValues headers ''Proxy-Authenticate'' = [v] \<and> continuation v))"
    and "cs_digestNonce st' = cs_digestNonce st \<or> cs_digestNonce st' = issueNonce tk (r_remoteAddr r)"
proof -
  let ?ref = "\<lambda>hs st'. (\<exists>headers. hs = Some headers \<and>
    (hdrValues headers ''Proxy-Authenticate'' = concat (map (challengesFor tk (r_remoteAddr r)) (h_methods h)) \<and>
       (''DIGEST'' \<in> set (h_methods h) \<longrightarrow> cs_digestNonce st' = issueNonce tk (r_remoteAddr r)) \<or>
     (\<exists>v. hdrValues headers ''Proxy-Authenticate'' = [v] \<and> continuation v))) \<and>
    (cs_digestNonce st' = cs_digestNonce st \<or> cs_digestNonce st' = issueNonce tk (r_remoteAddr r))"
  have refuse: "?ref hs st'" if "refuse h tk r st1 = (False, hs, err, st')" "cs_digestNonce st1 = cs_digestNonce st" for st1
    using that challenge_carries [of h tk st1 "r_remoteAddr r"] by (auto simp: refuse_def split: prod.splits)
  have hand: "?ref hs st'" if "handshake h tk r res = (False, hs, err, st')" "cs_digestNonce (snd res) = cs_digestNonce st"
    "\<And>v. fst res = Return (False, v) \<Longrightarrow> continuation v" for res
  proof -
    obtain x st1 where res: "res = (x, st1)" by fastforce
    show ?thesis
    proof (cases "\<exists>v. x = Return (False, v) \<and> v \<noteq> []")
      case True
      then obtain v where v: "x = Return (False, v)" "v \<noteq> []" by blast
      have "hdrValues (hdrAdd [] ''Proxy-Authenticate'' v) ''Proxy-Authenticate'' = [v]"
        by (simp add: hdrValues_add) (simp add: hdrValues_def)
      then show ?thesis using that(1,2) that(3) [of v] v res by (auto simp: handshake_def)
    next
      case False
      then have "refuse h tk r st1 = (False, hs, err, st')"
        using that(1) res by (cases x) (auto simp: handshake_def split: prod.splits bool.splits if_splits)
      then show ?thesis using refuse that(2) res by simp
    qed
  qed
  have "?ref hs st'"
    using refuse [OF _ refl] hand [OF _ verify_continues(3,1)] hand [OF _ verify_continues(4,2)]
    by (cases rule: Authenticate_refusal_cases [OF assms])
  then show "\<exists>headers. hs = Some headers \<and>
    (hdrValues headers ''Proxy-Authenticate'' = concat (map (challengesFor tk (r_remoteAddr r)) (h_methods h)) \<and>
       (''DIGEST'' \<in> set (h_methods h) \<longrightarrow> cs_digestNonce st' = issueNonce tk (r_remoteAddr r)) \<or>
     (\<exists>v. hdrValues headers ''Proxy-Authenticate'' = [v] \<and> continuation v))"
    and "cs_digestNonce st' = cs_digestNonce st \<or> cs_digestNonce st' = issueNonce tk (r_remoteAddr r)" by auto
qed



text \<open>C25: the proxy's own Basic client and its Basic verifier agree.  A request with the header a
  \<^verbatim>\<open>BasicSession\<close> produces is accepted exactly when user and password are the configured ones (the
  user up to case), or, without a configured user, the password is the one in the key ring.\<close>

theorem basic_login:
  assumes "enabled h" "\<not> cs_authed st" "user \<noteq> []" "CHR '':'' \<notin> set user"
    and "token aenv rnd req ch (BasicSession \<lparr>cr_username = user, cr_password = pass\<rparr>) = (Return (hv, d), s)"
    and "hdrGet (r_header r) ''Proxy-Authorization'' = hv"
  shows "fst (Authenticate env h tk r st) \<longleftrightarrow>
    (if h_username h \<noteq> [] then equalFold user (h_username h) \<and> pass = h_password h
     else ce_keyring env ''PxClient'' user = Some pass)"
proof -
  let ?b = "b64encode (user @ '':'' @ pass)"
  have hv: "hv = ''Basic'' @ '' '' @ ?b" using assms(3,5) by (simp add: basicToken_def)
  have cut: "cutChar CHR '' '' hv = (''Basic'', ?b, True)" unfolding hv by (rule cut_space_word) simp
  have up: "toUpper (trimSpace ''Basic'') = ''BASIC''" by (simp add: go_simps)
  have ne: "hv \<noteq> []" by (simp add: hv)
  have "fst (Authenticate env h tk r st) = verifyBasic env h ?b"
    using assms(1,2,6) ne refuse_verdict [of h tk r st]
    by (auto simp: Authenticate_def Let_def cut up)
  also have "verifyBasic env h ?b \<longleftrightarrow>
      (if h_username h \<noteq> [] then equalFold user (h_username h) \<and> pass = h_password h
       else ce_keyring env ''PxClient'' user = Some pass)"
    using usernameFromBasic_encode [OF assms(4), of pass] assms(3)
    by (auto simp: verifyBasic_def split: option.split)
  finally show ?thesis .
qed

theorem basic_login_witness:
  "fst (Authenticate bareEnv (joeHandler [''BASIC'']) zeroTick (authRequest (''Basic '' @ b64encode ''joe:pw'')) newState)"
proof -
  have "token bareAuthEnv [] (authRequest []) [] (BasicSession \<lparr>cr_username = ''joe'', cr_password = ''pw''\<rparr>) =
      (Return (''Basic '' @ b64encode ''joe:pw'', True), BasicSession \<lparr>cr_username = ''joe'', cr_password = ''pw''\<rparr>)"
    by (simp add: basicToken_def del: b64encode.simps)
  moreover have "enabled (joeHandler [''BASIC''])" "\<not> cs_authed newState"
    by (simp_all add: enabled_def joeHandler_def newState_def)
  ultimately have "fst (Authenticate bareEnv (joeHandler [''BASIC'']) zeroTick (authRequest (''Basic '' @ b64encode ''joe:pw'')) newState) \<longleftrightarrow>
      (if h_username (joeHandler [''BASIC'']) \<noteq> [] then equalFold ''joe'' (h_username (joeHandler [''BASIC''])) \<and>
         ''pw'' = h_password (joeHandler [''BASIC'']) else ce_keyring bareEnv ''PxClient'' ''joe'' = Some ''pw'')"
    by (intro basic_login) (auto simp: authRequest_get simp del: b64encode.simps)
  then show ?thesis by (simp add: joeHandler_def)
qed

text \<open>The schemes the handler was configured with limit what it offers, not what it accepts: a
  correct Basic header logs in although \<^verbatim>\<open>BASIC\<close> is not among the configured methods.\<close>

lemma basic_accepted_when_not_offered:
  assumes "enabled h" "\<not> cs_authed st" "''BASIC'' \<notin> set (h_methods h)" "h_username h \<noteq> []" "CHR '':'' \<notin> set (h_username h)"
    and "hdrGet (r_header r) ''Proxy-Authorization'' = ''Basic '' @ b64encode (h_username h @ '':'' @ h_password h)"
  shows "fst (Authenticate env h tk r st)"
proof -
  let ?b = "b64encode (h_username h @ '':'' @ h_password h)"
  have cut: "cutChar CHR '' '' (''Basic '' @ ?b) = (''Basic'', ?b, True)"
    using cut_space_word [of "''Basic''" ?b] by simp
  have up: "toUpper (trimSpace ''Basic'') = ''BASIC''" by (simp add: go_simps)
  have "verifyBasic env h ?b"
    using usernameFromBasic_encode [OF assms(5)] assms(4) by (simp add: verifyBasic_def)
  then show ?thesis using assms(1,2,6) cut up by (simp add: Authenticate_def Let_def)
qed

lemma basic_accepted_when_not_offered_witness:
  "fst (Authenticate bareEnv (joeHandler [''NTLM'']) zeroTick (authRequest (''Basic '' @ b64encode ''joe:pw'')) newState)"
  by (rule basic_accepted_when_not_offered)
    (simp_all add: authRequest_get enabled_def joeHandler_def newState_def del: b64encode.simps)

text \<open>Digest verification compares the client's response with one computed from a client nonce the
  server draws itself.  A correct client that answers the server's challenge is accepted only if
  the two client nonces, or the digests by coincidence, agree.\<close>

lemma digest_login_needs_same_cnonce:
  assumes "plainValue user" "plainValue (RequestURI r)" "plainValue nonce" "nonce \<noteq> []" "pw \<noteq> []"
    and "cs_digestNonce st = nonce" "tk_now tk - cs_digestIssuedAt st \<le> 5 * 60 * 10 ^ 9"
    and "h_username h = user" "h_password h = pw"
    and "token aenv rnd r (digestChallenge nonce) (DigestSession \<lparr>cr_username = user, cr_password = pw\<rparr> 0) = (Return (hv, d), s)"
  shows "verifyDigest h tk r st hv \<longleftrightarrow>
    digestResponse user pw r nonce (hexEncode (tk_random tk)) = digestResponse user pw r nonce (hexEncode rnd)"
proof -
  have hv: "hv = digestToken \<lparr>cr_username = user, cr_password = pw\<rparr> 1 rnd r (digestChallenge nonce)"
    using assms(10) by simp
  note c = own_token_params [OF assms(3,1,2) refl, of pw rnd]
  note e = own_token_params [OF assms(3,1,2) refl, of pw "tk_random tk"]
  show ?thesis
    using assms(4-9) c e unfolding verifyDigest_def hv Let_def by simp
qed

lemma digest_login_needs_same_cnonce_witness:
  "let r = authRequest []; st = (newState :: (unit, unit) clientState)\<lparr>cs_digestNonce := ''abc''\<rparr>
   in verifyDigest (joeHandler [''DIGEST'']) zeroTick r st
        (digestToken \<lparr>cr_username = ''joe'', cr_password = ''pw''\<rparr> 1 ''c'' r (digestChallenge ''abc'')) \<longleftrightarrow>
      digestResponse ''joe'' ''pw'' r ''abc'' (hexEncode ''s'') = digestResponse ''joe'' ''pw'' r ''abc'' (hexEncode ''c'')"
proof -
  let ?st = "(newState :: (unit, unit) clientState)\<lparr>cs_digestNonce := ''abc''\<rparr>"
  have "token bareAuthEnv ''c'' (authRequest []) (digestChallenge ''abc'') (DigestSession \<lparr>cr_username = ''joe'', cr_password = ''pw''\<rparr> 0) =
      (Return (digestToken \<lparr>cr_username = ''joe'', cr_password = ''pw''\<rparr> 1 ''c'' (authRequest []) (digestChallenge ''abc''), True),
       DigestSession \<lparr>cr_username = ''joe'', cr_password = ''pw''\<rparr> 1)" by simp
  then have "verifyDigest (joeHandler [''DIGEST'']) zeroTick (authRequest []) ?st
        (digestToken \<lparr>cr_username = ''joe'', cr_password = ''pw''\<rparr> 1 ''c'' (authRequest []) (digestChallenge ''abc'')) \<longleftrightarrow>
      digestResponse ''joe'' ''pw'' (authRequest []) ''abc'' (hexEncode (tk_random zeroTick)) =
      digestResponse ''joe'' ''pw'' (authRequest []) ''abc'' (hexEncode ''c'')"
    by (intro digest_login_needs_same_cnonce)
      (auto simp: plainValue_def RequestURI_def authRequest_def newState_def zeroTick_def joeHandler_def)
  then show ?thesis unfolding Let_def by (simp only: zeroTick_def tick.simps)
qed

end
