(* ===== verification/Go_Float.thy ===== *)
theory Go_Float
  imports Go_Strings "HOL-Library.Log_Nat"
begin

text \<open>
  The \<^verbatim>\<open>float64\<close> arithmetic behind the \<^verbatim>\<open>socktimeout\<close> setting.  A finite non-negative double is a
  pair \<open>(m, e)\<close> with value \<open>m * 2 ^ e\<close>; \<open>round53\<close> rounds a quotient of naturals to the nearest
  double, ties to even.  Subnormal numbers are not distinguished: they are far below the
  nanosecond the results are truncated to.  Hexadecimal floating-point text is not accepted here.
\<close>

section \<open>Rounding\<close>

definition scaleDiv :: "nat \<Rightarrow> nat \<Rightarrow> int \<Rightarrow> nat \<times> nat" where
  "scaleDiv n d e = (if e < 0 then (n * 2 ^ nat (- e), d) else (n, d * 2 ^ nat e))"

definition divEven :: "nat \<times> nat \<Rightarrow> nat" where
  "divEven nd =
     (case nd of (n, d) \<Rightarrow>
        (let q = n div d; r = n mod d
         in if 2 * r > d \<or> 2 * r = d \<and> odd q then q + 1 else q))"

definition round53 :: "nat \<Rightarrow> nat \<Rightarrow> nat \<times> int" where
  "round53 n d =
     (if n = 0 then (0, 0)
      else
        (let e0 = int (floorlog 2 n) - int (floorlog 2 d) - 53;
             e = (case scaleDiv n d e0 of (a, b) \<Rightarrow> if a div b \<ge> 2 ^ 53 then e0 + 1 else e0)
         in (divEven (scaleDiv n d e), e)))"

text \<open>The value of a double as a fraction, and its integer part.\<close>

definition dblFrac :: "nat \<times> int \<Rightarrow> nat \<times> nat" where
  "dblFrac x = (case x of (m, e) \<Rightarrow> if e < 0 then (m, 2 ^ nat (- e)) else (m * 2 ^ nat e, 1))"

definition dblFloor :: "nat \<times> int \<Rightarrow> nat" where
  "dblFloor x = (case dblFrac x of (a, b) \<Rightarrow> a div b)"

definition dblMul :: "nat \<times> int \<Rightarrow> nat \<Rightarrow> nat \<times> int" where
  "dblMul x k = (case dblFrac x of (a, b) \<Rightarrow> round53 (a * k) b)"

definition dblDiv :: "nat \<times> int \<Rightarrow> nat \<Rightarrow> nat \<times> int" where
  "dblDiv x k = (case dblFrac x of (a, b) \<Rightarrow> round53 a (b * k))"

definition dblAdd :: "nat \<times> int \<Rightarrow> nat \<times> int \<Rightarrow> nat \<times> int" where
  "dblAdd x y = (case (dblFrac x, dblFrac y) of ((a, b), (c, d)) \<Rightarrow> round53 (a * d + c * b) (b * d))"

section \<open>Parsing\<close>

definition takeDigits :: "string \<Rightarrow> string \<times> string" where
  "takeDigits s = (takeWhile (\<lambda>c. digitVal c \<noteq> None) s, dropWhile (\<lambda>c. digitVal c \<noteq> None) s)"

definition digitsNat :: "string \<Rightarrow> nat" where
  "digitsNat s = (case parseDigits 0 s of None \<Rightarrow> 0 | Some n \<Rightarrow> n)"

definition parseExponent :: "string \<Rightarrow> int option" where
  "parseExponent s =
     (case s of
        [] \<Rightarrow> Some 0
      | c # cs \<Rightarrow>
          if c = CHR ''e'' \<or> c = CHR ''E'' then
            (let (neg, ds) = (case cs of [] \<Rightarrow> (False, [])
                | d # rest \<Rightarrow> if d = CHR ''-'' then (True, rest) else if d = CHR ''+'' then (False, rest) else (False, cs))
             in if ds \<noteq> [] \<and> list_all (\<lambda>c. digitVal c \<noteq> None) ds
                then Some (if neg then - int (digitsNat ds) else int (digitsNat ds)) else None)
          else None)"

text \<open>The magnitude of a decimal number, \<^const>\<open>None\<close> for bad syntax or a value out of range.\<close>

definition parseMagnitude :: "string \<Rightarrow> (nat \<times> int) option" where
  "parseMagnitude s =
     (let (ip, r1) = takeDigits s;
          (fp, r2) = (if hasPrefix r1 ''.'' then takeDigits (tl r1) else ([], r1))
      in if ip = [] \<and> fp = [] then None
         else
           (case parseExponent r2 of
              None \<Rightarrow> None
            | Some ex \<Rightarrow>
                (let n = digitsNat (ip @ fp); e10 = ex - int (length fp);
                     x = (if e10 < 0 then round53 n (10 ^ nat (- e10)) else round53 (n * 10 ^ nat e10) 1)
                 in if dblFloor x \<ge> 2 ^ 1024 then None else Some x)))"

text \<open>\<^verbatim>\<open>time.Duration(v * float64(time.Second))\<close> of a parsed text: the product is rounded and truncated;
  what does not fit 64 bits (the infinities and \<^verbatim>\<open>NaN\<close> included) becomes the least integer, as the
  conversion instruction of amd64 gives it.\<close>

definition parseFloatSeconds :: "string \<Rightarrow> int option" where
  "parseFloatSeconds s =
     (let neg = hasPrefix s ''-'';
          body = (if neg \<or> hasPrefix s ''+'' then tl s else s)
      in if toLower body \<in> {''inf'', ''infinity''} \<or> toLower s = ''nan'' then Some (- (2 ^ 63))
         else
           map_option (\<lambda>x. let n = int (dblFloor (dblMul x (10 ^ 9)))
              in if n \<ge> 2 ^ 63 then - (2 ^ 63) else if neg then - n else n)
             (parseMagnitude body))"

section \<open>Printing\<close>

text \<open>\<^verbatim>\<open>Duration.Seconds()\<close> and \<^verbatim>\<open>FormatFloat(x, 'f', 1, 64)\<close>.\<close>

definition seconds :: "nat \<Rightarrow> nat \<times> int" where
  "seconds d = dblAdd (round53 (d div 10 ^ 9) 1) (dblDiv (round53 (d mod 10 ^ 9) 1) (10 ^ 9))"

definition formatDbl1 :: "bool \<Rightarrow> nat \<times> int \<Rightarrow> string" where
  "formatDbl1 neg x =
     (let tenths = divEven (case dblFrac x of (a, b) \<Rightarrow> (10 * a, b))
      in (if neg then ''-'' else []) @ itoaNat (tenths div 10) @ ''.'' @ itoaNat (tenths mod 10))"

definition formatFloat1 :: "int \<Rightarrow> string" where
  "formatFloat1 d = formatDbl1 (d < 0) (seconds (nat \<bar>d\<bar>))"

section \<open>Whole numbers are exact\<close>

lemma divEven_exact: "0 < d \<Longrightarrow> divEven (q * d, d) = q"
  by (simp add: divEven_def)

lemma floorlog_mult:
  fixes n q :: nat
  assumes "0 < n" "0 < q"
  shows "floorlog 2 (n * q) = floorlog 2 n + floorlog 2 q \<or> Suc (floorlog 2 (n * q)) = floorlog 2 n + floorlog 2 q"
proof -
  let ?a = "floorlog 2 n" and ?b = "floorlog 2 q" and ?c = "floorlog 2 (n * q)"
  have pos: "0 < ?a" "0 < ?b" "0 < n * q" using assms by (simp_all add: floorlog_def)
  have n: "2 ^ (?a - 1) \<le> n" "n < 2 ^ ?a" using floorlog_bounds [of n 2] assms by auto
  have q: "2 ^ (?b - 1) \<le> q" "q < 2 ^ ?b" using floorlog_bounds [of q 2] assms by auto
  have c: "2 ^ (?c - 1) \<le> n * q" "n * q < 2 ^ ?c" using floorlog_bounds [of "n * q" 2] pos(3) by auto
  have "n * q < 2 ^ (?a + ?b)"
    unfolding power_add by (rule mult_strict_mono [OF n(2) q(2)]) simp_all
  then have "(2 :: nat) ^ (?c - 1) < 2 ^ (?a + ?b)" using c(1) by linarith
  then have u: "?c - 1 < ?a + ?b" by simp
  have "2 ^ (?a - 1) * 2 ^ (?b - 1) \<le> n * q" by (rule mult_le_mono [OF n(1) q(1)])
  then have "(2 :: nat) ^ (?a - 1 + (?b - 1)) < 2 ^ ?c" using c(2) by (simp add: power_add)
  then have "?a - 1 + (?b - 1) < ?c" by simp
  then show ?thesis using u pos by linarith
qed

lemma round53_whole:
  assumes "0 < n" "n < 2 ^ 53" "0 < q"
  shows "dblFrac (round53 (n * q) q) = (n * 2 ^ (53 - floorlog 2 n), 2 ^ (53 - floorlog 2 n))"
proof -
  let ?L = "floorlog 2 n"
  have lb: "2 ^ (?L - 1) \<le> n" "n < 2 ^ ?L" using floorlog_bounds [of n 2] assms(1) by auto
  have L0: "0 < ?L" using assms(1) by (simp add: floorlog_def)
  have L: "?L \<le> 53"
  proof (rule ccontr)
    assume "\<not> ?L \<le> 53"
    then have "(2 :: nat) ^ 53 \<le> 2 ^ (?L - 1)" by (intro power_increasing) auto
    then show False using lb(1) assms(2) by linarith
  qed
  have ge: "(2 :: nat) ^ 53 \<le> n * 2 ^ (54 - ?L)"
  proof -
    have "(2 :: nat) ^ 53 = 2 ^ (?L - 1) * 2 ^ (54 - ?L)" using L L0 by (simp add: power_add [symmetric])
    then show ?thesis using mult_le_mono1 [OF lb(1), of "2 ^ (54 - ?L)"] by (simp only:)
  qed
  have lt: "n * 2 ^ (53 - ?L) < (2 :: nat) ^ 53"
  proof -
    have "(2 :: nat) ^ 53 = 2 ^ ?L * 2 ^ (53 - ?L)" using L by (simp add: power_add [symmetric])
    then show ?thesis using mult_strict_right_mono [OF lb(2), of "2 ^ (53 - ?L)"] by simp
  qed
  have sc: "scaleDiv (n * q) q e = (n * 2 ^ nat (- e) * q, q)" if "e \<le> 0" for e
    using that by (cases "e = 0") (simp_all add: scaleDiv_def mult.commute mult.left_commute)
  have r: "round53 (n * q) q = (n * 2 ^ (53 - ?L), int ?L - 53)"
  proof (cases "floorlog 2 (n * q) = ?L + floorlog 2 q")
    case True
    have e: "int (floorlog 2 (n * q)) - int (floorlog 2 q) - 53 = int ?L - 53" by (simp add: True)
    have k: "nat (- (int ?L - 53)) = 53 - ?L" "nat (53 - int ?L) = 53 - ?L" using L by linarith+
    show ?thesis
      unfolding round53_def Let_def e using sc [of "int ?L - 53"] L assms lt divEven_exact [of q] by (simp add: k)
  next
    case False
    then have "Suc (floorlog 2 (n * q)) = ?L + floorlog 2 q" using floorlog_mult assms by blast
    then have e: "int (floorlog 2 (n * q)) - int (floorlog 2 q) - 53 = int ?L - 54" by linarith
    have k: "nat (- (int ?L - 54)) = 54 - ?L" "nat (- (int ?L - 53)) = 53 - ?L"
      "nat (54 - int ?L) = 54 - ?L" "nat (53 - int ?L) = 53 - ?L" using L by linarith+
    show ?thesis
      unfolding round53_def Let_def e using sc [of "int ?L - 54"] sc [of "int ?L - 53"] L assms ge divEven_exact [of q]
      by (simp add: k)
  qed
  show ?thesis
  proof (cases "?L = 53")
    case True
    then show ?thesis using r by (simp add: dblFrac_def)
  next
    case False
    then have "int ?L - 53 < 0" "nat (- (int ?L - 53)) = 53 - ?L" using L by linarith+
    then show ?thesis unfolding r dblFrac_def by simp
  qed
qed

lemma dblFrac_zero: "dblFrac (round53 0 d) = (0, 1)"
  by (simp add: round53_def dblFrac_def)

lemma seconds_frac:
  assumes "0 < n" "n < 2 ^ 53"
  shows "dblFrac (seconds (n * 10 ^ 9)) = (n * 2 ^ (53 - floorlog 2 n), 2 ^ (53 - floorlog 2 n))"
proof -
  have "dblFrac (round53 n 1) = (n * 2 ^ (53 - floorlog 2 n), 2 ^ (53 - floorlog 2 n))"
    using round53_whole [of n 1] assms by simp
  then have "seconds (n * 10 ^ 9) = round53 (n * 2 ^ (53 - floorlog 2 n)) (2 ^ (53 - floorlog 2 n))"
    by (simp add: seconds_def dblAdd_def dblDiv_def dblFrac_zero)
  then show ?thesis using round53_whole [of n] assms by simp
qed

lemma seconds_whole:
  assumes "n < 2 ^ 53"
  shows "dblFloor (seconds (n * 10 ^ 9)) = n"
proof (cases "n = 0")
  case True
  then show ?thesis by (simp add: seconds_def dblFloor_def dblAdd_def dblDiv_def dblFrac_zero)
next
  case False
  then show ?thesis using seconds_frac [of n] assms by (simp add: dblFloor_def)
qed

lemma formatFloat1_whole:
  assumes "n < 2 ^ 53"
  shows "formatFloat1 (int n * 10 ^ 9) = itoaNat n @ ''.0''"
proof -
  have a: "nat \<bar>int n * 10 ^ 9\<bar> = n * 10 ^ 9" "\<not> int n * 10 ^ 9 < 0" by (simp_all add: nat_mult_distrib)
  have t: "divEven (case dblFrac (seconds (n * 10 ^ 9)) of (a, b) \<Rightarrow> (10 * a, b)) = 10 * n"
  proof (cases "n = 0")
    case True
    then show ?thesis by (simp add: seconds_def dblAdd_def dblDiv_def dblFrac_zero divEven_def)
  next
    case False
    then show ?thesis
      using seconds_frac [of n] assms divEven_exact [of "2 ^ (53 - floorlog 2 n)" "10 * n"] by (simp add: mult.assoc)
  qed
  have z: "itoaNat 0 = ''0''" by code_simp
  show ?thesis unfolding formatFloat1_def a formatDbl1_def Let_def t using a z by simp
qed

lemma parseFloatSeconds_whole:
  assumes "n * 10 ^ 9 < 2 ^ 53"
  shows "parseFloatSeconds (itoaNat n @ ''.0'') = Some (int n * 10 ^ 9)"
proof -
  have dg: "\<forall>c\<in>set (itoaNat n). digitVal c \<noteq> None" by (rule digits_itoaNat)
  have td: "takeDigits (itoaNat n @ ''.0'') = (itoaNat n, ''.0'')"
    using dg by (simp add: takeDigits_def takeWhile_append2 dropWhile_append2 digitVal_def)
  have t0: "takeDigits ''0'' = (''0'', [])" by (simp add: takeDigits_def digitVal_def)
  have dn: "digitsNat (itoaNat n @ ''0'') = n * 10"
    by (simp add: digitsNat_def parseDigits_append digitVal_def)
  have n53: "n < 2 ^ 53" using assms by simp
  have mag: "parseMagnitude (itoaNat n @ ''.0'') = Some (round53 (n * 10) 10)"
  proof -
    have "dblFloor (round53 (n * 10) 10) \<le> n"
      using round53_whole [of n 10] n53 dblFrac_zero by (cases "n = 0") (simp_all add: dblFloor_def)
    then have "\<not> 2 ^ 1024 \<le> dblFloor (round53 (n * 10) 10)"
      using n53 power_increasing [of 53 1024 "2 :: nat"] by linarith
    then show ?thesis
      by (simp add: parseMagnitude_def td t0 dn parseExponent_def hasPrefix_iff Let_def)
  qed
  have mul: "dblFloor (dblMul (round53 (n * 10) 10) (10 ^ 9)) = n * 10 ^ 9"
  proof (cases "n = 0")
    case True
    then show ?thesis by (simp add: dblMul_def dblFrac_zero dblFloor_def)
  next
    case False
    let ?k = "2 ^ (53 - floorlog 2 n) :: nat"
    have "dblMul (round53 (n * 10) 10) (10 ^ 9) = round53 (n * 10 ^ 9 * ?k) ?k"
      using round53_whole [of n 10] n53 False by (simp add: dblMul_def ac_simps)
    then show ?thesis using round53_whole [of "n * 10 ^ 9" ?k] False assms by (simp add: dblFloor_def)
  qed
  obtain d ds where hd: "itoaNat n = d # ds" by (cases "itoaNat n") auto
  then have d: "digitVal d \<noteq> None" using dg by simp
  have sgn: "\<not> hasPrefix (itoaNat n @ ''.0'') ''-''" "\<not> hasPrefix (itoaNat n @ ''.0'') ''+''"
    using d hd not_digit by (auto simp: hasPrefix_iff)
  have len: "last (toLower (itoaNat n @ ''.0'')) = CHR ''0''" by (simp add: toLower_def lowerChar_def)
  then have sp: "toLower (itoaNat n @ ''.0'') \<notin> {''inf'', ''infinity''}" "toLower (itoaNat n @ ''.0'') \<noteq> ''nan''" by auto
  have lt: "\<not> int (n * 10 ^ 9) \<ge> 2 ^ 63" using assms by simp
  show ?thesis
    unfolding parseFloatSeconds_def Let_def using sgn sp mag mul lt by simp
qed

end
