(* ===== verification/Config.thy ===== *)
theory Config
  imports Network Go_Http Go_Float "HOL-Library.List_Lexorder" "HOL-Library.Char_ord"
begin

text \<open>
  \<^verbatim>\<open>internal/config/config.go\<close>, first part: the configuration record, its defaults, the application of
  a map of textual settings (\<^verbatim>\<open>applyValues\<close>), normalisation, validation, and the saved form.
  Durations are nanoseconds.  A settings map is an association list with distinct keys.
\<close>

section \<open>Data\<close>

datatype logLevel = LevelDebug | LevelInfo | LevelWarn | LevelError

text \<open>\<^verbatim>\<open>slog.Level\<close> is an integer; its order is that of the integers.\<close>

fun levelInt :: "logLevel \<Rightarrow> int" where
  "levelInt LevelDebug = -4"
| "levelInt LevelInfo = 0"
| "levelInt LevelWarn = 4"
| "levelInt LevelError = 8"

instantiation logLevel :: linorder
begin

definition less_eq_logLevel :: "logLevel \<Rightarrow> logLevel \<Rightarrow> bool" where
  "less_eq_logLevel a b \<longleftrightarrow> levelInt a \<le> levelInt b"

definition less_logLevel :: "logLevel \<Rightarrow> logLevel \<Rightarrow> bool" where
  "less_logLevel a b \<longleftrightarrow> levelInt a < levelInt b"

instance
proof
  fix a b c :: logLevel
  show "a < b \<longleftrightarrow> a \<le> b \<and> \<not> b \<le> a" "a \<le> a" "a \<le> b \<or> b \<le> a"
    by (auto simp: less_eq_logLevel_def less_logLevel_def)
  show "a \<le> b \<Longrightarrow> b \<le> c \<Longrightarrow> a \<le> c" by (simp add: less_eq_logLevel_def)
  show "a \<le> b \<Longrightarrow> b \<le> a \<Longrightarrow> a = b" by (cases a; cases b; simp add: less_eq_logLevel_def)
qed

end

record proxyCfg =
  pc_server :: "string list"
  pc_pac :: string
  pc_pacEncoding :: string
  pc_listen :: "string list"
  pc_port :: int
  pc_gateway :: bool
  pc_hostOnly :: bool
  pc_allow :: string
  pc_noProxy :: string
  pc_userAgent :: string
  pc_username :: string
  pc_auth :: string
  pc_kerberos :: bool

record clientCfg =
  cc_username :: string
  cc_auth :: string
  cc_noSSPI :: bool

record settingsCfg =
  st_workers :: int
  st_threads :: int
  st_idle :: int
  st_sockTimeout :: int
  st_proxyReload :: int
  st_foreground :: bool
  st_quiet :: bool
  st_log :: int
  st_logFile :: string
  st_logLevel :: logLevel

record specialCfg =
  sp_configPath :: string
  sp_quit :: bool
  sp_restart :: bool
  sp_testURL :: string
  sp_install :: bool
  sp_uninstall :: bool
  sp_save :: bool
  sp_version :: bool
  sp_healthCheck :: bool
  sp_password :: bool
  sp_clientPassword :: bool

record config =
  cf_proxy :: proxyCfg
  cf_client :: clientCfg
  cf_settings :: settingsCfg
  cf_special :: specialCfg

definition second :: int where
  "second = 10 ^ 9"

definition Default :: config where
  "Default =
     \<lparr>cf_proxy = \<lparr>pc_server = [], pc_pac = [], pc_pacEncoding = ''utf-8'', pc_listen = [''127.0.0.1''], pc_port = 3128,
        pc_gateway = False, pc_hostOnly = False, pc_allow = ''*.*.*.*'', pc_noProxy = [], pc_userAgent = [],
        pc_username = [], pc_auth = ''ANY'', pc_kerberos = False\<rparr>,
      cf_client = \<lparr>cc_username = [], cc_auth = ''NONE'', cc_noSSPI = False\<rparr>,
      cf_settings = \<lparr>st_workers = 1, st_threads = 128, st_idle = 300 * second, st_sockTimeout = 20 * second,
        st_proxyReload = 60 * second, st_foreground = False, st_quiet = False, st_log = 0, st_logFile = [],
        st_logLevel = LevelInfo\<rparr>,
      cf_special = \<lparr>sp_configPath = [], sp_quit = False, sp_restart = False, sp_testURL = [], sp_install = False,
        sp_uninstall = False, sp_save = False, sp_version = False, sp_healthCheck = False, sp_password = False,
        sp_clientPassword = False\<rparr>\<rparr>"

section \<open>Values\<close>

definition parseBool :: "string \<Rightarrow> bool" where
  "parseBool value \<longleftrightarrow> toLower (trimSpace value) \<in> {''1'', ''true'', ''yes'', ''y'', ''on''}"

definition parseLevel :: "string \<Rightarrow> logLevel go_result" where
  "parseLevel raw =
     (let s = toUpper (trimSpace raw)
      in if s = ''DEBUG'' then Return LevelDebug
         else if s = ''INFO'' \<or> s = [] then Return LevelInfo
         else if s = ''WARN'' \<or> s = ''WARNING'' then Return LevelWarn
         else if s = ''ERROR'' then Return LevelError
         else Error ''invalid log level'')"

text \<open>The loop of \<^verbatim>\<open>normalizeCSV\<close>: trimmed, non-empty, first occurrences only.\<close>

fun normalizeItems :: "string set \<Rightarrow> string list \<Rightarrow> string list" where
  "normalizeItems seen [] = []"
| "normalizeItems seen (item0 # items) =
     (let item = trimSpace item0
      in if item = [] \<or> item \<in> seen then normalizeItems seen items
         else item # normalizeItems (insert item seen) items)"

definition normalizeCSV :: "string list \<Rightarrow> string list" where
  "normalizeCSV values = normalizeItems {} values"

definition cfgSplitCSV :: "string \<Rightarrow> string list" where
  "cfgSplitCSV value =
     (if trimSpace value = [] then []
      else filter (\<lambda>part. part \<noteq> []) (map trimSpace (splitChar CHR '','' value)))"

definition boolString :: "bool \<Rightarrow> string" where
  "boolString v = (if v then ''1'' else ''0'')"

text \<open>\<^verbatim>\<open>time.Duration(v) * time.Second\<close> in 64-bit arithmetic.\<close>

definition secondsDuration :: "int \<Rightarrow> int" where
  "secondsDuration v = sint (of_int (v * second) :: 64 word)"

definition setProxy :: "(proxyCfg \<Rightarrow> proxyCfg) \<Rightarrow> config \<Rightarrow> config" where
  "setProxy f c = c\<lparr>cf_proxy := f (cf_proxy c)\<rparr>"

definition setClient :: "(clientCfg \<Rightarrow> clientCfg) \<Rightarrow> config \<Rightarrow> config" where
  "setClient f c = c\<lparr>cf_client := f (cf_client c)\<rparr>"

definition setSettings :: "(settingsCfg \<Rightarrow> settingsCfg) \<Rightarrow> config \<Rightarrow> config" where
  "setSettings f c = c\<lparr>cf_settings := f (cf_settings c)\<rparr>"

definition setSpecial :: "(specialCfg \<Rightarrow> specialCfg) \<Rightarrow> config \<Rightarrow> config" where
  "setSpecial f c = c\<lparr>cf_special := f (cf_special c)\<rparr>"

definition withInt :: "string \<Rightarrow> string \<Rightarrow> (int \<Rightarrow> config) \<Rightarrow> config go_result" where
  "withInt key raw f = (case atoi raw of None \<Rightarrow> Error (''invalid '' @ key) | Some v \<Rightarrow> Return (f v))"

text \<open>The keys whose empty value is applied; for every other key an empty value is skipped.\<close>

definition emptyKeys :: "string list" where
  "emptyKeys = [''listen'', ''server'', ''noproxy'', ''allow'', ''useragent'', ''username'', ''client_username'',
     ''auth'', ''client_auth'', ''pac'']"

section \<open>Applying settings\<close>

text \<open>One turn of the loop of \<^verbatim>\<open>applyValues\<close>: the cases of its \<^verbatim>\<open>switch\<close> in their order.\<close>

definition applyValue :: "string \<Rightarrow> string \<Rightarrow> config \<Rightarrow> config go_result" where
  "applyValue rawKey v c =
     (let key = toLower rawKey
      in if v = [] \<and> key \<notin> set emptyKeys then Return c
         else if key = ''proxy'' then Return (setProxy (\<lambda>p. p\<lparr>pc_server := cfgSplitCSV v\<rparr>) c)
         else if key = ''server'' then Return (setProxy (\<lambda>p. p\<lparr>pc_server := cfgSplitCSV v\<rparr>) c)
         else if key = ''pac'' then Return (setProxy (\<lambda>p. p\<lparr>pc_pac := v\<rparr>) c)
         else if key = ''pac_encoding'' then Return (setProxy (\<lambda>p. p\<lparr>pc_pacEncoding := v\<rparr>) c)
         else if key = ''listen'' then Return (setProxy (\<lambda>p. p\<lparr>pc_listen := cfgSplitCSV v\<rparr>) c)
         else if key = ''port'' then withInt ''port'' v (\<lambda>n. setProxy (\<lambda>p. p\<lparr>pc_port := n\<rparr>) c)
         else if key = ''gateway'' then Return (setProxy (\<lambda>p. p\<lparr>pc_gateway := parseBool v\<rparr>) c)
         else if key = ''hostonly'' then Return (setProxy (\<lambda>p. p\<lparr>pc_hostOnly := parseBool v\<rparr>) c)
         else if key = ''allow'' then Return (setProxy (\<lambda>p. p\<lparr>pc_allow := v\<rparr>) c)
         else if key = ''noproxy'' then Return (setProxy (\<lambda>p. p\<lparr>pc_noProxy := v\<rparr>) c)
         else if key = ''useragent'' then Return (setProxy (\<lambda>p. p\<lparr>pc_userAgent := v\<rparr>) c)
         else if key = ''username'' then Return (setProxy (\<lambda>p. p\<lparr>pc_username := v\<rparr>) c)
         else if key = ''auth'' then Return (setProxy (\<lambda>p. p\<lparr>pc_auth := v\<rparr>) c)
         else if key = ''kerberos'' then Return (setProxy (\<lambda>p. p\<lparr>pc_kerberos := parseBool v\<rparr>) c)
         else if key = ''client_username'' then Return (setClient (\<lambda>p. p\<lparr>cc_username := v\<rparr>) c)
         else if key = ''client_auth'' then Return (setClient (\<lambda>p. p\<lparr>cc_auth := v\<rparr>) c)
         else if key = ''client_nosspi'' then Return (setClient (\<lambda>p. p\<lparr>cc_noSSPI := parseBool v\<rparr>) c)
         else if key = ''workers'' then withInt ''workers'' v (\<lambda>n. setSettings (\<lambda>p. p\<lparr>st_workers := n\<rparr>) c)
         else if key = ''threads'' then withInt ''threads'' v (\<lambda>n. setSettings (\<lambda>p. p\<lparr>st_threads := n\<rparr>) c)
         else if key = ''idle'' then withInt ''idle'' v (\<lambda>n. setSettings (\<lambda>p. p\<lparr>st_idle := secondsDuration n\<rparr>) c)
         else if key = ''socktimeout'' then
           (case parseFloatSeconds v of
              None \<Rightarrow> Error ''invalid socktimeout''
            | Some d \<Rightarrow> Return (setSettings (\<lambda>p. p\<lparr>st_sockTimeout := d\<rparr>) c))
         else if key = ''proxyreload'' then withInt ''proxyreload'' v (\<lambda>n. setSettings (\<lambda>p. p\<lparr>st_proxyReload := secondsDuration n\<rparr>) c)
         else if key = ''foreground'' then Return (setSettings (\<lambda>p. p\<lparr>st_foreground := parseBool v\<rparr>) c)
         else if key = ''log'' then withInt ''log'' v (\<lambda>n. setSettings (\<lambda>p. p\<lparr>st_log := n\<rparr>) c)
         else if key = ''log_file'' then Return (setSettings (\<lambda>p. p\<lparr>st_logFile := v\<rparr>) c)
         else if key = ''log_level'' then
           go_bind (parseLevel v) (\<lambda>l. Return (setSettings (\<lambda>p. p\<lparr>st_logLevel := l\<rparr>) c))
         else if key = ''config'' then Return (setSpecial (\<lambda>p. p\<lparr>sp_configPath := v\<rparr>) c)
         else if key = ''quit'' then Return (setSpecial (\<lambda>p. p\<lparr>sp_quit := parseBool v\<rparr>) c)
         else if key = ''test'' then Return (setSpecial (\<lambda>p. p\<lparr>sp_testURL := (if parseBool v then ''all'' else v)\<rparr>) c)
         else if key = ''install'' then Return (setSpecial (\<lambda>p. p\<lparr>sp_install := parseBool v\<rparr>) c)
         else if key = ''uninstall'' then Return (setSpecial (\<lambda>p. p\<lparr>sp_uninstall := parseBool v\<rparr>) c)
         else if key = ''save'' then Return (setSpecial (\<lambda>p. p\<lparr>sp_save := parseBool v\<rparr>) c)
         else if key = ''version'' then Return (setSpecial (\<lambda>p. p\<lparr>sp_version := parseBool v\<rparr>) c)
         else if key = ''health_check'' then Return (setSpecial (\<lambda>p. p\<lparr>sp_healthCheck := parseBool v\<rparr>) c)
         else if key = ''password'' then Return (setSpecial (\<lambda>p. p\<lparr>sp_password := parseBool v\<rparr>) c)
         else if key = ''client_password'' then Return (setSpecial (\<lambda>p. p\<lparr>sp_clientPassword := parseBool v\<rparr>) c)
         else if key = ''restart'' then Return (setSpecial (\<lambda>p. p\<lparr>sp_restart := parseBool v\<rparr>) c)
         else if key = ''verbose'' then
           Return (if parseBool v
                   then setSettings (\<lambda>p. p\<lparr>st_log := 4, st_foreground := True, st_logLevel := LevelDebug\<rparr>) c else c)
         else if key = ''quiet'' \<or> key = ''silent'' then Return (setSettings (\<lambda>p. p\<lparr>st_quiet := parseBool v\<rparr>) c)
         else Return c)"

text \<open>The loop over the sorted keys.  The configuration is updated in place: what was applied before an
  error stays.\<close>

type_synonym settings = "(string \<times> string) list"

fun applyKeys :: "settings \<Rightarrow> string list \<Rightarrow> config \<Rightarrow> config \<times> string option" where
  "applyKeys vs [] c = (c, None)"
| "applyKeys vs (k # ks) c =
     (case applyValue k (case map_of vs k of None \<Rightarrow> [] | Some v \<Rightarrow> v) c of
        Return c' \<Rightarrow> applyKeys vs ks c'
      | Error e \<Rightarrow> (c, Some e)
      | Panic p \<Rightarrow> (c, Some p))"

definition applyValues :: "settings \<Rightarrow> config \<Rightarrow> config \<times> string option" where
  "applyValues vs c = applyKeys vs (sort (map fst vs)) c"

section \<open>Validation and derived values\<close>

definition validate :: "config \<Rightarrow> string option" where
  "validate c =
     (if pc_port (cf_proxy c) \<le> 0 \<or> pc_port (cf_proxy c) > 65535 then Some ''invalid port''
      else if st_threads (cf_settings c) \<le> 0 then Some ''threads must be > 0''
      else if st_workers (cf_settings c) \<le> 0 then Some ''workers must be > 0''
      else None)"

definition ListenAddresses :: "config \<Rightarrow> string list" where
  "ListenAddresses c =
     (if pc_gateway (cf_proxy c) \<or> pc_hostOnly (cf_proxy c) then ['':'' @ itoa (pc_port (cf_proxy c))]
      else map (\<lambda>l. joinHostPort l (itoa (pc_port (cf_proxy c)))) (pc_listen (cf_proxy c)))"

definition HealthURL :: "config \<Rightarrow> string" where
  "HealthURL c = ''http://127.0.0.1:'' @ itoa (pc_port (cf_proxy c)) @ ''/health''"

section \<open>The saved form\<close>

text \<open>\<^verbatim>\<open>int(d.Seconds())\<close>: the float truncated towards zero.\<close>

definition wholeSeconds :: "int \<Rightarrow> int" where
  "wholeSeconds d = (let n = int (dblFloor (seconds (nat \<bar>d\<bar>))) in if d < 0 then - n else n)"

fun levelString :: "logLevel \<Rightarrow> string" where
  "levelString LevelDebug = ''DEBUG''"
| "levelString LevelInfo = ''INFO''"
| "levelString LevelWarn = ''WARN''"
| "levelString LevelError = ''ERROR''"

text \<open>The keys \<^verbatim>\<open>saveINI\<close> writes: section, key and value.\<close>

definition saveINI :: "config \<Rightarrow> (string \<times> string \<times> string) list" where
  "saveINI c =
     (let p = cf_proxy c; k = cf_client c; s = cf_settings c
      in [(''proxy'', ''server'', joinStr '','' (pc_server p)),
          (''proxy'', ''pac'', pc_pac p),
          (''proxy'', ''pac_encoding'', pc_pacEncoding p),
          (''proxy'', ''listen'', if pc_gateway p \<or> pc_hostOnly p then [] else joinStr '','' (pc_listen p)),
          (''proxy'', ''port'', itoa (pc_port p)),
          (''proxy'', ''gateway'', boolString (pc_gateway p)),
          (''proxy'', ''hostonly'', boolString (pc_hostOnly p)),
          (''proxy'', ''allow'', pc_allow p),
          (''proxy'', ''noproxy'', pc_noProxy p),
          (''proxy'', ''useragent'', pc_userAgent p),
          (''proxy'', ''username'', pc_username p),
          (''proxy'', ''auth'', pc_auth p),
          (''proxy'', ''kerberos'', boolString (pc_kerberos p)),
          (''client'', ''client_username'', cc_username k),
          (''client'', ''client_auth'', cc_auth k),
          (''client'', ''client_nosspi'', boolString (cc_noSSPI k)),
          (''settings'', ''workers'', itoa (st_workers s)),
          (''settings'', ''threads'', itoa (st_threads s)),
          (''settings'', ''idle'', itoa (wholeSeconds (st_idle s))),
          (''settings'', ''socktimeout'', formatFloat1 (st_sockTimeout s)),
          (''settings'', ''proxyreload'', itoa (wholeSeconds (st_proxyReload s))),
          (''settings'', ''foreground'', boolString (st_foreground s)),
          (''settings'', ''log'', itoa (st_log s)),
          (''settings'', ''log_file'', st_logFile s),
          (''settings'', ''log_level'', levelString (st_logLevel s))])"

text \<open>The keys \<^verbatim>\<open>applyINI\<close> reads.  \<open>file\<close> gives the value of a key in a section, empty when missing, as
  the INI package returns it.\<close>

definition iniKeys :: "(string \<times> string) list" where
  "iniKeys =
     map (Pair ''proxy'') [''server'', ''pac'', ''pac_encoding'', ''listen'', ''port'', ''gateway'', ''hostonly'', ''allow'',
        ''noproxy'', ''useragent'', ''username'', ''auth'', ''kerberos''] @
     map (Pair ''client'') [''client_username'', ''client_auth'', ''client_nosspi''] @
     map (Pair ''settings'') [''workers'', ''threads'', ''idle'', ''socktimeout'', ''proxyreload'', ''foreground'', ''log'',
        ''log_file'', ''log_level'']"

definition iniValues :: "(string \<Rightarrow> string \<Rightarrow> string) \<Rightarrow> settings" where
  "iniValues file = map (\<lambda>(sec, key). (key, trimSpace (file sec key))) iniKeys"

definition applyINI :: "(string \<Rightarrow> string \<Rightarrow> string) option \<Rightarrow> config \<Rightarrow> config \<times> string option" where
  "applyINI file c =
     (case file of None \<Rightarrow> (c, Some ''load ini'') | Some f \<Rightarrow> applyValues (iniValues f) c)"

end
