(* ===== verification/Config_Load.thy ===== *)
theory Config_Load
  imports Config
begin

text \<open>
  \<^verbatim>\<open>internal/config/config.go\<close>, second part: command line, file discovery, environment, TOML, and
  \<^verbatim>\<open>Load\<close>, which puts them together.  The operating system and the parsers of INI, TOML and
  \<^verbatim>\<open>.env\<close> files are the fields of \<open>osEnv\<close>.  Path functions are those of Unix.
\<close>

section \<open>Paths\<close>

definition cleanStep :: "bool \<Rightarrow> string \<Rightarrow> string list \<Rightarrow> string list" where
  "cleanStep rooted part stack =
     (if part = [] \<or> part = ''.'' then stack
      else if part = ''..'' then
        (case stack of
           t # rest \<Rightarrow> if t = ''..'' then part # stack else rest
         | [] \<Rightarrow> if rooted then [] else [part])
      else part # stack)"

definition cleanPath :: "string \<Rightarrow> string" where
  "cleanPath p =
     (let rooted = hasPrefix p ''/'';
          body = joinStr ''/'' (rev (fold (cleanStep rooted) (splitChar CHR ''/'' p) []))
      in if rooted then CHR ''/'' # body else if body = [] then ''.'' else body)"

definition joinPath :: "string list \<Rightarrow> string" where
  "joinPath elems =
     (let es = dropWhile (\<lambda>e. e = []) elems in if es = [] then [] else cleanPath (joinStr ''/'' es))"

definition dirPath :: "string \<Rightarrow> string" where
  "dirPath p = cleanPath (case lastCut CHR ''/'' p of None \<Rightarrow> [] | Some (a, b) \<Rightarrow> a @ ''/'')"

definition extPath :: "string \<Rightarrow> string" where
  "extPath p =
     (let base = (case lastCut CHR ''/'' p of None \<Rightarrow> p | Some (a, b) \<Rightarrow> b)
      in case lastCut CHR ''.'' base of None \<Rightarrow> [] | Some (a, b) \<Rightarrow> CHR ''.'' # b)"

definition isAbsPath :: "string \<Rightarrow> bool" where
  "isAbsPath p \<longleftrightarrow> hasPrefix p ''/''"

section \<open>Environment\<close>

record tomlConfig =
  tm_server :: "string list"
  tm_pac :: string
  tm_pacEncoding :: string
  tm_listen :: "string list"
  tm_port :: int
  tm_gateway :: bool
  tm_hostOnly :: bool
  tm_allow :: string
  tm_noProxy :: string
  tm_userAgent :: string
  tm_username :: string
  tm_auth :: string
  tm_kerberos :: bool
  tm_clientUsername :: string
  tm_clientAuth :: string
  tm_clientNoSSPI :: bool
  tm_workers :: int
  tm_threads :: int
  tm_idle :: int
  tm_sockTimeout :: "bool \<times> nat \<times> int"
  tm_proxyReload :: int
  tm_foreground :: bool
  tm_log :: int
  tm_logFile :: string
  tm_logLevel :: string

record osEnv =
  os_exists :: "string \<Rightarrow> bool"
  os_env :: "string \<Rightarrow> string option"
  os_wd :: "string option"
  os_exe :: "string option"
  os_home :: string
  os_goos :: string
  os_ini :: "string \<Rightarrow> (string \<Rightarrow> string \<Rightarrow> string) option"
  os_toml :: "string \<Rightarrow> tomlConfig option"
  os_dotenv :: "string \<Rightarrow> (string \<Rightarrow> string option)"

definition getenv :: "osEnv \<Rightarrow> string \<Rightarrow> string" where
  "getenv w k = (case os_env w k of None \<Rightarrow> [] | Some v \<Rightarrow> v)"

definition mustGetwd :: "osEnv \<Rightarrow> string" where
  "mustGetwd w = (case os_wd w of None \<Rightarrow> ''.'' | Some d \<Rightarrow> d)"

definition scriptDir :: "osEnv \<Rightarrow> string" where
  "scriptDir w = (case os_exe w of None \<Rightarrow> mustGetwd w | Some exe \<Rightarrow> dirPath exe)"

definition ConfigDir :: "osEnv \<Rightarrow> string" where
  "ConfigDir w =
     (if os_goos w = ''windows'' then
        joinPath [if getenv w ''APPDATA'' = [] then joinPath [os_home w, ''AppData'', ''Roaming''] else getenv w ''APPDATA'', ''px'']
      else if os_goos w = ''darwin'' then joinPath [os_home w, ''Library'', ''Application Support'', ''px'']
      else joinPath [if getenv w ''XDG_CONFIG_HOME'' = [] then joinPath [os_home w, ''.config''] else getenv w ''XDG_CONFIG_HOME'', ''px''])"

definition FileURLToLocalPath :: "osEnv \<Rightarrow> string \<Rightarrow> string" where
  "FileURLToLocalPath w fileURL =
     (case urlParse fileURL of
        None \<Rightarrow> fileURL
      | Some parsed \<Rightarrow>
          (let path = u_path parsed
           in if os_goos w = ''windows'' then
                (if length (u_host parsed) = 2 \<and> u_host parsed ! 1 = CHR '':'' then u_host parsed @ path
                 else if hasPrefix path ''/'' \<and> length path > 2 \<and> path ! 2 = CHR '':'' then tl path
                 else path)
              else path))"

section \<open>Command line\<close>

definition putSetting :: "string \<Rightarrow> string \<Rightarrow> settings \<Rightarrow> settings" where
  "putSetting k v vs = (k, v) # filter (\<lambda>(k', _). k' \<noteq> k) vs"

definition argKey :: "string \<Rightarrow> string" where
  "argKey key = toLower (replaceAll (trimSpace key) ''-'' ''_'')"

fun parseArgsLoop :: "settings \<Rightarrow> string list \<Rightarrow> settings go_result" where
  "parseArgsLoop vs [] = Return vs"
| "parseArgsLoop vs (arg # rest) =
     (if \<not> hasPrefix arg ''--'' then Error ''unsupported argument''
      else
        (case cutChar CHR ''='' (trimPrefix arg ''--'') of (key, val, hasValue) \<Rightarrow>
           if hasValue then parseArgsLoop (putSetting (argKey key) (trimSpace val) vs) rest
           else
             (case rest of
                [] \<Rightarrow> Return (putSetting (argKey key) ''true'' vs)
              | next' # rest' \<Rightarrow>
                  if hasPrefix next' ''--'' then parseArgsLoop (putSetting (argKey key) ''true'' vs) rest
                  else parseArgsLoop (putSetting (argKey key) (trimSpace next') vs) rest')))"

definition parseArgs :: "string list \<Rightarrow> settings go_result" where
  "parseArgs args = parseArgsLoop [] args"

definition valueOrEmpty :: "settings \<Rightarrow> string \<Rightarrow> string" where
  "valueOrEmpty vs k = (case map_of vs k of None \<Rightarrow> [] | Some v \<Rightarrow> v)"

section \<open>Files\<close>

definition configCandidates :: "osEnv \<Rightarrow> string list" where
  "configCandidates w =
     concat (map (\<lambda>dir. [joinPath [dir, ''px.toml''], joinPath [dir, ''px.ini'']]) [mustGetwd w, ConfigDir w, scriptDir w])"

definition resolveConfigPath :: "osEnv \<Rightarrow> string \<Rightarrow> string \<times> string option" where
  "resolveConfigPath w explicit =
     (if explicit \<noteq> [] then
        (if os_exists w explicit then (explicit, None) else (explicit, Some (''config '' @ explicit)))
      else
        (let env = trimSpace (getenv w ''PX_CONFIG'')
         in if env \<noteq> [] \<and> os_exists w env then (env, None)
            else (case find (os_exists w) (configCandidates w) of Some p \<Rightarrow> (p, None) | None \<Rightarrow> ([], None))))"

text \<open>\<^verbatim>\<open>godotenv.Load\<close> adds the variables of a file that are not set yet.\<close>

definition dotEnvFiles :: "osEnv \<Rightarrow> string \<Rightarrow> string list" where
  "dotEnvFiles w configPath =
     rev (remdups (rev ([joinPath [mustGetwd w, ''.env'']] @
       (if configPath \<noteq> [] then [joinPath [dirPath configPath, ''.env'']] else []) @ [joinPath [scriptDir w, ''.env'']])))"

definition loadDotEnv :: "osEnv \<Rightarrow> string \<Rightarrow> osEnv" where
  "loadDotEnv w configPath =
     fold (\<lambda>file w. w\<lparr>os_env := os_dotenv w file ++ os_env w\<rparr>) (dotEnvFiles w configPath) w"

definition tomlValues :: "tomlConfig \<Rightarrow> settings" where
  "tomlValues t =
     [(''server'', joinStr '','' (tm_server t)), (''pac'', tm_pac t), (''pac_encoding'', tm_pacEncoding t),
      (''listen'', joinStr '','' (tm_listen t)), (''gateway'', boolString (tm_gateway t)),
      (''hostonly'', boolString (tm_hostOnly t)), (''allow'', tm_allow t), (''noproxy'', tm_noProxy t),
      (''useragent'', tm_userAgent t), (''username'', tm_username t), (''auth'', tm_auth t),
      (''kerberos'', boolString (tm_kerberos t)), (''client_username'', tm_clientUsername t),
      (''client_auth'', tm_clientAuth t), (''client_nosspi'', boolString (tm_clientNoSSPI t)),
      (''foreground'', boolString (tm_foreground t)), (''log_file'', tm_logFile t), (''log_level'', tm_logLevel t)] @
     (if tm_port t \<noteq> 0 then [(''port'', itoa (tm_port t))] else []) @
     (if tm_workers t \<noteq> 0 then [(''workers'', itoa (tm_workers t))] else []) @
     (if tm_threads t \<noteq> 0 then [(''threads'', itoa (tm_threads t))] else []) @
     (if tm_idle t \<noteq> 0 then [(''idle'', itoa (tm_idle t))] else []) @
     (case tm_sockTimeout t of (neg, m, e) \<Rightarrow> if m \<noteq> 0 then [(''socktimeout'', formatDbl1 neg (m, e))] else []) @
     (if tm_proxyReload t \<noteq> 0 then [(''proxyreload'', itoa (tm_proxyReload t))] else []) @
     (if tm_log t \<noteq> 0 then [(''log'', itoa (tm_log t))] else [])"

definition applyTOML :: "tomlConfig option \<Rightarrow> config \<Rightarrow> config \<times> string option" where
  "applyTOML t c = (case t of None \<Rightarrow> (c, Some ''load toml'') | Some t' \<Rightarrow> applyValues (tomlValues t') c)"

definition saveTOML :: "config \<Rightarrow> tomlConfig" where
  "saveTOML c =
     (let p = cf_proxy c; k = cf_client c; s = cf_settings c
      in \<lparr>tm_server = pc_server p, tm_pac = pc_pac p, tm_pacEncoding = pc_pacEncoding p,
          tm_listen = (if pc_gateway p \<or> pc_hostOnly p then [] else pc_listen p), tm_port = pc_port p,
          tm_gateway = pc_gateway p, tm_hostOnly = pc_hostOnly p, tm_allow = pc_allow p, tm_noProxy = pc_noProxy p,
          tm_userAgent = pc_userAgent p, tm_username = pc_username p, tm_auth = pc_auth p, tm_kerberos = pc_kerberos p,
          tm_clientUsername = cc_username k, tm_clientAuth = cc_auth k, tm_clientNoSSPI = cc_noSSPI k,
          tm_workers = st_workers s, tm_threads = st_threads s, tm_idle = wholeSeconds (st_idle s),
          tm_sockTimeout = (case seconds (nat \<bar>st_sockTimeout s\<bar>) of (m, e) \<Rightarrow> (st_sockTimeout s < 0, m, e)),
          tm_proxyReload = wholeSeconds (st_proxyReload s), tm_foreground = st_foreground s, tm_log = st_log s,
          tm_logFile = st_logFile s, tm_logLevel = levelString (st_logLevel s)\<rparr>)"

definition envKeys :: "string list" where
  "envKeys = [''server'', ''pac'', ''pac_encoding'', ''listen'', ''port'', ''gateway'', ''hostonly'', ''allow'', ''noproxy'',
     ''useragent'', ''username'', ''auth'', ''kerberos'', ''client_username'', ''client_auth'', ''client_nosspi'',
     ''workers'', ''threads'', ''idle'', ''socktimeout'', ''proxyreload'', ''foreground'', ''log'', ''log_file'', ''log_level'',
     ''config'', ''quit'', ''test'', ''install'', ''uninstall'', ''save'', ''version'', ''health_check'']"

definition envValues :: "osEnv \<Rightarrow> settings" where
  "envValues w =
     List.map_filter (\<lambda>key. map_option (Pair key) (os_env w (''PX_'' @ toUpper key))) envKeys"

text \<open>The error of \<^verbatim>\<open>applyValues\<close> is discarded; what it applied before the error is kept.\<close>

definition applyEnv :: "osEnv \<Rightarrow> config \<Rightarrow> config" where
  "applyEnv w c = fst (applyValues (envValues w) c)"

section \<open>Load\<close>

definition resolvePACPath :: "osEnv \<Rightarrow> string \<Rightarrow> string \<Rightarrow> string" where
  "resolvePACPath w pac0 configPath =
     (let pac = trimSpace pac0; lower = toLower pac
      in if pac = [] then []
         else if hasPrefix lower ''http://'' \<or> hasPrefix lower ''https://'' \<or> hasPrefix lower ''file://'' then pac
         else if isAbsPath pac then pac
         else joinPath [if configPath \<noteq> [] then dirPath configPath else scriptDir w, pac])"

definition normalize :: "osEnv \<Rightarrow> config \<Rightarrow> config" where
  "normalize w c =
     (let p = cf_proxy c; k = cf_client c;
          server = normalizeCSV (pc_server p);
          listen0 = normalizeCSV (pc_listen p);
          listen1 = (if listen0 = [] then [''127.0.0.1''] else listen0);
          auth0 = toUpper (trimSpace (pc_auth p));
          cauth0 = toUpper (trimSpace (cc_auth k))
      in c\<lparr>cf_proxy := p\<lparr>pc_server := server,
             pc_listen := (if pc_gateway p \<or> pc_hostOnly p then [] else listen1),
             pc_auth := (if auth0 = [] then ''ANY'' else auth0),
             pc_pac := resolvePACPath w (pc_pac p) (sp_configPath (cf_special c))\<rparr>,
           cf_client := k\<lparr>cc_auth := (if cauth0 = [] then ''NONE'' else cauth0)\<rparr>\<rparr>)"

definition setConfigPath :: "string \<Rightarrow> config \<Rightarrow> config" where
  "setConfigPath p c = setSpecial (\<lambda>s. s\<lparr>sp_configPath := p\<rparr>) c"

definition applyFile :: "osEnv \<Rightarrow> string \<Rightarrow> config \<Rightarrow> config \<times> string option" where
  "applyFile w configPath c =
     (if configPath = [] then (c, None)
      else if equalFold (extPath configPath) ''.toml'' then applyTOML (os_toml w configPath) c
      else applyINI (os_ini w configPath) c)"

definition Load :: "osEnv \<Rightarrow> string list \<Rightarrow> config \<times> string option" where
  "Load w args =
     (case parseArgs args of
        Error e \<Rightarrow> (Default, Some e)
      | Panic p \<Rightarrow> (Default, Some p)
      | Return cli \<Rightarrow>
          (case resolveConfigPath w (valueOrEmpty cli ''config'') of
             (_, Some e) \<Rightarrow> (Default, Some e)
           | (configPath, None) \<Rightarrow>
               (case applyFile w configPath (setConfigPath configPath Default) of
                  (c1, Some e) \<Rightarrow> (c1, Some e)
                | (c1, None) \<Rightarrow>
                    (let w' = loadDotEnv w configPath; c2 = applyEnv w' c1
                     in case applyValues cli c2 of
                          (c3, Some e) \<Rightarrow> (c3, Some e)
                        | (c3, None) \<Rightarrow>
                            (let c4 = normalize w' (setConfigPath configPath c3) in (c4, validate c4))))))"

text \<open>\<^verbatim>\<open>resolveLogPath\<close>; the time is in the name of the third kind of file.\<close>

definition resolveLogPath :: "osEnv \<Rightarrow> int \<Rightarrow> config \<Rightarrow> string" where
  "resolveLogPath w nanos c =
     (let s = cf_settings c
      in if st_logFile s \<noteq> [] then st_logFile s
         else if st_log s = 1 then joinPath [scriptDir w, ''debug.log'']
         else if st_log s = 2 then joinPath [mustGetwd w, ''debug.log'']
         else if st_log s = 3 then
           joinPath [mustGetwd w, ''debug-'' @ itoa (pc_port (cf_proxy c)) @ ''-'' @ itoa nanos @ ''.log'']
         else [])"

end
