(* ===== verification/Config_Props.thy ===== *)
theory Config_Props
  imports Config_Load
begin

text \<open>
  Properties of the configuration code: what applying a map of settings does field by field, the
  precedence of command line, environment and file in \<^verbatim>\<open>Load\<close>, validity of what it returns, and
  the round trip through a saved INI file.
\<close>

section \<open>Fields\<close>

text \<open>The fields that settings assign, their values, and the keys that write each.\<close>

datatype field = FServer | FPac | FPacEncoding | FListen | FPort | FGateway | FHostOnly | FAllow | FNoProxy
  | FUserAgent | FUsername | FAuth | FKerberos | FClientUsername | FClientAuth | FClientNoSSPI | FWorkers
  | FThreads | FIdle | FSockTimeout | FProxyReload | FForeground | FLog | FLogFile | FLogLevel

datatype fieldval = VStr string | VList "string list" | VInt int | VBool bool | VLevel logLevel

fun fieldOf :: "field \<Rightarrow> config \<Rightarrow> fieldval" where
  "fieldOf FServer c = VList (pc_server (cf_proxy c))"
| "fieldOf FPac c = VStr (pc_pac (cf_proxy c))"
| "fieldOf FPacEncoding c = VStr (pc_pacEncoding (cf_proxy c))"
| "fieldOf FListen c = VList (pc_listen (cf_proxy c))"
| "fieldOf FPort c = VInt (pc_port (cf_proxy c))"
| "fieldOf FGateway c = VBool (pc_gateway (cf_proxy c))"
| "fieldOf FHostOnly c = VBool (pc_hostOnly (cf_proxy c))"
| "fieldOf FAllow c = VStr (pc_allow (cf_proxy c))"
| "fieldOf FNoProxy c = VStr (pc_noProxy (cf_proxy c))"
| "fieldOf FUserAgent c = VStr (pc_userAgent (cf_proxy c))"
| "fieldOf FUsername c = VStr (pc_username (cf_proxy c))"
| "fieldOf FAuth c = VStr (pc_auth (cf_proxy c))"
| "fieldOf FKerberos c = VBool (pc_kerberos (cf_proxy c))"
| "fieldOf FClientUsername c = VStr (cc_username (cf_client c))"
| "fieldOf FClientAuth c = VStr (cc_auth (cf_client c))"
| "fieldOf FClientNoSSPI c = VBool (cc_noSSPI (cf_client c))"
| "fieldOf FWorkers c = VInt (st_workers (cf_settings c))"
| "fieldOf FThreads c = VInt (st_threads (cf_settings c))"
| "fieldOf FIdle c = VInt (st_idle (cf_settings c))"
| "fieldOf FSockTimeout c = VInt (st_sockTimeout (cf_settings c))"
| "fieldOf FProxyReload c = VInt (st_proxyReload (cf_settings c))"
| "fieldOf FForeground c = VBool (st_foreground (cf_settings c))"
| "fieldOf FLog c = VInt (st_log (cf_settings c))"
| "fieldOf FLogFile c = VStr (st_logFile (cf_settings c))"
| "fieldOf FLogLevel c = VLevel (st_logLevel (cf_settings c))"

fun keyOf :: "field \<Rightarrow> string" where
  "keyOf FServer = ''server''" | "keyOf FPac = ''pac''" | "keyOf FPacEncoding = ''pac_encoding''"
| "keyOf FListen = ''listen''" | "keyOf FPort = ''port''" | "keyOf FGateway = ''gateway''"
| "keyOf FHostOnly = ''hostonly''" | "keyOf FAllow = ''allow''" | "keyOf FNoProxy = ''noproxy''"
| "keyOf FUserAgent = ''useragent''" | "keyOf FUsername = ''username''" | "keyOf FAuth = ''auth''"
| "keyOf FKerberos = ''kerberos''" | "keyOf FClientUsername = ''client_username''"
| "keyOf FClientAuth = ''client_auth''" | "keyOf FClientNoSSPI = ''client_nosspi''"
| "keyOf FWorkers = ''workers''" | "keyOf FThreads = ''threads''" | "keyOf FIdle = ''idle''"
| "keyOf FSockTimeout = ''socktimeout''" | "keyOf FProxyReload = ''proxyreload''"
| "keyOf FForeground = ''foreground''" | "keyOf FLog = ''log''" | "keyOf FLogFile = ''log_file''"
| "keyOf FLogLevel = ''log_level''"

definition otherKeys :: "field \<Rightarrow> string list" where
  "otherKeys f = (case f of FServer \<Rightarrow> [''proxy''] | FForeground \<Rightarrow> [''verbose''] | FLog \<Rightarrow> [''verbose'']
     | FLogLevel \<Rightarrow> [''verbose''] | _ \<Rightarrow> [])"

fun parseField :: "field \<Rightarrow> string \<Rightarrow> fieldval option" where
  "parseField FServer v = Some (VList (cfgSplitCSV v))"
| "parseField FListen v = Some (VList (cfgSplitCSV v))"
| "parseField FPort v = map_option VInt (atoi v)"
| "parseField FWorkers v = map_option VInt (atoi v)"
| "parseField FThreads v = map_option VInt (atoi v)"
| "parseField FLog v = map_option VInt (atoi v)"
| "parseField FIdle v = map_option (VInt \<circ> secondsDuration) (atoi v)"
| "parseField FProxyReload v = map_option (VInt \<circ> secondsDuration) (atoi v)"
| "parseField FSockTimeout v = map_option VInt (parseFloatSeconds v)"
| "parseField FGateway v = Some (VBool (parseBool v))"
| "parseField FHostOnly v = Some (VBool (parseBool v))"
| "parseField FKerberos v = Some (VBool (parseBool v))"
| "parseField FClientNoSSPI v = Some (VBool (parseBool v))"
| "parseField FForeground v = Some (VBool (parseBool v))"
| "parseField FLogLevel v = (case parseLevel v of Return l \<Rightarrow> Some (VLevel l) | _ \<Rightarrow> None)"
| "parseField f v = Some (VStr v)"

lemmas cfg_defs = applyValue_def Let_def withInt_def setProxy_def setClient_def setSettings_def setSpecial_def
  go_bind_Return_iff

text \<open>The if-chain as an elimination: each branch keeps only its own condition.\<close>

lemma if_ReturnE:
  "(if b then x else y) = Return c \<Longrightarrow> (b \<Longrightarrow> x = Return c \<Longrightarrow> P) \<Longrightarrow> (y = Return c \<Longrightarrow> P) \<Longrightarrow> P"
  by (cases b) simp_all

lemma withInt_ReturnE:
  "withInt key raw f = Return c \<Longrightarrow> (\<And>n. atoi raw = Some n \<Longrightarrow> c = f n \<Longrightarrow> P) \<Longrightarrow> P"
  by (auto simp: withInt_def split: option.splits)

lemma option_ReturnE:
  "(case x of None \<Rightarrow> Error e | Some d \<Rightarrow> Return (f d)) = Return c \<Longrightarrow> (\<And>d. x = Some d \<Longrightarrow> c = f d \<Longrightarrow> P) \<Longrightarrow> P"
  by (auto split: option.splits)

lemma bind_ReturnE: "go_bind x (\<lambda>l. Return (f l)) = Return c \<Longrightarrow> (\<And>l. x = Return l \<Longrightarrow> c = f l \<Longrightarrow> P) \<Longrightarrow> P"
  by (auto simp: go_bind_Return_iff)

lemma Return_ReturnE: "Return x = Return c \<Longrightarrow> (c = x \<Longrightarrow> P) \<Longrightarrow> P"
  by simp

lemmas applyE = if_ReturnE withInt_ReturnE option_ReturnE bind_ReturnE Return_ReturnE

lemma fieldOf_setters:
  "fieldOf f (setSpecial g c) = fieldOf f c"
  by (cases f) (simp_all add: setSpecial_def)

lemma applyValue_frame:
  assumes "applyValue k v c = Return c'" "toLower k \<noteq> keyOf f" "toLower k \<notin> set (otherKeys f)"
  shows "fieldOf f c' = fieldOf f c"
proof -
  define key where "key = toLower k"
  have a: "key \<noteq> keyOf f" "key \<notin> set (otherKeys f)" using assms by (simp_all add: key_def)
  show ?thesis
    using assms(1) unfolding applyValue_def Let_def key_def [symmetric]
    by (elim applyE; use a in \<open>cases f; simp add: fieldOf_setters setProxy_def setClient_def setSettings_def otherKeys_def\<close>)
qed

text \<open>What a textual value does to a field: skipped when it is empty and the key does not take empty
  values.\<close>

definition assigned :: "field \<Rightarrow> string \<Rightarrow> fieldval \<Rightarrow> fieldval" where
  "assigned f v old =
     (if v = [] \<and> keyOf f \<notin> set emptyKeys then old
      else (case parseField f v of None \<Rightarrow> old | Some x \<Rightarrow> x))"

lemma applyValue_own:
  assumes "applyValue k v c = Return c'" "toLower k = keyOf f"
  shows "fieldOf f c' = assigned f v (fieldOf f c)"
proof (cases "v = [] \<and> keyOf f \<notin> set emptyKeys")
  case True
  then show ?thesis using assms by (simp add: applyValue_def assigned_def)
next
  case False
  then have a: "assigned f v (fieldOf f c) = (case parseField f v of None \<Rightarrow> fieldOf f c | Some x \<Rightarrow> x)"
    by (auto simp: assigned_def)
  show ?thesis
    using assms(1) False unfolding a applyValue_def Let_def assms(2)
    by (cases f) (auto simp: withInt_def setProxy_def setClient_def setSettings_def go_bind_Return_iff
        split: option.splits)
qed

text \<open>Whether a value is accepted does not depend on the configuration.\<close>

definition accepted :: "string \<Rightarrow> string \<Rightarrow> bool" where
  "accepted k v \<longleftrightarrow> is_return (applyValue k v Default)"

lemma is_return_if: "is_return (if b then x else y) = (if b then is_return x else is_return y)"
  by simp

lemma is_return_withInt: "is_return (withInt key raw f) = (atoi raw \<noteq> None)"
  by (simp add: withInt_def split: option.split)

lemma is_return_bind: "is_return (go_bind x (\<lambda>l. Return (f l))) = is_return x"
  by (cases x) simp_all

lemma is_return_option: "is_return (case x of None \<Rightarrow> Error e | Some d \<Rightarrow> Return (f d)) = (x \<noteq> None)"
  by (cases x) simp_all

lemma accepted_iff: "is_return (applyValue k v c) = accepted k v"
  unfolding accepted_def applyValue_def Let_def
  by (simp only: is_return_if is_return_withInt is_return_bind is_return_option is_return.simps)

lemma not_panic: "applyValue k v c \<noteq> Panic p"
proof
  assume p: "applyValue k v c = Panic p"
  have i: "(if b then x else y) \<noteq> Panic p" if "x \<noteq> Panic p" "y \<noteq> Panic p" for b and x y :: "config go_result"
    using that by simp
  have l: "parseLevel r \<noteq> Panic p" for r by (simp add: parseLevel_def Let_def)
  have w: "withInt key raw f \<noteq> Panic p" for key raw f by (simp add: withInt_def split: option.split)
  have b: "go_bind (parseLevel r) (\<lambda>x. Return (g x)) \<noteq> Panic p" for r and g :: "logLevel \<Rightarrow> config"
    using l [of r] by (cases "parseLevel r") simp_all
  have o: "(case x of None \<Rightarrow> Error e | Some d \<Rightarrow> Return (f d)) \<noteq> Panic p" for x e and f :: "int \<Rightarrow> config"
    by (simp split: option.split)
  have "applyValue k v c \<noteq> Panic p"
    unfolding applyValue_def Let_def by (intro i w b o) simp_all
  then show False using p by simp
qed

section \<open>Maps of settings\<close>

definition settingOf :: "settings \<Rightarrow> string \<Rightarrow> string" where
  "settingOf vs k = (case map_of vs k of None \<Rightarrow> [] | Some v \<Rightarrow> v)"

lemma applyKeys_field:
  assumes "applyKeys vs ks c = (c', None)" "distinct ks" "\<forall>k\<in>set ks. toLower k = k" "set ks \<inter> set (otherKeys f) = {}"
  shows "fieldOf f c' = (if keyOf f \<in> set ks then assigned f (settingOf vs (keyOf f)) (fieldOf f c) else fieldOf f c)"
  using assms
proof (induction ks arbitrary: c)
  case (Cons k ks)
  obtain c1 where c1: "applyValue k (settingOf vs k) c = Return c1" "applyKeys vs ks c1 = (c', None)"
    using Cons.prems(1) by (auto simp: settingOf_def split: go_result.splits)
  have lk: "toLower k = k" using Cons.prems(3) by simp
  have rest: "fieldOf f c' = (if keyOf f \<in> set ks then assigned f (settingOf vs (keyOf f)) (fieldOf f c1) else fieldOf f c1)"
    using Cons.IH [OF c1(2)] Cons.prems(2,3,4) by simp
  show ?case
  proof (cases "k = keyOf f")
    case True
    have "fieldOf f c1 = assigned f (settingOf vs k) (fieldOf f c)"
      using applyValue_own [OF c1(1)] lk True by simp
    then show ?thesis using rest True Cons.prems(2) by simp
  next
    case False
    have "fieldOf f c1 = fieldOf f c"
      using applyValue_frame [OF c1(1), of f] lk False Cons.prems(4) by simp
    then show ?thesis using rest False by auto
  qed
qed simp

lemma applyKeys_ok:
  "(\<forall>k\<in>set ks. accepted k (settingOf vs k)) \<longleftrightarrow> snd (applyKeys vs ks c) = None"
proof (induction ks arbitrary: c)
  case (Cons k ks)
  have a: "is_return (applyValue k (settingOf vs k) c) = accepted k (settingOf vs k)" by (rule accepted_iff)
  show ?case
    using a Cons.IH not_panic [of k "settingOf vs k" c]
    by (cases "applyValue k (settingOf vs k) c") (simp_all add: settingOf_def [symmetric])
qed simp

lemma applyValues_field:
  assumes "applyValues vs c = (c', None)" "distinct (map fst vs)" "\<forall>k\<in>fst ` set vs. toLower k = k"
    and "fst ` set vs \<inter> set (otherKeys f) = {}"
  shows "fieldOf f c' = (case map_of vs (keyOf f) of None \<Rightarrow> fieldOf f c | Some v \<Rightarrow> assigned f v (fieldOf f c))"
proof -
  have "fieldOf f c' = (if keyOf f \<in> set (sort (map fst vs)) then assigned f (settingOf vs (keyOf f)) (fieldOf f c) else fieldOf f c)"
    using assms by (intro applyKeys_field) (auto simp: applyValues_def)
  moreover have "keyOf f \<in> set (sort (map fst vs)) \<longleftrightarrow> map_of vs (keyOf f) \<noteq> None"
    by (simp add: map_of_eq_None_iff)
  ultimately show ?thesis by (auto simp: settingOf_def split: option.split)
qed

lemma applyValues_ok: "(\<forall>k\<in>fst ` set vs. accepted k (settingOf vs k)) \<longleftrightarrow> snd (applyValues vs c) = None"
  using applyKeys_ok [of "sort (map fst vs)" vs c] by (simp add: applyValues_def)

end
