(* ===== verification/Config_Thms.thy ===== *)
theory Config_Thms
  imports Config_Props
begin

text \<open>
  The properties of the configuration code: field-by-field effect of a map of settings, precedence in
  \<^verbatim>\<open>Load\<close>, validity of its result, what a rejected environment variable does, and the round trip
  through a saved INI file.
\<close>

section \<open>The sources of settings\<close>

definition tidy :: "settings \<Rightarrow> bool" where
  "tidy vs \<longleftrightarrow> distinct (map fst vs) \<and> (\<forall>k\<in>fst ` set vs. toLower k = k)"

lemma tidy_Nil [simp]: "tidy []"
  by (simp add: tidy_def)

lemma toLower_argKey: "toLower (argKey k) = argKey k"
  by (simp add: argKey_def)

lemma tidy_putSetting: "tidy vs \<Longrightarrow> toLower k = k \<Longrightarrow> tidy (putSetting k v vs)"
  by (auto simp: tidy_def putSetting_def distinct_map inj_on_def image_iff)

text \<open>One argument, with the following one when it is taken as its value: what is put and what is left.\<close>

definition argStep :: "string \<Rightarrow> string list \<Rightarrow> string \<times> string \<times> string list" where
  "argStep arg rest =
     (case cutChar CHR ''='' (trimPrefix arg ''--'') of (key, val, hasValue) \<Rightarrow>
        if hasValue then (argKey key, trimSpace val, rest)
        else (case rest of
            [] \<Rightarrow> (argKey key, ''true'', [])
          | n # rest' \<Rightarrow> if hasPrefix n ''--'' then (argKey key, ''true'', rest) else (argKey key, trimSpace n, rest')))"

lemma parseArgsLoop_step:
  "parseArgsLoop vs (arg # rest) =
     (if \<not> hasPrefix arg ''--'' then Error ''unsupported argument''
      else (case argStep arg rest of (k, v, rest') \<Rightarrow> parseArgsLoop (putSetting k v vs) rest'))"
  by (simp add: argStep_def split: prod.split list.split)

lemma argStep_props: "argStep arg rest = (k, v, rest') \<Longrightarrow> toLower k = k \<and> length rest' \<le> length rest"
  by (auto simp: argStep_def toLower_argKey split: prod.splits list.splits if_splits)

lemma parseArgsLoop_tidy:
  "tidy vs \<Longrightarrow> (\<exists>e. parseArgsLoop vs args = Error e) \<or> (\<exists>vs'. parseArgsLoop vs args = Return vs' \<and> tidy vs')"
proof (induction "length args" arbitrary: vs args rule: less_induct)
  case less
  show ?case
  proof (cases args)
    case (Cons arg rest)
    obtain k v rest' where s: "argStep arg rest = (k, v, rest')" by (metis prod_cases3)
    have "length rest' < length args" "tidy (putSetting k v vs)"
      using argStep_props [OF s] less.prems Cons by (auto intro: tidy_putSetting)
    then show ?thesis using less.hyps [of rest' "putSetting k v vs"] Cons
      by (simp add: parseArgsLoop_step s del: parseArgsLoop.simps)
  qed (use less.prems in simp)
qed

lemma parseArgs_cases:
  obtains (error) e where "parseArgs args = Error e" | (ok) cli where "parseArgs args = Return cli" "tidy cli"
  using parseArgsLoop_tidy [of "[]" args] by (auto simp: parseArgs_def)

lemma tidy_sub:
  assumes "distinct ks" "\<forall>k\<in>set ks. toLower k = k" "distinct (map fst vs)" "fst ` set vs \<subseteq> set ks"
  shows "tidy vs"
  using assms by (auto simp: tidy_def)

lemma keys_map_filter:
  "map fst (List.map_filter (\<lambda>k. map_option (Pair k) (g k)) ks) = filter (\<lambda>k. g k \<noteq> None) ks"
  by (induction ks) (simp_all add: List.map_filter_simps split: option.split)

lemma lower_envKeys: "\<forall>k\<in>set envKeys. toLower k = k"
  unfolding envKeys_def by (simp add: toLower_def lowerChar_def)

lemma distinct_envKeys: "distinct envKeys"
  unfolding envKeys_def by simp

lemma tidy_envValues: "tidy (envValues w)"
proof (rule tidy_sub [OF distinct_envKeys lower_envKeys])
  have k: "map fst (envValues w) = filter (\<lambda>k. os_env w (''PX_'' @ toUpper k) \<noteq> None) envKeys"
    unfolding envValues_def by (rule keys_map_filter)
  show "distinct (map fst (envValues w))" using distinct_envKeys by (simp add: k)
  show "fst ` set (envValues w) \<subseteq> set envKeys"
    using arg_cong [OF k, of set] by auto
qed

lemma envValues_keys: "fst ` set (envValues w) \<subseteq> set envKeys"
proof -
  have "map fst (envValues w) = filter (\<lambda>k. os_env w (''PX_'' @ toUpper k) \<noteq> None) envKeys"
    unfolding envValues_def by (rule keys_map_filter)
  then have "set (map fst (envValues w)) \<subseteq> set envKeys" by simp
  then show ?thesis by simp
qed

lemma ini_keys: "map fst (iniValues file) = map snd iniKeys"
  by (simp add: iniValues_def case_prod_beta comp_def)

lemma tidy_iniValues: "tidy (iniValues file)"
proof -
  have d: "distinct (map snd iniKeys)" unfolding iniKeys_def by simp
  have l: "\<forall>k\<in>set (map snd iniKeys). toLower k = k"
    unfolding iniKeys_def by (simp add: toLower_def lowerChar_def)
  show ?thesis
  proof (rule tidy_sub [OF d l])
    show "distinct (map fst (iniValues file))" using d by (simp only: ini_keys)
    show "fst ` set (iniValues file) \<subseteq> set (map snd iniKeys)" by (simp only: set_map [symmetric] ini_keys)
  qed
qed

lemma tidy_tomlValues: "tidy (tomlValues t)"
proof -
  have l: "\<forall>k\<in>set (map fst (tomlValues t)). toLower k = k"
    by (auto simp: tomlValues_def toLower_def lowerChar_def case_prod_beta)
  have opt: "subseq (map fst (if b then [(k, v)] else [])) [k]" for b k and v :: string
    by simp
  have "subseq (map fst (tomlValues t)) (map fst (take 18 (tomlValues t)) @ [''port''] @ [''workers''] @ [''threads''] @ [''idle''] @
      [''socktimeout''] @ [''proxyreload''] @ [''log''])"
    unfolding tomlValues_def map_append case_prod_beta by (intro list_emb_append_mono opt) simp
  moreover have "distinct (map fst (take 18 (tomlValues t)) @ [''port''] @ [''workers''] @ [''threads''] @ [''idle''] @
      [''socktimeout''] @ [''proxyreload''] @ [''log''])"
    by (simp add: tomlValues_def)
  ultimately have d: "distinct (map fst (tomlValues t))" by (rule subseq_distinct)
  show ?thesis using l d by (simp add: tidy_def)
qed

section \<open>Precedence\<close>

definition fileValues :: "osEnv \<Rightarrow> string \<Rightarrow> settings" where
  "fileValues w path =
     (if path = [] then []
      else if equalFold (extPath path) ''.toml'' then (case os_toml w path of None \<Rightarrow> [] | Some t \<Rightarrow> tomlValues t)
      else (case os_ini w path of None \<Rightarrow> [] | Some f \<Rightarrow> iniValues f))"

lemma tidy_fileValues: "tidy (fileValues w path)"
  by (simp add: fileValues_def tidy_tomlValues tidy_iniValues split: option.split)

lemma applyFile_values: "applyFile w path c = (c', None) \<Longrightarrow> applyValues (fileValues w path) c = (c', None)"
  by (auto simp: applyFile_def fileValues_def applyTOML_def applyINI_def applyValues_def split: if_splits option.splits)

definition cliValues :: "string list \<Rightarrow> settings" where
  "cliValues args = (case parseArgs args of Return cli \<Rightarrow> cli | _ \<Rightarrow> [])"

definition loadedPath :: "osEnv \<Rightarrow> string list \<Rightarrow> string" where
  "loadedPath w args = fst (resolveConfigPath w (valueOrEmpty (cliValues args) ''config''))"

text \<open>What one source does to a field: nothing when it does not have the key.\<close>

definition layer :: "field \<Rightarrow> settings \<Rightarrow> fieldval \<Rightarrow> fieldval" where
  "layer f vs old = (case map_of vs (keyOf f) of None \<Rightarrow> old | Some v \<Rightarrow> assigned f v old)"

text \<open>The text a configuration file gives to a key, empty when the file does not have the key.\<close>

definition fileText :: "osEnv \<Rightarrow> string \<Rightarrow> string \<Rightarrow> string" where
  "fileText w path k = (case map_of (fileValues w path) k of None \<Rightarrow> [] | Some v \<Rightarrow> v)"

definition emptyValue :: "field \<Rightarrow> fieldval" where
  "emptyValue f = (case f of FServer \<Rightarrow> VList [] | FListen \<Rightarrow> VList [] | _ \<Rightarrow> VStr [])"

lemma assigned_empty: "assigned f [] old = (if keyOf f \<in> set emptyKeys then emptyValue f else old)"
  by (cases f) (simp_all add: assigned_def emptyKeys_def emptyValue_def cfgSplitCSV_def go_simps)

text \<open>Both readers hand over the ten keys with an empty value even when the file does not mention them.\<close>

lemma file_empty_keys:
  assumes "applyFile w path c = (c', None)" "path \<noteq> []"
  shows "set emptyKeys \<subseteq> fst ` set (fileValues w path)"
proof -
  have "set emptyKeys \<subseteq> fst ` set (iniValues g)" for g
    unfolding set_map [symmetric] ini_keys by (simp add: emptyKeys_def iniKeys_def)
  moreover have "set emptyKeys \<subseteq> fst ` set (tomlValues t)" for t
    by (simp add: emptyKeys_def tomlValues_def)
  ultimately show ?thesis
    using assms by (auto simp: applyFile_def fileValues_def applyTOML_def applyINI_def split: if_splits option.splits)
qed

lemma layer_absent: "k \<notin> fst ` set vs \<Longrightarrow> keyOf f = k \<Longrightarrow> layer f vs old = old"
  by (simp add: layer_def map_of_eq_None_iff [THEN iffD2])

lemma layer_empty_file:
  assumes "path \<noteq> [] \<longrightarrow> set emptyKeys \<subseteq> fst ` set (fileValues w path)" "fileText w path (keyOf f) = []"
  shows "layer f (fileValues w path) old = (if path \<noteq> [] \<and> keyOf f \<in> set emptyKeys then emptyValue f else old)"
proof (cases "map_of (fileValues w path) (keyOf f)")
  case None
  then have "keyOf f \<notin> fst ` set (fileValues w path)" by (simp add: map_of_eq_None_iff)
  then show ?thesis using assms(1) None by (auto simp: layer_def)
next
  case (Some v)
  then have "path \<noteq> []" "v = []" using assms(2) by (auto simp: fileValues_def fileText_def)
  then show ?thesis using Some by (simp add: layer_def assigned_empty)
qed

lemma applyValues_layer:
  assumes "applyValues vs c = (c', None)" "tidy vs" "fst ` set vs \<inter> set (otherKeys f) = {}"
  shows "fieldOf f c' = layer f vs (fieldOf f c)"
  using applyValues_field [of vs c c' f] assms by (simp add: layer_def tidy_def)

lemma Load_steps:
  assumes "Load w args = (c, None)"
  obtains c1 c2 c3 where
    "tidy (cliValues args)"
    "applyValues (fileValues w (loadedPath w args)) (setConfigPath (loadedPath w args) Default) = (c1, None)"
    "c2 = applyEnv (loadDotEnv w (loadedPath w args)) c1"
    "applyValues (cliValues args) c2 = (c3, None)"
    "c = normalize (loadDotEnv w (loadedPath w args)) (setConfigPath (loadedPath w args) c3)"
    "validate c = None"
    "loadedPath w args \<noteq> [] \<longrightarrow> set emptyKeys \<subseteq> fst ` set (fileValues w (loadedPath w args))"
proof (cases rule: parseArgs_cases [of args])
  case (error e)
  then show ?thesis using assms by (simp add: Load_def)
next
  case (ok cli)
  let ?path = "loadedPath w args"
  have cli: "cliValues args = cli" using ok by (simp add: cliValues_def)
  obtain e where r: "resolveConfigPath w (valueOrEmpty cli ''config'') = (?path, e)"
    by (metis cli loadedPath_def prod.collapse)
  obtain c1 e1 where f: "applyFile w ?path (setConfigPath ?path Default) = (c1, e1)" by fastforce
  obtain c3 e3 where a: "applyValues cli (applyEnv (loadDotEnv w ?path) c1) = (c3, e3)" by fastforce
  have "e = None" "e1 = None" "e3 = None"
    using assms ok(1) r f a by (auto simp: Load_def Let_def split: option.splits)
  then have l: "(c, None) = (let c4 = normalize (loadDotEnv w ?path) (setConfigPath ?path c3) in (c4, validate c4))"
    using assms ok(1) r f a by (simp add: Load_def)
  show ?thesis
  proof (rule that [of c1 "applyEnv (loadDotEnv w ?path) c1" c3])
    show "tidy (cliValues args)" using ok(2) cli by simp
    show "applyValues (fileValues w ?path) (setConfigPath ?path Default) = (c1, None)"
      using applyFile_values f \<open>e1 = None\<close> by simp
    show "applyValues (cliValues args) (applyEnv (loadDotEnv w ?path) c1) = (c3, None)"
      using a \<open>e3 = None\<close> cli by simp
    show "c = normalize (loadDotEnv w ?path) (setConfigPath ?path c3)" "validate c = None"
      using l by (simp_all add: Let_def)
    show "?path \<noteq> [] \<longrightarrow> set emptyKeys \<subseteq> fst ` set (fileValues w ?path)"
      using file_empty_keys f \<open>e1 = None\<close> by blast
  qed simp
qed

lemma fieldOf_setConfigPath [simp]: "fieldOf f (setConfigPath p c) = fieldOf f c"
  by (simp add: setConfigPath_def fieldOf_setters)

lemma set_otherKeys: "set (otherKeys f) \<subseteq> {''proxy'', ''verbose''}"
  by (cases f) (simp_all add: otherKeys_def)

lemma envKeys_other: "fst ` set (envValues w) \<inter> set (otherKeys f) = {}"
proof -
  have "''proxy'' \<notin> set envKeys" "''verbose'' \<notin> set envKeys" by (simp_all add: envKeys_def)
  then have "set envKeys \<inter> set (otherKeys f) = {}" using set_otherKeys [of f] by auto
  then show ?thesis using envValues_keys [of w] by auto
qed

lemma iniKeys_other: "fst ` set (iniValues g) \<inter> {''proxy'', ''verbose''} = {}"
proof -
  have i: "fst ` set (iniValues g) = set (map snd iniKeys)"
    by (simp only: set_map [symmetric] ini_keys)
  have "''proxy'' \<notin> set (map snd iniKeys)" "''verbose'' \<notin> set (map snd iniKeys)"
    by (simp_all add: iniKeys_def)
  then show ?thesis unfolding i by simp
qed

lemma iniKeys_disjoint: "fst ` set (iniValues g) \<inter> set (otherKeys f) = {}"
  using iniKeys_other [of g] set_otherKeys [of f] by (meson disjoint_iff subsetD)

lemma fileKeys_other: "fst ` set (fileValues w path) \<inter> set (otherKeys f) = {}"
proof -
  have toml: "fst ` set (tomlValues t) \<inter> {''proxy'', ''verbose''} = {}" for t
    by (auto simp: tomlValues_def case_prod_beta)
  have "fst ` set (fileValues w path) \<inter> {''proxy'', ''verbose''} = {}"
  proof (cases "path = []")
    case False
    show ?thesis
      using iniKeys_other toml False
      by (cases "equalFold (extPath path) ''.toml''"; cases "os_toml w path"; cases "os_ini w path")
        (simp_all add: fileValues_def)
  qed (simp add: fileValues_def)
  then show ?thesis using set_otherKeys [of f] by (meson disjoint_iff subsetD)
qed


text \<open>An operating system with no configuration file, for the witnesses.\<close>

definition bareOS :: "(string \<Rightarrow> string option) \<Rightarrow> osEnv" where
  "bareOS env = \<lparr>os_exists = (\<lambda>_. False), os_env = env, os_wd = Some ''/work'', os_exe = Some ''/opt/px'', os_home = ''/root'',
     os_goos = ''linux'', os_ini = (\<lambda>_. None), os_toml = (\<lambda>_. None), os_dotenv = (\<lambda>_. Map.empty)\<rparr>"

lemma bareOS_dotenv: "loadDotEnv (bareOS env) path = bareOS env"
proof -
  have "fold (\<lambda>fl w. w\<lparr>os_env := os_dotenv w fl ++ os_env w\<rparr>) fs (bareOS env) = bareOS env" for fs
    by (induction fs) (simp_all add: bareOS_def)
  then show ?thesis by (simp add: loadDotEnv_def)
qed

lemma bareOS_path: "resolveConfigPath (bareOS env) [] = ([], None)"
proof -
  have "find (\<lambda>_. False) xs = None" for xs :: "string list" by (induction xs) simp_all
  then show ?thesis by (simp add: resolveConfigPath_def Let_def bareOS_def)
qed

lemma Load_bare:
  assumes "parseArgs args = Return cli" "map_of cli ''config'' = None"
    and "snd (applyValues (envValues (bareOS env)) Default) = None" "snd (applyValues cli Default) = None"
  obtains c2 c3 where "applyValues (envValues (bareOS env)) (setConfigPath [] Default) = (c2, None)"
    "applyValues cli c2 = (c3, None)"
    "Load (bareOS env) args = (normalize (bareOS env) (setConfigPath [] c3), validate (normalize (bareOS env) (setConfigPath [] c3)))"
proof -
  let ?c2 = "applyEnv (bareOS env) (setConfigPath [] Default)"
  let ?c3 = "fst (applyValues cli ?c2)"
  have e: "snd (applyValues (envValues (bareOS env)) (setConfigPath [] Default)) = None" "snd (applyValues cli ?c2) = None"
    using applyValues_ok assms(3,4) by blast+
  then have "Load (bareOS env) args = (normalize (bareOS env) (setConfigPath [] ?c3), validate (normalize (bareOS env) (setConfigPath [] ?c3)))"
    using assms(1,2) by (simp add: Load_def valueOrEmpty_def bareOS_path applyFile_def bareOS_dotenv Let_def case_prod_beta)
  then show ?thesis using e by (intro that [of ?c2 ?c3]) (simp_all add: applyEnv_def prod_eq_iff)
qed

lemma loadedPath_bare: "parseArgs args = Return cli \<Longrightarrow> map_of cli ''config'' = None \<Longrightarrow> loadedPath (bareOS env) args = []"
  by (simp add: loadedPath_def cliValues_def valueOrEmpty_def bareOS_path)

lemma normalize_fields [simp]:
  "pc_port (cf_proxy (normalize w c)) = pc_port (cf_proxy c)" "cf_settings (normalize w c) = cf_settings c"
  by (simp_all add: normalize_def Let_def)

lemma validate_fields:
  "validate c = None \<longleftrightarrow> (\<exists>p t k. fieldOf FPort c = VInt p \<and> fieldOf FThreads c = VInt t \<and> fieldOf FWorkers c = VInt k \<and>
     1 \<le> p \<and> p \<le> 65535 \<and> 1 \<le> t \<and> 1 \<le> k)"
  by (auto simp: validate_def)

lemma validate_normalize: "validate (normalize w (setConfigPath p c)) = validate c"
  by (simp add: validate_def setConfigPath_def setSpecial_def)

lemma portArgs: "parseArgs [''--port=8080''] = Return [(''port'', ''8080'')]"
  by (simp add: parseArgs_def argKey_def putSetting_def go_simps)

lemma port8080: "atoi ''8080'' = Some 8080" "atoi ''9090'' = Some 9090" "atoi ''7'' = Some 7"
  by (simp_all add: atoi_def go_simps)

lemma accepted_port: "atoi v = Some n \<Longrightarrow> accepted ''port'' v" "atoi v = Some n \<Longrightarrow> accepted ''threads'' v"
  by (simp_all add: accepted_def applyValue_def Let_def toLower_def lowerChar_def withInt_def)


section \<open>Validity\<close>

lemma normalizeItems_props:
  "distinct (normalizeItems seen items) \<and> set (normalizeItems seen items) \<inter> seen = {} \<and>
   (\<forall>x\<in>set (normalizeItems seen items). x \<noteq> [] \<and> trimmed isSpace x)"
proof (induction seen items rule: normalizeItems.induct)
  case (2 seen item0 items)
  let ?i = "trimSpace item0"
  show ?case
  proof (cases "?i = [] \<or> ?i \<in> seen")
    case True
    then have "normalizeItems seen (item0 # items) = normalizeItems seen items"
      by (simp only: normalizeItems.simps Let_def if_True)
    then show ?thesis using "2.IH"(1) [OF refl True] by simp
  next
    case False
    then have "normalizeItems seen (item0 # items) = ?i # normalizeItems (insert ?i seen) items"
      by (simp only: normalizeItems.simps Let_def if_False)
    then show ?thesis using "2.IH"(2) [OF refl False] False by auto
  qed
qed simp

text \<open>C21: what \<^verbatim>\<open>Load\<close> returns without an error can be started: the port is one of the 65535 usable ones,
  there is a worker, a thread and an address to listen on, the upstream list has no empty or
  repeated entry, and both authentication settings are non-empty and upper case.\<close>

theorem load_valid:
  assumes "Load w args = (c, None)"
  shows "1 \<le> pc_port (cf_proxy c) \<and> pc_port (cf_proxy c) \<le> 65535 \<and> 1 \<le> st_threads (cf_settings c) \<and>
    1 \<le> st_workers (cf_settings c) \<and> ListenAddresses c \<noteq> [] \<and>
    distinct (pc_server (cf_proxy c)) \<and> (\<forall>s\<in>set (pc_server (cf_proxy c)). s \<noteq> [] \<and> trimmed isSpace s) \<and>
    pc_auth (cf_proxy c) \<noteq> [] \<and> toUpper (pc_auth (cf_proxy c)) = pc_auth (cf_proxy c) \<and>
    cc_auth (cf_client c) \<noteq> [] \<and> toUpper (cc_auth (cf_client c)) = cc_auth (cf_client c)"
proof -
  obtain c3 where c: "c = normalize (loadDotEnv w (loadedPath w args)) (setConfigPath (loadedPath w args) c3)"
    "validate c = None"
    by (rule Load_steps [OF assms])
  have srv: "pc_server (cf_proxy c) = normalizeItems {} (pc_server (cf_proxy c3))"
    by (simp add: c(1) normalize_def Let_def setConfigPath_def setSpecial_def normalizeCSV_def)
  have up: "toUpper ''ANY'' = ''ANY''" "toUpper ''NONE'' = ''NONE''" by (simp_all add: toUpper_def upperChar_def)
  have au: "pc_auth (cf_proxy c) \<noteq> [] \<and> toUpper (pc_auth (cf_proxy c)) = pc_auth (cf_proxy c)"
    "cc_auth (cf_client c) \<noteq> [] \<and> toUpper (cc_auth (cf_client c)) = cc_auth (cf_client c)"
    by (simp_all add: c(1) normalize_def Let_def up)
  have li: "ListenAddresses c \<noteq> []"
    by (simp add: c(1) ListenAddresses_def normalize_def Let_def)
  have "1 \<le> pc_port (cf_proxy c) \<and> pc_port (cf_proxy c) \<le> 65535 \<and> 1 \<le> st_threads (cf_settings c) \<and> 1 \<le> st_workers (cf_settings c)"
    using c(2) by (auto simp: validate_fields)
  then show ?thesis using normalizeItems_props [of "{}" "pc_server (cf_proxy c3)"] au li srv by simp
qed

theorem load_valid_witness:
  "\<exists>c. Load (bareOS Map.empty) [''--port=8080''] = (c, None) \<and> ListenAddresses c \<noteq> []"
proof -
  let ?w = "bareOS Map.empty"
  have env: "envValues ?w = []" by (simp add: envValues_def envKeys_def bareOS_def List.map_filter_simps)
  have ok: "snd (applyValues (envValues ?w) Default) = None" "snd (applyValues [(''port'', ''8080'')] Default) = None"
    using applyValues_ok [of "envValues ?w" Default] applyValues_ok [of "[(''port'', ''8080'')]" Default]
    by (simp_all add: env settingOf_def accepted_port port8080)
  obtain c2 c3 where l: "applyValues (envValues ?w) (setConfigPath [] Default) = (c2, None)"
    "applyValues [(''port'', ''8080'')] c2 = (c3, None)"
    "Load ?w [''--port=8080''] = (normalize ?w (setConfigPath [] c3), validate (normalize ?w (setConfigPath [] c3)))"
    by (rule Load_bare [OF portArgs _ ok]) simp_all
  have f: "fieldOf g c3 = layer g [(''port'', ''8080'')] (fieldOf g Default)"
    if "fst ` set [(''port'', ''8080'')] \<inter> set (otherKeys g) = {}" for g
    using applyValues_layer [OF l(2) _ that] applyValues_layer [OF l(1) tidy_envValues envKeys_other, of g]
    by (simp add: tidy_def toLower_def lowerChar_def env layer_def)
  have "validate c3 = None"
    using f [of FPort] f [of FThreads] f [of FWorkers]
    by (simp add: validate_fields otherKeys_def layer_def assigned_def port8080 Default_def)
  then have L: "Load ?w [''--port=8080''] = (normalize ?w (setConfigPath [] c3), None)"
    using l(3) by (simp add: validate_normalize)
  from load_valid [OF L] L show ?thesis by blast
qed

section \<open>A rejected environment variable\<close>

lemma applyKeys_append:
  "applyKeys vs (xs @ ys) c = (case applyKeys vs xs c of (c', None) \<Rightarrow> applyKeys vs ys c' | (c', Some e) \<Rightarrow> (c', Some e))"
  by (induction xs arbitrary: c) (simp_all split: go_result.split)

lemma applyKeys_frame:
  assumes "\<forall>k\<in>set ks. toLower k = k" "keyOf f \<notin> set ks" "set ks \<inter> set (otherKeys f) = {}"
  shows "fieldOf f (fst (applyKeys vs ks c)) = fieldOf f c"
  using assms
proof (induction ks arbitrary: c)
  case (Cons k ks)
  show ?case
  proof (cases "applyValue k (settingOf vs k) c")
    case (Return c')
    then have "fieldOf f c' = fieldOf f c" using Cons.prems by (intro applyValue_frame) auto
    then show ?thesis using Cons.IH Cons.prems Return by (simp add: settingOf_def)
  qed (simp_all add: settingOf_def)
qed simp

text \<open>A \<^verbatim>\<open>PX_*\<close> variable with a value that does not parse is not reported, and every variable whose key
  sorts after it is ignored too: those fields keep the value they had.\<close>

lemma bad_env_drops_later:
  assumes "(k, v) \<in> set (envValues w)" "\<not> accepted k v" "k < keyOf f"
  shows "fieldOf f (applyEnv w c) = fieldOf f c"
proof -
  let ?ks = "sort (map fst (envValues w))"
  have td: "tidy (envValues w)" by (rule tidy_envValues)
  have "k \<in> set ?ks" using assms(1) by (auto simp: image_iff intro: bexI [of _ "(k, v)"])
  then obtain xs ys where s: "?ks = xs @ k # ys" by (meson split_list)
  have sv: "settingOf (envValues w) k = v" using assms(1) td by (simp add: settingOf_def tidy_def)
  have st: "fst (applyKeys (envValues w) (k # ys) c') = c'" for c'
    using accepted_iff [of k v c'] assms(2) sv
    by (cases "applyValue k (settingOf (envValues w) k) c'") (simp_all add: settingOf_def)
  have "applyEnv w c = fst (applyKeys (envValues w) xs c)"
    using st by (simp add: applyEnv_def applyValues_def s applyKeys_append split: prod.split option.split)
  moreover have "sorted (xs @ k # ys)" by (metis s sorted_sort)
  then have "\<forall>x\<in>set xs. x \<le> k" by (simp add: sorted_append)
  then have "keyOf f \<notin> set xs" using assms(3) by auto
  moreover have "set xs \<subseteq> fst ` set (envValues w)" using arg_cong [OF s, of set] by auto
  then have "set xs \<inter> set (otherKeys f) = {}" "\<forall>k\<in>set xs. toLower k = k"
    using envKeys_other [of w f] td by (auto simp: tidy_def)
  ultimately show ?thesis by (simp add: applyKeys_frame)
qed

lemma bad_env_drops_later_witness:
  "fieldOf FPort (applyEnv (bareOS [''PX_IDLE'' \<mapsto> ''5m'', ''PX_PORT'' \<mapsto> ''9090'']) Default) = VInt 3128"
proof -
  let ?w = "bareOS [''PX_IDLE'' \<mapsto> ''5m'', ''PX_PORT'' \<mapsto> ''9090'']"
  have "envValues ?w = [(''port'', ''9090''), (''idle'', ''5m'')]"
    by (simp add: envValues_def envKeys_def bareOS_def List.map_filter_simps go_simps)
  then have "(''idle'', ''5m'') \<in> set (envValues ?w)" by simp
  moreover have "\<not> accepted ''idle'' ''5m''"
    by (simp add: accepted_def applyValue_def Let_def withInt_def atoi_def go_simps)
  moreover have "''idle'' < keyOf FPort" by (simp add: less_char_def)
  ultimately have "fieldOf FPort (applyEnv ?w Default) = fieldOf FPort Default" by (rule bad_env_drops_later)
  then show ?thesis by (simp add: Default_def)
qed

section \<open>Round trip through an INI file\<close>

text \<open>The text \<^verbatim>\<open>saveINI\<close> writes for a field.\<close>

fun savedText :: "config \<Rightarrow> field \<Rightarrow> string" where
  "savedText c FServer = joinStr '','' (pc_server (cf_proxy c))"
| "savedText c FPac = pc_pac (cf_proxy c)"
| "savedText c FPacEncoding = pc_pacEncoding (cf_proxy c)"
| "savedText c FListen = (if pc_gateway (cf_proxy c) \<or> pc_hostOnly (cf_proxy c) then [] else joinStr '','' (pc_listen (cf_proxy c)))"
| "savedText c FPort = itoa (pc_port (cf_proxy c))"
| "savedText c FGateway = boolString (pc_gateway (cf_proxy c))"
| "savedText c FHostOnly = boolString (pc_hostOnly (cf_proxy c))"
| "savedText c FAllow = pc_allow (cf_proxy c)"
| "savedText c FNoProxy = pc_noProxy (cf_proxy c)"
| "savedText c FUserAgent = pc_userAgent (cf_proxy c)"
| "savedText c FUsername = pc_username (cf_proxy c)"
| "savedText c FAuth = pc_auth (cf_proxy c)"
| "savedText c FKerberos = boolString (pc_kerberos (cf_proxy c))"
| "savedText c FClientUsername = cc_username (cf_client c)"
| "savedText c FClientAuth = cc_auth (cf_client c)"
| "savedText c FClientNoSSPI = boolString (cc_noSSPI (cf_client c))"
| "savedText c FWorkers = itoa (st_workers (cf_settings c))"
| "savedText c FThreads = itoa (st_threads (cf_settings c))"
| "savedText c FIdle = itoa (wholeSeconds (st_idle (cf_settings c)))"
| "savedText c FSockTimeout = formatFloat1 (st_sockTimeout (cf_settings c))"
| "savedText c FProxyReload = itoa (wholeSeconds (st_proxyReload (cf_settings c)))"
| "savedText c FForeground = boolString (st_foreground (cf_settings c))"
| "savedText c FLog = itoa (st_log (cf_settings c))"
| "savedText c FLogFile = st_logFile (cf_settings c)"
| "savedText c FLogLevel = levelString (st_logLevel (cf_settings c))"

definition allFields :: "field list" where
  "allFields = [FServer, FPac, FPacEncoding, FListen, FPort, FGateway, FHostOnly, FAllow, FNoProxy, FUserAgent, FUsername,
     FAuth, FKerberos, FClientUsername, FClientAuth, FClientNoSSPI, FWorkers, FThreads, FIdle, FSockTimeout,
     FProxyReload, FForeground, FLog, FLogFile, FLogLevel]"

lemma in_allFields: "f \<in> set allFields"
  by (cases f) (simp_all add: allFields_def)

lemma saved_fields: "map snd (saveINI c) = map (\<lambda>f. (keyOf f, savedText c f)) allFields"
  by (simp add: saveINI_def allFields_def Let_def)

lemma saved_sections: "map (\<lambda>(sec, key, v). (sec, key)) (saveINI c) = iniKeys"
  by (simp add: saveINI_def iniKeys_def Let_def)

lemma distinct_keyOf: "distinct (map keyOf allFields)"
  by (simp add: allFields_def)

lemma iniValues_saved:
  assumes "\<forall>(sec, key, v)\<in>set (saveINI c). g sec key = v"
  shows "iniValues g = map (\<lambda>f. (keyOf f, trimSpace (savedText c f))) allFields"
proof -
  have "iniValues g = map (\<lambda>(sec, key). (key, trimSpace (g sec key))) (map (\<lambda>(sec, key, v). (sec, key)) (saveINI c))"
    by (simp only: iniValues_def saved_sections)
  also have "\<dots> = map (\<lambda>(key, v). (key, trimSpace v)) (map snd (saveINI c))"
    using assms by (auto simp: case_prod_beta)
  finally show ?thesis by (simp only: saved_fields) simp
qed

text \<open>The configurations that survive saving: trimmed strings without commas in the lists, a character
  set, 64-bit numbers, durations of whole seconds.\<close>

definition csvSafe :: "string \<Rightarrow> bool" where
  "csvSafe x \<longleftrightarrow> x \<noteq> [] \<and> trimmed isSpace x \<and> CHR '','' \<notin> set x"

definition int64 :: "int \<Rightarrow> bool" where
  "int64 i \<longleftrightarrow> - (2 ^ 63) \<le> i \<and> i < 2 ^ 63"

definition wholeSec :: "int \<Rightarrow> int \<Rightarrow> bool" where
  "wholeSec ub d \<longleftrightarrow> 0 \<le> d \<and> d < ub \<and> d mod second = 0"

definition savable :: "config \<Rightarrow> bool" where
  "savable c \<longleftrightarrow>
     (let p = cf_proxy c; k = cf_client c; s = cf_settings c
      in list_all csvSafe (pc_server p) \<and> list_all csvSafe (pc_listen p) \<and>
         (pc_gateway p \<or> pc_hostOnly p \<longrightarrow> pc_listen p = []) \<and>
         list_all (trimmed isSpace) [pc_pac p, pc_pacEncoding p, pc_allow p, pc_noProxy p, pc_userAgent p, pc_username p,
           pc_auth p, cc_username k, cc_auth k, st_logFile s] \<and> pc_pacEncoding p \<noteq> [] \<and>
         list_all int64 [pc_port p, st_workers s, st_threads s, st_log s] \<and>
         wholeSec (2 ^ 63) (st_idle s) \<and> wholeSec (2 ^ 63) (st_proxyReload s) \<and> wholeSec (2 ^ 53) (st_sockTimeout s))"

lemma cfgSplitCSV_eq: "cfgSplitCSV = splitCSV"
  by (simp add: fun_eq_iff cfgSplitCSV_def splitCSV_def)

lemma joinStr_not_Nil: "xs \<noteq> [] \<Longrightarrow> x \<noteq> [] \<Longrightarrow> joinStr '','' (x # xs) \<noteq> []"
  by (cases xs) simp_all

lemma csv_trimmed: "list_all csvSafe xs \<Longrightarrow> trimmed isSpace (joinStr '','' xs) \<and> (xs \<noteq> [] \<longrightarrow> joinStr '','' xs \<noteq> [])"
proof (induction xs)
  case (Cons x xs)
  then show ?case by (cases xs) (auto simp: csvSafe_def trimmed_def)
qed (simp add: trimmed_def)

lemma csv_roundtrip: "list_all csvSafe xs \<Longrightarrow> cfgSplitCSV (trimSpace (joinStr '','' xs)) = xs"
  using splitCSV_join [of xs] csv_trimmed [of xs]
  by (simp add: cfgSplitCSV_eq trimSpace_id list_all_iff csvSafe_def)

lemma int_roundtrip: "int64 i \<Longrightarrow> atoi (trimSpace (itoa i)) = Some i"
  by (simp add: int64_def atoi_itoa)

lemma bool_roundtrip: "parseBool (trimSpace (boolString b)) = b"
  by (cases b) (simp_all add: parseBool_def boolString_def go_simps)

lemma level_roundtrip: "parseLevel (trimSpace (levelString l)) = Return l"
  by (cases l) (simp_all add: parseLevel_def Let_def go_simps)

lemma wholeSec_nat:
  assumes "wholeSec ub d"
  obtains n where "d = int n * second" "int n * second < ub"
  by (metis (no_types, lifting) assms div_mult_mod_eq add.right_neutral nonneg_int_cases pos_imp_zdiv_nonneg_iff
      wholeSec_def second_def zero_less_power zero_less_numeral)

lemma sint_int64: "- (2 ^ 63) \<le> x \<Longrightarrow> x < 2 ^ 63 \<Longrightarrow> sint (of_int x :: 64 word) = x"
  by (simp only: int_word_sint) simp

lemma seconds_roundtrip:
  assumes "wholeSec (2 ^ 63) d"
  shows "map_option secondsDuration (atoi (trimSpace (itoa (wholeSeconds d)))) = Some d"
proof -
  obtain n where n: "d = int n * second" "int n * second < 2 ^ 63" by (rule wholeSec_nat [OF assms])
  have n53: "n < 2 ^ 53" using n(2) by (simp add: second_def)
  have "nat \<bar>d\<bar> = n * 10 ^ 9" by (simp add: n(1) second_def nat_mult_distrib)
  then have "wholeSeconds d = int n"
    using seconds_whole [OF n53] n(1) by (simp add: wholeSeconds_def second_def)
  moreover have "atoi (itoa (int n)) = Some (int n)" using n53 by (intro atoi_itoa) simp_all
  moreover have "secondsDuration (int n) = d"
    using n by (simp add: secondsDuration_def sint_int64 second_def del: of_int_mult of_int_of_nat_eq)
  ultimately show ?thesis by simp
qed

lemma sock_roundtrip:
  assumes "wholeSec (2 ^ 53) d"
  shows "parseFloatSeconds (trimSpace (formatFloat1 d)) = Some d"
proof -
  obtain n where n: "d = int n * second" "int n * second < 2 ^ 53" by (rule wholeSec_nat [OF assms])
  have b: "n * 10 ^ 9 < 2 ^ 53" "n < 2 ^ 53" using n(2) by (simp_all add: second_def)
  have f: "formatFloat1 d = itoaNat n @ ''.0''" using formatFloat1_whole [OF b(2)] n(1) by (simp add: second_def)
  have "\<forall>ch\<in>set (itoaNat n @ ''.0''). \<not> isSpace ch"
    using digits_itoaNat no_space_digit by (auto simp: isSpace_def)
  then have "trimSpace (itoaNat n @ ''.0'') = itoaNat n @ ''.0''" by (intro trimSpace_id trimmed_no_space)
  then show ?thesis using parseFloatSeconds_whole [OF b(1)] f n(1) by (simp add: second_def)
qed

lemma field_roundtrip:
  assumes "savable c"
  shows "parseField f (trimSpace (savedText c f)) = Some (fieldOf f c)"
proof -
  have sec: "map_option (VInt \<circ> secondsDuration) (atoi (trimSpace (itoa (wholeSeconds d)))) = Some (VInt d)"
    if "wholeSec 9223372036854775808 d" for d
    using seconds_roundtrip [of d] that by (auto simp: option.map_comp [symmetric])
  have sock: "parseFloatSeconds (trimSpace (formatFloat1 d)) = Some d" if "wholeSec 9007199254740992 d" for d
    using sock_roundtrip [of d] that by simp
  have nil: "cfgSplitCSV [] = []" by (simp add: cfgSplitCSV_def)
  show ?thesis
    using assms
    by (cases f) (simp_all add: savable_def Let_def csv_roundtrip int_roundtrip bool_roundtrip level_roundtrip
        sec sock trimSpace_id nil del: trimSpace_itoa o_apply)
qed

lemma accepted_field:
  assumes "parseField f v \<noteq> None"
  shows "accepted (keyOf f) v"
proof (cases "v = [] \<and> keyOf f \<notin> set emptyKeys")
  case False
  then show ?thesis
    using assms unfolding accepted_def applyValue_def Let_def
    by (cases f) (auto simp: toLower_def lowerChar_def withInt_def split: option.splits go_result.splits)
next
  case True
  have "toLower (keyOf f) = keyOf f" by (cases f) (simp_all add: toLower_def lowerChar_def)
  with True show ?thesis by (simp add: accepted_def applyValue_def)
qed

lemma savedText_not_Nil:
  assumes "savable c" "keyOf f \<notin> set emptyKeys" "f \<noteq> FLogFile"
  shows "trimSpace (savedText c f) \<noteq> []"
proof (cases "f = FPacEncoding")
  case True
  then show ?thesis using assms(1) by (simp add: savable_def Let_def trimSpace_id)
next
  case False
  have "cfgSplitCSV [] = []" by (simp add: cfgSplitCSV_def)
  have n: "parseField f [] \<noteq> Some (fieldOf f c)"
    if "f \<in> {FPort, FWorkers, FThreads, FLog, FIdle, FProxyReload, FSockTimeout}"
    using that by (auto simp: atoi_def parseFloatSeconds_def parseMagnitude_def takeDigits_def parseDigits.simps
        toLower_def Let_def split: option.splits)
  have b: "trimSpace (boolString v) \<noteq> []" for v by (cases v) (simp_all add: boolString_def go_simps)
  have l: "trimSpace (levelString v) \<noteq> []" for v by (cases v) (simp_all add: go_simps)
  show ?thesis
  proof (cases "f \<in> {FPort, FWorkers, FThreads, FLog, FIdle, FProxyReload, FSockTimeout}")
    case True
    then show ?thesis using n field_roundtrip [OF assms(1), of f] by metis
  next
    case False
    then show ?thesis using assms(2,3) \<open>f \<noteq> FPacEncoding\<close> b l by (cases f) (simp_all add: emptyKeys_def)
  qed
qed

text \<open>C12: saving and loading.  When the INI package gives back the values that \<^verbatim>\<open>saveINI\<close> wrote, applying
  the file succeeds and restores every field, whatever configuration it is applied to (an empty log
  file name is not written over an existing one).  It needs a configuration that survives the
  text form: trimmed strings, no commas inside list items, 64-bit numbers and whole seconds.\<close>

theorem ini_roundtrip:
  assumes "savable c" "\<forall>(sec, key, v)\<in>set (saveINI c). g sec key = v"
    and "st_logFile (cf_settings c) = [] \<Longrightarrow> st_logFile (cf_settings c0) = []"
  shows "\<exists>c'. applyINI (Some g) c0 = (c', None) \<and> (\<forall>f. fieldOf f c' = fieldOf f c)"
proof -
  let ?vs = "map (\<lambda>f. (keyOf f, trimSpace (savedText c f))) allFields"
  have vs: "iniValues g = ?vs" by (rule iniValues_saved [OF assms(2)])
  have dk: "distinct (map fst ?vs)" using distinct_keyOf by (simp add: comp_def)
  have mo: "map_of ?vs (keyOf f) = Some (trimSpace (savedText c f))" for f
    using in_allFields [of f] by (intro map_of_is_SomeI [OF dk]) auto
  have acc: "accepted (keyOf f) (settingOf ?vs (keyOf f))" for f
    by (rule accepted_field) (simp add: settingOf_def mo field_roundtrip [OF assms(1)])
  have "\<forall>k\<in>fst ` set ?vs. accepted k (settingOf ?vs k)" using acc by (simp add: image_image)
  then have "snd (applyValues ?vs c0) = None" using applyValues_ok by blast
  then obtain c' where c': "applyValues ?vs c0 = (c', None)" by (metis prod.collapse)
  have "fieldOf f c' = fieldOf f c" for f
  proof -
    have td: "tidy ?vs" by (simp only: vs [symmetric] tidy_iniValues)
    have ok: "fst ` set ?vs \<inter> set (otherKeys f) = {}"
      by (simp only: vs [symmetric] iniKeys_disjoint)
    have "fieldOf f c' = assigned f (trimSpace (savedText c f)) (fieldOf f c0)"
      using applyValues_layer [OF c' td ok] by (simp add: layer_def mo)
    also have "\<dots> = fieldOf f c"
    proof (cases "f = FLogFile \<and> st_logFile (cf_settings c) = []")
      case True
      then show ?thesis using assms(3) by (simp add: assigned_def emptyKeys_def)
    next
      case False
      then have "\<not> (trimSpace (savedText c f) = [] \<and> keyOf f \<notin> set emptyKeys)"
      proof (cases "f = FLogFile")
        case True
        have "trimmed isSpace (st_logFile (cf_settings c))" using assms(1) by (simp add: savable_def Let_def)
        then show ?thesis using True False by (simp add: trimSpace_id)
      qed (use savedText_not_Nil [OF assms(1), of f] in blast)
      then show ?thesis using field_roundtrip [OF assms(1), of f] by (auto simp: assigned_def)
    qed
    finally show ?thesis .
  qed
  then show ?thesis using c' vs by (simp add: applyINI_def)
qed

text \<open>A file that holds what \<^verbatim>\<open>saveINI\<close> wrote.\<close>

definition savedFile :: "config \<Rightarrow> string \<Rightarrow> string \<Rightarrow> string" where
  "savedFile c sec key = (case map_of (map (\<lambda>(s, k, v). ((s, k), v)) (saveINI c)) (sec, key) of None \<Rightarrow> [] | Some v \<Rightarrow> v)"

lemma savedFile_reads: "\<forall>(sec, key, v)\<in>set (saveINI c). savedFile c sec key = v"
proof -
  have "map fst (map (\<lambda>(s, k, v). ((s, k), v)) (saveINI c)) = map (\<lambda>(s, k, v). (s, k)) (saveINI c)"
    by (simp add: case_prod_beta comp_def)
  then have "map fst (map (\<lambda>(s, k, v). ((s, k), v)) (saveINI c)) = iniKeys" by (simp only: saved_sections)
  moreover have "distinct iniKeys" by (simp add: iniKeys_def)
  ultimately have d: "distinct (map fst (map (\<lambda>(s, k, v). ((s, k), v)) (saveINI c)))" by (simp only:)
  have "savedFile c sec key = v" if "(sec, key, v) \<in> set (saveINI c)" for sec key v
  proof -
    have "((sec, key), v) \<in> set (map (\<lambda>(s, k, v). ((s, k), v)) (saveINI c))" using that by force
    then show ?thesis by (simp only: savedFile_def map_of_is_SomeI [OF d] option.case)
  qed
  then show ?thesis by blast
qed

theorem ini_roundtrip_witness:
  "\<exists>c'. applyINI (Some (savedFile Default)) (setProxy (\<lambda>p. p\<lparr>pc_port := 1, pc_listen := []\<rparr>) Default) = (c', None) \<and>
     fieldOf FPort c' = VInt 3128 \<and> fieldOf FListen c' = VList [''127.0.0.1'']"
proof -
  have s: "savable Default"
    by (simp add: savable_def Default_def csvSafe_def trimmed_def int64_def wholeSec_def second_def isSpace_def Let_def)
  obtain c' where "applyINI (Some (savedFile Default)) (setProxy (\<lambda>p. p\<lparr>pc_port := 1, pc_listen := []\<rparr>) Default) = (c', None)"
    "\<forall>f. fieldOf f c' = fieldOf f Default"
    using ini_roundtrip [OF s savedFile_reads, of "setProxy (\<lambda>p. p\<lparr>pc_port := 1, pc_listen := []\<rparr>) Default"]
    by (auto simp: setProxy_def Default_def)
  moreover have "fieldOf FPort Default = VInt 3128" "fieldOf FListen Default = VList [''127.0.0.1'']"
    by (simp_all add: Default_def)
  ultimately show ?thesis by metis
qed

section \<open>Order of application\<close>

lemma applyKeys_last:
  assumes "applyKeys vs (xs @ k # ys) c = (c', None)" "k = keyOf f"
    and "\<forall>k\<in>set (xs @ k # ys). toLower k = k" "k \<notin> set ys" "set ys \<inter> set (otherKeys f) = {}"
  shows "\<exists>c1. fieldOf f c' = assigned f (settingOf vs k) (fieldOf f c1)"
proof -
  obtain c1 where 1: "applyKeys vs (k # ys) c1 = (c', None)"
    using assms(1) by (auto simp: applyKeys_append split: prod.splits option.splits)
  then obtain c2 where 2: "applyValue k (settingOf vs k) c1 = Return c2" "applyKeys vs ys c2 = (c', None)"
    by (auto simp: settingOf_def split: go_result.splits)
  have "fieldOf f (fst (applyKeys vs ys c2)) = fieldOf f c2" using assms(2-5) by (intro applyKeys_frame) auto
  moreover have "fieldOf f c2 = assigned f (settingOf vs k) (fieldOf f c1)"
    using applyValue_own [OF 2(1)] assms(2,3) by simp
  ultimately show ?thesis using 2(2) by auto
qed

text \<open>Settings are applied in an order that does not depend on Go's random map order, so the same settings
  give the same configuration; and \<^verbatim>\<open>server\<close> wins over \<^verbatim>\<open>proxy\<close> when both are given.\<close>

lemma apply_values_deterministic:
  assumes "distinct (map fst vs)" "distinct (map fst vs')" "set vs = set vs'"
  shows "applyValues vs c = applyValues vs' c \<and>
    (\<forall>c' v v'. applyValues vs c = (c', None) \<and> tidy vs \<and> (''proxy'', v) \<in> set vs \<and> (''server'', v') \<in> set vs \<longrightarrow>
      pc_server (cf_proxy c') = cfgSplitCSV v')"
proof (intro conjI allI impI; (elim conjE)?)
  have mo: "map_of vs = map_of vs'" using assms by (simp add: map_of_inject_set)
  have ks: "sort (map fst vs) = sort (map fst vs')"
    using assms by (intro sorted_distinct_set_unique) (simp_all add: image_image)
  have "applyKeys vs ks c = applyKeys vs' ks c" for ks by (induction ks arbitrary: c) (simp_all add: mo split: go_result.split)
  then show "applyValues vs c = applyValues vs' c" by (simp add: applyValues_def ks)
next
  fix c' v v'
  assume a: "applyValues vs c = (c', None)" "tidy vs" "(''proxy'', v) \<in> set vs" "(''server'', v') \<in> set vs"
  let ?ks = "sort (map fst vs)"
  have "''server'' \<in> set ?ks" using a(4) by (auto simp: image_iff intro: bexI [of _ "(''server'', v')"])
  then obtain xs ys where s: "?ks = xs @ ''server'' # ys" by (meson split_list)
  have so: "sorted (xs @ ''server'' # ys)" "distinct (xs @ ''server'' # ys)"
    using s assms(1) by (metis sorted_sort, metis distinct_sort)
  have "''proxy'' < ''server''" by (simp add: less_char_def)
  then have "''proxy'' \<notin> set ys" using so(1) by (auto simp: sorted_append)
  moreover have "\<forall>k\<in>set (xs @ ''server'' # ys). toLower k = k"
    using a(2) by (simp only: s [symmetric]) (simp add: tidy_def)
  moreover have "applyKeys vs (xs @ ''server'' # ys) c = (c', None)" using a(1) by (simp only: applyValues_def s)
  ultimately have "\<exists>c1. fieldOf FServer c' = assigned FServer (settingOf vs ''server'') (fieldOf FServer c1)"
    using so(2) by (intro applyKeys_last [of vs xs "''server''" ys c]) (simp_all add: otherKeys_def)
  moreover have "settingOf vs ''server'' = v'" using a(4) assms(1) by (simp add: settingOf_def)
  ultimately show "pc_server (cf_proxy c') = cfgSplitCSV v'" by (auto simp: assigned_def emptyKeys_def)
qed

lemma apply_values_deterministic_witness:
  "\<exists>c'. applyValues [(''server'', ''b:2''), (''proxy'', ''a:1'')] Default = (c', None) \<and>
     applyValues [(''proxy'', ''a:1''), (''server'', ''b:2'')] Default = (c', None) \<and> pc_server (cf_proxy c') = [''b:2'']"
proof -
  let ?vs = "[(''proxy'', ''a:1''), (''server'', ''b:2'')]" and ?vs' = "[(''server'', ''b:2''), (''proxy'', ''a:1'')]"
  have d: "distinct (map fst ?vs)" "distinct (map fst ?vs')" "set ?vs = set ?vs'" by auto
  have "accepted ''proxy'' v \<and> accepted ''server'' v" for v
    by (simp add: accepted_def applyValue_def Let_def toLower_def lowerChar_def)
  then have "\<forall>k\<in>fst ` set ?vs. accepted k (settingOf ?vs k)" by simp
  then have "snd (applyValues ?vs Default) = None" using applyValues_ok by blast
  then obtain c' where c': "applyValues ?vs Default = (c', None)" by (metis prod.collapse)
  have "tidy ?vs" by (simp add: tidy_def toLower_def lowerChar_def)
  moreover have "(''proxy'', ''a:1'') \<in> set ?vs" "(''server'', ''b:2'') \<in> set ?vs" by simp_all
  moreover have "cfgSplitCSV ''b:2'' = [''b:2'']" by (simp add: cfgSplitCSV_def go_simps)
  ultimately show ?thesis using apply_values_deterministic [OF d, of Default] c' by metis
qed

section \<open>Relative PAC paths\<close>

text \<open>Normalisation resolves a relative PAC path against the directory of the configuration file, and
  the resolved path is what \<^verbatim>\<open>--save\<close> writes; with a relative path of the configuration file the result is
  relative again, so the next start resolves it a second time and looks in a directory that
  does not exist.\<close>

lemma relative_pac_resolved_twice:
  assumes "sp_configPath (cf_special c) = ''conf/px.ini''" "pc_pac (cf_proxy c) = ''p.pac''"
  shows "(''proxy'', ''pac'', ''conf/p.pac'') \<in> set (saveINI (normalize w c)) \<and>
    pc_pac (cf_proxy (normalize w (normalize w c))) = ''conf/conf/p.pac''"
proof -
  have r: "resolvePACPath w ''p.pac'' ''conf/px.ini'' = ''conf/p.pac''"
    "resolvePACPath w ''conf/p.pac'' ''conf/px.ini'' = ''conf/conf/p.pac''"
    by (simp_all add: resolvePACPath_def isAbsPath_def joinPath_def dirPath_def cleanPath_def cleanStep_def lastCut_def Let_def go_simps)
  have "pc_pac (cf_proxy (normalize w c)) = ''conf/p.pac''" "sp_configPath (cf_special (normalize w c)) = ''conf/px.ini''"
    using assms r(1) by (simp_all add: normalize_def Let_def)
  moreover have "pc_pac (cf_proxy (normalize w d)) = resolvePACPath w (pc_pac (cf_proxy d)) (sp_configPath (cf_special d))" for d
    by (simp add: normalize_def Let_def)
  ultimately show ?thesis using r(2) by (simp add: saveINI_def Let_def)
qed

lemma relative_pac_resolved_twice_witness:
  "pc_pac (cf_proxy (normalize (bareOS Map.empty) (normalize (bareOS Map.empty)
     (setConfigPath ''conf/px.ini'' (setProxy (\<lambda>p. p\<lparr>pc_pac := ''p.pac''\<rparr>) Default))))) = ''conf/conf/p.pac''"
proof -
  let ?c = "setConfigPath ''conf/px.ini'' (setProxy (\<lambda>p. p\<lparr>pc_pac := ''p.pac''\<rparr>) Default)"
  have "sp_configPath (cf_special ?c) = ''conf/px.ini''" "pc_pac (cf_proxy ?c) = ''p.pac''"
    by (simp_all add: setConfigPath_def setSpecial_def setProxy_def)
  from relative_pac_resolved_twice [OF this] show ?thesis by blast
qed

end
