(* ===== verification/Platform.thy ===== *)
theory Platform
  imports Config_Load
begin

text \<open>
  \<^verbatim>\<open>internal/platform\<close>: what the operating system says about proxies, and start at login.  The
  WinHTTP call and its strings are arguments (\<open>winhttp\<close> gives the raw structure, with
  \<^const>\<open>None\<close> for a null pointer); the \<^verbatim>\<open>Run\<close> key of the registry is a map, or \<^const>\<open>None\<close> when it
  cannot be opened.
\<close>

record proxyInfo =
  pi_servers :: "string list"
  pi_pac :: string
  pi_bypass :: string

definition emptyInfo :: proxyInfo where
  "emptyInfo = \<lparr>pi_servers = [], pi_pac = [], pi_bypass = []\<rparr>"

section \<open>Unix\<close>

definition unixLoadProxyInfo :: "string \<Rightarrow> proxyInfo go_result" where
  "unixLoadProxyInfo rawURL = Return emptyInfo"

section \<open>Windows\<close>

record ieProxyConfig =
  ie_autoDetect :: "32 word"
  ie_autoConfigURL :: string
  ie_proxy :: string
  ie_proxyBypass :: string

record winhttpConfig =
  wh_autoDetect :: "32 word"
  wh_autoConfigUrl :: "string option"
  wh_proxy :: "string option"
  wh_proxyBypass :: "string option"

definition ptrToString :: "string option \<Rightarrow> string" where
  "ptrToString ptr = (case ptr of None \<Rightarrow> [] | Some s \<Rightarrow> s)"

definition winHTTPGetIEProxyConfig :: "winhttpConfig option \<Rightarrow> ieProxyConfig go_result" where
  "winHTTPGetIEProxyConfig winhttp =
     (case winhttp of
        None \<Rightarrow> Error ''winhttp''
      | Some raw \<Rightarrow>
          Return \<lparr>ie_autoDetect = wh_autoDetect raw, ie_autoConfigURL = ptrToString (wh_autoConfigUrl raw),
            ie_proxy = ptrToString (wh_proxy raw), ie_proxyBypass = ptrToString (wh_proxyBypass raw)\<rparr>)"

definition parseProxyString :: "string \<Rightarrow> string list" where
  "parseProxyString raw =
     filter (\<lambda>part. part \<noteq> [])
       (map (\<lambda>part. trimSpace (if CHR ''='' \<in> set part then fst (snd (cutChar CHR ''='' part)) else part))
         (fieldsFunc (\<lambda>c. c = CHR '';'' \<or> c = CHR '' '') raw))"

definition windowsLoadProxyInfo :: "winhttpConfig option \<Rightarrow> string \<Rightarrow> proxyInfo go_result" where
  "windowsLoadProxyInfo winhttp rawURL =
     go_bind (winHTTPGetIEProxyConfig winhttp) (\<lambda>cfg.
       (let i0 = emptyInfo;
            i1 = (if ie_autoConfigURL cfg \<noteq> [] then i0\<lparr>pi_pac := ie_autoConfigURL cfg\<rparr> else i0);
            i2 = (if ie_proxy cfg \<noteq> [] then i1\<lparr>pi_servers := parseProxyString (ie_proxy cfg)\<rparr> else i1);
            i3 = (if ie_proxyBypass cfg \<noteq> [] then i2\<lparr>pi_bypass := ie_proxyBypass cfg\<rparr> else i2)
        in Return i3))"

text \<open>\<^verbatim>\<open>filepath.Ext\<close> on Windows, where both slashes separate.\<close>

definition extWindows :: "string \<Rightarrow> string" where
  "extWindows p =
     (case lastCut CHR ''.'' (rev (takeWhile (\<lambda>c. c \<noteq> CHR ''/'' \<and> c \<noteq> CHR 0x5C) (rev p))) of
        None \<Rightarrow> [] | Some (a, b) \<Rightarrow> CHR ''.'' # b)"

text \<open>The command stored under \<^verbatim>\<open>Px\<close> in the \<^verbatim>\<open>Run\<close> key: the windowless executable when there is one.\<close>

definition installCommand :: "(string \<Rightarrow> bool) \<Rightarrow> string \<Rightarrow> string \<Rightarrow> string" where
  "installCommand exists exe configPath =
     (let windowless = trimSuffix exe (extWindows exe) @ ''w'' @ extWindows exe;
          prog = (if exists windowless then windowless else exe)
      in [CHR 0x22] @ prog @ [CHR 0x22] @ '' --config='' @ [CHR 0x22] @ configPath @ [CHR 0x22])"

definition windowsInstall ::
    "(string \<Rightarrow> bool) \<Rightarrow> string option \<Rightarrow> string \<Rightarrow> (string \<Rightarrow> string option) option \<Rightarrow> (string \<Rightarrow> string option) go_result" where
  "windowsInstall exists exe configPath registry =
     (case exe of
        None \<Rightarrow> Error ''executable''
      | Some e \<Rightarrow>
          (case registry of
             None \<Rightarrow> Error ''create key''
           | Some m \<Rightarrow> Return (m(''Px'' \<mapsto> installCommand exists e configPath))))"

definition windowsUninstall :: "(string \<Rightarrow> string option) option \<Rightarrow> (string \<Rightarrow> string option) go_result" where
  "windowsUninstall registry =
     (case registry of
        None \<Rightarrow> Error ''open key''
      | Some m \<Rightarrow> if m ''Px'' = None then Error ''delete value'' else Return (m(''Px'' := None)))"

end
