(* ===== verification/Kerberos.thy ===== *)
theory Kerberos
  imports Config_Load
begin

text \<open>
  \<^verbatim>\<open>internal/kerberos/kerberos.go\<close>: the manager that keeps a ticket by running \<^verbatim>\<open>klist\<close> and \<^verbatim>\<open>kinit\<close>.
  A run of a command is its name and arguments, what is added to its environment and its input; which
  runs succeed is the argument \<open>run\<close>.  Functions give the commands they run, in order.
\<close>

record krbManager =
  km_principal :: string
  km_password :: string
  km_cachePath :: string

record command =
  cm_argv :: "string list"
  cm_env :: "string list"
  cm_stdin :: string

definition newManager :: "string option \<Rightarrow> bool \<Rightarrow> int \<Rightarrow> string \<Rightarrow> string \<Rightarrow> krbManager go_result" where
  "newManager userCacheDir mkdirOk pid princ password =
     (if princ = [] then Error ''kerberos principal is required''
      else
        (let dir0 = (case userCacheDir of None \<Rightarrow> ''.'' | Some d \<Rightarrow> d);
             dir = joinPath [dir0, ''px-go'']
         in if \<not> mkdirOk then Error ''mkdir''
            else Return \<lparr>km_principal = princ, km_password = password,
              km_cachePath = joinPath [dir, ''krb5cc_px_'' @ itoa pid]\<rparr>))"

definition krbEnv :: "krbManager option \<Rightarrow> string list" where
  "krbEnv m = (case m of None \<Rightarrow> [] | Some k \<Rightarrow> [''KRB5CCNAME=FILE:'' @ km_cachePath k])"

definition klist :: "krbManager \<Rightarrow> command" where
  "klist m = \<lparr>cm_argv = [''klist'', ''-s''], cm_env = krbEnv (Some m), cm_stdin = []\<rparr>"

definition renew :: "krbManager \<Rightarrow> command" where
  "renew m = \<lparr>cm_argv = [''kinit'', ''-R''], cm_env = krbEnv (Some m), cm_stdin = []\<rparr>"

definition kinit :: "krbManager \<Rightarrow> command option" where
  "kinit m =
     (if trimSpace (km_password m) = [] then None
      else Some \<lparr>cm_argv = [''kinit'', km_principal m], cm_env = krbEnv (Some m), cm_stdin = km_password m @ [CHR 0x0A]\<rparr>)"

text \<open>\<^verbatim>\<open>Ensure\<close>: whether it succeeded, and the commands it ran.\<close>

definition ensureTicket :: "(command \<Rightarrow> bool) \<Rightarrow> krbManager option \<Rightarrow> bool \<times> command list" where
  "ensureTicket run mo =
     (case mo of
        None \<Rightarrow> (True, [])
      | Some m \<Rightarrow>
          if run (klist m) then (True, [klist m])
          else if run (renew m) then (True, [klist m, renew m])
          else
            (case kinit m of
               None \<Rightarrow> (False, [klist m, renew m])
             | Some k \<Rightarrow> (run k, [klist m, renew m, k])))"

text \<open>The goroutine of \<^verbatim>\<open>Start\<close>: one \<^verbatim>\<open>Ensure\<close> at once and one per tick until the context is done.  The
  argument lists what the \<^verbatim>\<open>select\<close> receives, each with the outcomes of the commands then run.\<close>

datatype wakeup = Tick "command \<Rightarrow> bool" | CtxDone

fun ticketLoop :: "krbManager \<Rightarrow> wakeup list \<Rightarrow> command list" where
  "ticketLoop m [] = []"
| "ticketLoop m (CtxDone # ws) = []"
| "ticketLoop m (Tick run # ws) = snd (ensureTicket run (Some m)) @ ticketLoop m ws"

definition startManager :: "(command \<Rightarrow> bool) \<Rightarrow> krbManager option \<Rightarrow> wakeup list \<Rightarrow> command list" where
  "startManager run mo ws =
     (case mo of None \<Rightarrow> [] | Some m \<Rightarrow> snd (ensureTicket run mo) @ ticketLoop m ws)"

text \<open>\<^verbatim>\<open>Close\<close>: the file it removes.\<close>

definition closeManager :: "krbManager option \<Rightarrow> string option" where
  "closeManager mo = map_option km_cachePath mo"

end
