(* ===== verification/Proxy_Route.thy ===== *)
theory Proxy_Route
  imports Network Config_Load Pac_Eval Platform Kerberos Client_Auth
begin

text \<open>
  \<^verbatim>\<open>internal/proxy/handler.go\<close>, the parts without I/O: where a request goes, and the requests and
  responses as they are forwarded.  What the DNS, the platform and the PAC evaluator answer in a call
  are arguments; \<open>findProxy e u h\<close> is the result of \<^verbatim>\<open>FindProxyForURL\<close>, whose own behaviour is the step
  relation of the theory of the evaluator.
\<close>

section \<open>Routes\<close>

record route =
  rt_direct :: bool
  rt_proxies :: "string list"

definition directRoute :: route where
  "directRoute = \<lparr>rt_direct = True, rt_proxies = []\<rparr>"

definition proxyRoute :: "string list \<Rightarrow> route" where
  "proxyRoute ps = \<lparr>rt_direct = False, rt_proxies = ps\<rparr>"

definition originURL :: "string \<Rightarrow> request \<Rightarrow> url" where
  "originURL scheme r =
     emptyURL\<lparr>u_scheme := scheme, u_host := r_host r, u_path := u_path (r_url r), u_rawQuery := u_rawQuery (r_url r)\<rparr>"

definition absoluteURL :: "request \<Rightarrow> string" where
  "absoluteURL r =
     (if isAbs (r_url r) then urlString (r_url r)
      else urlString (originURL (if r_tls r then ''https'' else ''http'') r))"

text \<open>The part of an entry after its first blank, as \<^verbatim>\<open>IndexByte\<close> finds it.\<close>

definition afterBlank :: "string \<Rightarrow> string option" where
  "afterBlank s = (case cutChar CHR '' '' s of (a, b, ok) \<Rightarrow> if ok then Some b else None)"

definition parsePACPart :: "string \<Rightarrow> string option" where
  "parsePACPart part0 =
     (let part = trimSpace part0
      in if part = [] \<or> equalFold part ''DIRECT'' then None
         else
           (let host = (case afterBlank part of None \<Rightarrow> part | Some b \<Rightarrow> trimSpace b)
            in if host \<noteq> [] then Some host else None))"

definition parsePACResult :: "string \<Rightarrow> string list" where
  "parsePACResult raw = List.map_filter parsePACPart (fieldsFunc (\<lambda>c. c = CHR '';'' \<or> c = CHR '','') raw)"

definition pacPrefixes :: "string list" where
  "pacPrefixes = [''PROXY'', ''HTTP'', ''HTTPS'', ''SOCKS'', ''SOCKS5'']"

definition normalizeProxyAddr :: "string \<Rightarrow> string" where
  "normalizeProxyAddr raw0 =
     (let raw = (case cutChar CHR '' '' raw0 of (a, b, ok) \<Rightarrow>
            if ok \<and> toUpper a \<in> set pacPrefixes then trimSpace b else raw0)
      in if containsStr raw ''://'' then
           (case urlParse raw of
              Some parsed \<Rightarrow> if u_host parsed \<noteq> [] then u_host parsed else raw
            | None \<Rightarrow> raw)
         else raw)"

section \<open>The routing decision\<close>

record server =
  sv_cfg :: config
  sv_clientAuth :: handler
  sv_allow :: "matcher option"
  sv_noproxy :: "matcher option"
  sv_pac :: "evaluator option"
  sv_kerberos :: "krbManager option"
  sv_creds :: credentials
  sv_locals :: "string set"

definition ensurePlatformPAC :: "string \<Rightarrow> server \<Rightarrow> evaluator \<times> server" where
  "ensurePlatformPAC source0 s =
     (case sv_pac s of
        Some e \<Rightarrow> (e, s)
      | None \<Rightarrow>
          (let e = newEvaluator source0 (pc_pacEncoding (cf_proxy (sv_cfg s))) (st_proxyReload (cf_settings (sv_cfg s)))
           in (e, s\<lparr>sv_pac := Some e\<rparr>)))"

definition pacRoute :: "string \<Rightarrow> route" where
  "pacRoute result = (let parsed = parsePACResult result in if parsed = [] then directRoute else proxyRoute parsed)"

definition routeHost :: "request \<Rightarrow> string" where
  "routeHost r = (let host = hostname (r_url r) in if host = [] then trimSuffix (r_host r) '':443'' else host)"

definition resolveRoute ::
    "resolver \<Rightarrow> (string \<Rightarrow> proxyInfo go_result) \<Rightarrow> (evaluator \<Rightarrow> string \<Rightarrow> string \<Rightarrow> string) \<Rightarrow> request \<Rightarrow> server \<Rightarrow>
     (route \<times> server) go_result" where
  "resolveRoute dns plat findProxy r s =
     (let host = routeHost r
      in go_bind (matchHost dns (sv_noproxy s) host (Some (defaultResolver dns))) (\<lambda>bypass.
        if bypass then Return (directRoute, s)
        else
          (case sv_pac s of
             Some e \<Rightarrow> Return (pacRoute (findProxy e (absoluteURL r) host), s)
           | None \<Rightarrow>
               if pc_server (cf_proxy (sv_cfg s)) \<noteq> [] then Return (proxyRoute (pc_server (cf_proxy (sv_cfg s))), s)
               else
                 (case plat (absoluteURL r) of
                    Return info \<Rightarrow>
                      if pi_pac info \<noteq> [] then
                        (case ensurePlatformPAC (pi_pac info) s of (e, s') \<Rightarrow>
                           Return (pacRoute (findProxy e (absoluteURL r) host), s'))
                      else if pi_servers info \<noteq> [] then Return (proxyRoute (pi_servers info), s)
                      else Return (directRoute, s)
                  | Error err \<Rightarrow> Return (directRoute, s)
                  | Panic p \<Rightarrow> Panic p))))"

section \<open>Forwarded requests and responses\<close>

definition hopRequestHeaders :: "string list" where
  "hopRequestHeaders = [''Connection'', ''Proxy-Connection'', ''Keep-Alive'', ''Proxy-Authenticate'', ''Proxy-Authorization'',
     ''Te'', ''Trailers'', ''Transfer-Encoding'', ''Upgrade'']"

definition hopResponseHeaders :: "string list" where
  "hopResponseHeaders = [''Connection'', ''Proxy-Connection'', ''Keep-Alive'', ''Proxy-Authorization'', ''Te'', ''Trailers'',
     ''Transfer-Encoding'', ''Upgrade'']"

definition removeHopRequestHeaders :: "header \<Rightarrow> header" where
  "removeHopRequestHeaders h = fold (\<lambda>key h. hdrDel h key) hopRequestHeaders h"

definition removeHopResponseHeaders :: "header \<Rightarrow> header" where
  "removeHopResponseHeaders h = fold (\<lambda>key h. hdrDel h key) hopResponseHeaders h"

definition hopHeader :: "string \<Rightarrow> bool" where
  "hopHeader key \<longleftrightarrow> toLower key \<in> {''connection'', ''proxy-connection'', ''keep-alive'', ''proxy-authenticate'',
     ''proxy-authorization'', ''te'', ''trailers'', ''transfer-encoding'', ''upgrade''}"

definition cloneForTransport :: "request \<Rightarrow> string \<Rightarrow> request" where
  "cloneForTransport r body =
     (let clone = r\<lparr>r_close := False, r_body := body, r_header := removeHopRequestHeaders (r_header r)\<rparr>
      in if \<not> isAbs (r_url r) then clone\<lparr>r_url := originURL (if r_tls r then ''https'' else ''http'') r\<rparr> else clone)"

definition cloneForWrite :: "request \<Rightarrow> string \<Rightarrow> string \<Rightarrow> bool \<Rightarrow> request" where
  "cloneForWrite r body authHeader preserveClientProxyAuth =
     (let h0 = removeHopRequestHeaders (r_header r);
          own = hdrGet (r_header r) ''Proxy-Authorization'';
          h1 = (if preserveClientProxyAuth \<and> own \<noteq> [] \<and> authHeader = [] then hdrSet h0 ''Proxy-Authorization'' own else h0);
          h2 = (if authHeader \<noteq> [] then hdrSet h1 ''Proxy-Authorization'' authHeader else h1);
          clone = r\<lparr>r_close := False, r_body := body, r_header := h2\<rparr>
      in if u_scheme (r_url r) = [] then clone\<lparr>r_url := originURL ''http'' r\<rparr> else clone)"

definition targetHostPort :: "request \<Rightarrow> string" where
  "targetHostPort r = (if r_host r \<noteq> [] then r_host r else u_host (r_url r))"

definition crlf :: string where
  "crlf = [CHR 0x0D, CHR 0x0A]"

text \<open>The text \<^verbatim>\<open>writeConnectRequest\<close> sends; the order of the header map is Go's.\<close>

definition connectHeader :: "string \<Rightarrow> bool \<Rightarrow> string \<times> string list \<Rightarrow> string" where
  "connectHeader authHeader preserveClientProxyAuth kv =
     (case kv of (key, values) \<Rightarrow>
        if hopHeader key then []
        else if equalFold key ''Proxy-Authorization'' \<and> (\<not> preserveClientProxyAuth \<or> authHeader \<noteq> []) then []
        else concat (map (\<lambda>v. key @ '': '' @ v @ crlf) values))"

definition writeConnectRequest :: "request \<Rightarrow> string \<Rightarrow> bool \<Rightarrow> string" where
  "writeConnectRequest r authHeader preserveClientProxyAuth =
     (let target = targetHostPort r
      in ''CONNECT '' @ target @ '' HTTP/1.1'' @ crlf @ ''Host: '' @ target @ crlf @
         concat (map (connectHeader authHeader preserveClientProxyAuth) (r_header r)) @
         (if authHeader \<noteq> [] then ''Proxy-Authorization: '' @ authHeader @ crlf else []) @ crlf)"

fun challengeForScheme :: "string list \<Rightarrow> string \<Rightarrow> string" where
  "challengeForScheme [] scheme = []"
| "challengeForScheme (value # rest) scheme =
     (case splitN2 CHR '' '' (trimSpace value) of
        [p0, p1] \<Rightarrow> if equalFold p0 scheme then p1 else challengeForScheme rest scheme
      | p0 # _ \<Rightarrow> if equalFold p0 scheme then [] else challengeForScheme rest scheme
      | [] \<Rightarrow> challengeForScheme rest scheme)"

text \<open>What is written to the client: status, header map, body.\<close>

record reply =
  rp_status :: int
  rp_header :: header
  rp_body :: string

definition addAll :: "header \<Rightarrow> header \<Rightarrow> header" where
  "addAll src dst = fold (\<lambda>(k, vs) h. fold (\<lambda>v h. hdrAdd h k v) vs h) src dst"

definition copyResponse :: "response \<Rightarrow> string \<Rightarrow> reply" where
  "copyResponse resp readable =
     \<lparr>rp_status = p_status resp, rp_header = addAll (removeHopResponseHeaders (p_header resp)) [], rp_body = readable\<rparr>"

definition httpError :: "string \<Rightarrow> int \<Rightarrow> reply" where
  "httpError msg code =
     \<lparr>rp_status = code, rp_header = [(''Content-Type'', [''text/plain; charset=utf-8'']), (''X-Content-Type-Options'', [''nosniff''])],
      rp_body = msg @ [CHR 0x0A]\<rparr>"

end
