(* ===== verification/Proxy_Upstream.thy ===== *)
theory Proxy_Upstream
  imports Proxy_Route
begin

text \<open>
  \<^verbatim>\<open>internal/proxy/handler.go\<close>, the parts with I/O: a request through an upstream proxy with its
  authentication, a \<^verbatim>\<open>CONNECT\<close> tunnel, and the two handlers.  The network is a state \<open>'w\<close> with the
  operations of \<open>upEnv\<close>; timeouts are failures of these operations, and a tag (\<open>''dial''\<close>, \<open>''write''\<close>, \<open>''read''\<close>,
  \<open>''direct''\<close>) stands for the text of an error of the network.  What the code does to connections, sessions and
  the semaphore is kept in order in a list of actions.
\<close>

section \<open>Network and actions\<close>

datatype act =
  Dialled string nat
| Sent nat request
| SentText nat string
| Received nat response
| ClosedConn nat
| ClosedSession
| Hijacked
| Established
| SemReleased
| Relayed nat

record 'w run =
  run_world :: 'w
  run_acts :: "act list"

record ('c, 'w) upEnv =
  ue_auth :: "'c authEnv"
  ue_dial :: "string \<Rightarrow> 'w \<Rightarrow> nat option \<times> 'w"
  ue_send :: "nat \<Rightarrow> request \<Rightarrow> 'w \<Rightarrow> bool \<times> 'w"
  ue_write :: "nat \<Rightarrow> string \<Rightarrow> 'w \<Rightarrow> bool \<times> 'w"
  ue_read :: "nat \<Rightarrow> 'w \<Rightarrow> (response \<times> nat) option \<times> 'w"
  ue_random :: "'w \<Rightarrow> string"
  ue_direct :: "request \<Rightarrow> 'w \<Rightarrow> response option \<times> 'w"
  ue_hijacker :: bool
  ue_hijack :: "'w \<Rightarrow> bool \<times> 'w"

definition logAct :: "act \<Rightarrow> 'w run \<Rightarrow> 'w run" where
  "logAct a st = st\<lparr>run_acts := run_acts st @ [a]\<rparr>"

definition doDial :: "('c, 'w) upEnv \<Rightarrow> string \<Rightarrow> 'w run \<Rightarrow> nat option \<times> 'w run" where
  "doDial env addr st =
     (case ue_dial env addr (run_world st) of
        (None, w) \<Rightarrow> (None, st\<lparr>run_world := w\<rparr>)
      | (Some c, w) \<Rightarrow> (Some c, logAct (Dialled addr c) (st\<lparr>run_world := w\<rparr>)))"

definition doSend :: "('c, 'w) upEnv \<Rightarrow> nat \<Rightarrow> request \<Rightarrow> 'w run \<Rightarrow> bool \<times> 'w run" where
  "doSend env c req st =
     (case ue_send env c req (run_world st) of (ok, w) \<Rightarrow> (ok, logAct (Sent c req) (st\<lparr>run_world := w\<rparr>)))"

definition doWrite :: "('c, 'w) upEnv \<Rightarrow> nat \<Rightarrow> string \<Rightarrow> 'w run \<Rightarrow> bool \<times> 'w run" where
  "doWrite env c text0 st =
     (case ue_write env c text0 (run_world st) of (ok, w) \<Rightarrow> (ok, logAct (SentText c text0) (st\<lparr>run_world := w\<rparr>)))"

text \<open>A response comes with the number of bytes of its body that the buffered reader already holds.\<close>

definition doRead :: "('c, 'w) upEnv \<Rightarrow> nat \<Rightarrow> 'w run \<Rightarrow> (response \<times> nat) option \<times> 'w run" where
  "doRead env c st =
     (case ue_read env c (run_world st) of
        (None, w) \<Rightarrow> (None, st\<lparr>run_world := w\<rparr>)
      | (Some (resp, buffered), w) \<Rightarrow> (Some (resp, buffered), logAct (Received c resp) (st\<lparr>run_world := w\<rparr>)))"

section \<open>Authentication with an upstream proxy\<close>

definition authNone :: "server \<Rightarrow> bool" where
  "authNone s = equalFold (pc_auth (cf_proxy (sv_cfg s))) ''NONE''"

text \<open>What follows a challenge: no common scheme, an error or a panic (with the session as it then is), or the next
  header and session.\<close>

datatype 'c nextAuth =
  NoScheme
| AuthFailed string "'c session option"
| AuthPanic string "'c session option"
| NextHeader string "'c session"

definition tokenResult :: "(string \<times> bool) go_result \<times> 'c session \<Rightarrow> 'c nextAuth" where
  "tokenResult res =
     (case res of
        (Return (header, done'), session) \<Rightarrow> NextHeader header session
      | (Error e, session) \<Rightarrow> AuthFailed e (Some session)
      | (Panic p, session) \<Rightarrow> AuthPanic p (Some session))"

definition answerChallenge ::
    "('c, 'w) upEnv \<Rightarrow> server \<Rightarrow> string \<Rightarrow> string \<Rightarrow> request \<Rightarrow> string list \<Rightarrow> 'c session option \<Rightarrow> 'c nextAuth" where
  "answerChallenge env s proxyAddr rnd r challenges session0 =
     (case session0 of
        None \<Rightarrow>
          (case ChooseScheme (pc_auth (cf_proxy (sv_cfg s))) challenges of
             None \<Rightarrow> NoScheme
           | Some (scheme, challenge0) \<Rightarrow>
               (case NewSession (ue_auth env) (sv_creds s) scheme proxyAddr of
                  Error e \<Rightarrow> AuthFailed e None
                | Panic p \<Rightarrow> AuthPanic p None
                | Return session \<Rightarrow> tokenResult (token (ue_auth env) rnd r challenge0 session)))
      | Some session \<Rightarrow>
          tokenResult (token (ue_auth env) rnd r (challengeForScheme challenges (sessionScheme session)) session))"

section \<open>A request through a proxy\<close>

text \<open>The variables of \<^verbatim>\<open>roundTripProxy\<close> that live across attempts.\<close>

record 'c attempt =
  at_conn :: "nat option"
  at_session :: "'c session option"
  at_header :: string

definition closeConn :: "'c attempt \<Rightarrow> 'w run \<Rightarrow> 'c attempt \<times> 'w run" where
  "closeConn a st =
     (case at_conn a of None \<Rightarrow> (a, st) | Some c \<Rightarrow> (a\<lparr>at_conn := None\<rparr>, logAct (ClosedConn c) st))"

definition upstreamRequest :: "server \<Rightarrow> request \<Rightarrow> string \<Rightarrow> string \<Rightarrow> request" where
  "upstreamRequest s r body header =
     (let req = cloneForWrite r body header (authNone s);
          ua = pc_userAgent (cf_proxy (sv_cfg s))
      in if ua \<noteq> [] then req\<lparr>r_header := hdrSet (r_header req) ''User-Agent'' ua\<rparr> else req)"

definition connFor :: "('c, 'w) upEnv \<Rightarrow> string \<Rightarrow> 'c attempt \<Rightarrow> 'w run \<Rightarrow> nat option \<times> 'w run" where
  "connFor env proxyAddr a st =
     (case at_conn a of Some c \<Rightarrow> (Some c, st) | None \<Rightarrow> doDial env (normalizeProxyAddr proxyAddr) st)"

text \<open>The loop over the attempts; a response is returned with its connection.\<close>

type_synonym proxied = "(response \<times> nat \<times> nat) go_result"

fun proxyAttempts ::
    "('c, 'w) upEnv \<Rightarrow> server \<Rightarrow> request \<Rightarrow> string \<Rightarrow> string \<Rightarrow> nat \<Rightarrow> 'c attempt \<Rightarrow> 'w run \<Rightarrow> proxied \<times> 'c attempt \<times> 'w run" where
  "proxyAttempts env s r body proxyAddr 0 a st = (Error ''proxy authentication failed'', closeConn a st)"
| "proxyAttempts env s r body proxyAddr (Suc n) a0 st0 =
     (case connFor env proxyAddr a0 st0 of
        (None, st) \<Rightarrow> (Error ''dial'', a0, st)
      | (Some c, st1) \<Rightarrow>
          (let a = a0\<lparr>at_conn := Some c\<rparr>
           in case doSend env c (upstreamRequest s r body (at_header a)) st1 of
                (False, st) \<Rightarrow> (Error ''write'', closeConn a st)
              | (True, st2) \<Rightarrow>
                  (case doRead env c st2 of
                     (None, st) \<Rightarrow> (Error ''read'', closeConn a st)
                   | (Some (resp, buffered), st) \<Rightarrow>
                       if p_status resp \<noteq> 407 \<or> authNone s then (Return (resp, c, buffered), a, st)
                       else
                         (case answerChallenge env s proxyAddr (ue_random env (run_world st)) r
                                 (hdrValues (p_header resp) ''Proxy-Authenticate'') (at_session a) of
                            NoScheme \<Rightarrow> (Return (resp, c, buffered), a, st)
                          | AuthFailed e session \<Rightarrow> (Error e, closeConn (a\<lparr>at_session := session\<rparr>) st)
                          | AuthPanic p session \<Rightarrow> (Panic p, a\<lparr>at_session := session\<rparr>, st)
                          | NextHeader header session \<Rightarrow>
                              (let a' = a\<lparr>at_session := Some session, at_header := header\<rparr>
                               in case (if p_close resp then closeConn a' st else (a', st)) of (a'', st') \<Rightarrow>
                                    proxyAttempts env s r body proxyAddr n a'' st')))))"

text \<open>The deferred functions run last in, first out: the session is closed, then the connection.\<close>

definition runDeferred :: "'c attempt \<Rightarrow> 'w run \<Rightarrow> 'w run" where
  "runDeferred a st = snd (closeConn a (if at_session a \<noteq> None then logAct ClosedSession st else st))"

definition roundTripProxy ::
    "('c, 'w) upEnv \<Rightarrow> server \<Rightarrow> request \<Rightarrow> string \<Rightarrow> string \<Rightarrow> 'w run \<Rightarrow> proxied \<times> 'w run" where
  "roundTripProxy env s r body proxyAddr st =
     (case proxyAttempts env s r body proxyAddr 4 \<lparr>at_conn = None, at_session = None, at_header = []\<rparr> st of
        (res, a, st') \<Rightarrow> (res, runDeferred a st'))"

section \<open>A tunnel through a proxy\<close>

text \<open>Bytes that follow the answer 200 in the reader's buffer, which the source drops with the reader, are not part of the model.\<close>

fun connectAttempts ::
    "('c, 'w) upEnv \<Rightarrow> server \<Rightarrow> request \<Rightarrow> string \<Rightarrow> nat \<Rightarrow> nat \<Rightarrow> 'c session option \<Rightarrow> string \<Rightarrow> 'w run \<Rightarrow>
     nat go_result \<times> 'c session option \<times> 'w run" where
  "connectAttempts env s r proxyAddr c 0 session header st =
     (Error ''proxy connect authentication failed'', session, logAct (ClosedConn c) st)"
| "connectAttempts env s r proxyAddr c (Suc n) session header st0 =
     (case doWrite env c (writeConnectRequest r header (authNone s)) st0 of
        (False, st) \<Rightarrow> (Error ''write'', session, logAct (ClosedConn c) st)
      | (True, st1) \<Rightarrow>
          (case doRead env c st1 of
             (None, st) \<Rightarrow> (Error ''read'', session, logAct (ClosedConn c) st)
           | (Some (resp, buffered), st) \<Rightarrow>
               if p_status resp = 200 then (Return c, session, st)
               else if p_status resp \<noteq> 407 \<or> authNone s then (Error ''proxy connect failed'', session, logAct (ClosedConn c) st)
               else
                 (case answerChallenge env s proxyAddr (ue_random env (run_world st)) r
                         (hdrValues (p_header resp) ''Proxy-Authenticate'') session of
                    NoScheme \<Rightarrow> (Error ''no compatible upstream auth scheme'', session, st)
                  | AuthFailed e session' \<Rightarrow> (Error e, session', st)
                  | AuthPanic p session' \<Rightarrow> (Panic p, session', st)
                  | NextHeader header' session' \<Rightarrow>
                      connectAttempts env s r proxyAddr c n (Some session') header' st)))"

definition connectViaProxy ::
    "('c, 'w) upEnv \<Rightarrow> server \<Rightarrow> request \<Rightarrow> string \<Rightarrow> 'w run \<Rightarrow> nat go_result \<times> 'w run" where
  "connectViaProxy env s r proxyAddr st0 =
     (case doDial env (normalizeProxyAddr proxyAddr) st0 of
        (None, st) \<Rightarrow> (Error ''dial'', st)
      | (Some c, st1) \<Rightarrow>
          (case connectAttempts env s r proxyAddr c 4 None [] st1 of (res, session, st) \<Rightarrow>
             (res, if session \<noteq> None then logAct ClosedSession st else st)))"

section \<open>The handlers\<close>

definition maxRequestBody :: nat where
  "maxRequestBody = 64 * 2 ^ 20"

definition directRequest :: "server \<Rightarrow> request \<Rightarrow> string \<Rightarrow> request" where
  "directRequest s r body =
     (let req = cloneForTransport r body;
          ua = pc_userAgent (cf_proxy (sv_cfg s))
      in if ua \<noteq> [] then req\<lparr>r_header := hdrSet (r_header req) ''User-Agent'' ua\<rparr> else req)"

definition roundTripDirect :: "('c, 'w) upEnv \<Rightarrow> server \<Rightarrow> request \<Rightarrow> string \<Rightarrow> 'w run \<Rightarrow> response option \<times> 'w run" where
  "roundTripDirect env s r body st =
     (case ue_direct env (directRequest s r body) (run_world st) of (resp, w) \<Rightarrow> (resp, st\<lparr>run_world := w\<rparr>))"

text \<open>Reading the body of a response whose connection has been closed gives what was buffered; closing the
  body closes the connection once more.\<close>

definition readBody :: "'w run \<Rightarrow> response \<Rightarrow> nat \<Rightarrow> nat \<Rightarrow> string" where
  "readBody st resp c buffered = (if ClosedConn c \<in> set (run_acts st) then take buffered (p_body resp) else p_body resp)"

fun tryProxies ::
    "('c, 'w) upEnv \<Rightarrow> server \<Rightarrow> request \<Rightarrow> string \<Rightarrow> string option \<Rightarrow> string list \<Rightarrow> 'w run \<Rightarrow> reply go_result \<times> 'w run" where
  "tryProxies env s r body lastErr [] st =
     (Return (httpError (case lastErr of None \<Rightarrow> ''no proxy route available'' | Some e \<Rightarrow> e) 502), st)"
| "tryProxies env s r body lastErr (upstream # rest) st =
     (case roundTripProxy env s r body upstream st of
        (Return (resp, c, buffered), st') \<Rightarrow> (Return (copyResponse resp (readBody st' resp c buffered)), logAct (ClosedConn c) st')
      | (Error e, st') \<Rightarrow> tryProxies env s r body (Some e) rest st'
      | (Panic p, st') \<Rightarrow> (Panic p, st'))"

text \<open>\<^verbatim>\<open>handleHTTP\<close>: \<open>readErr\<close> is the error of reading the request body, if any.\<close>

definition handleHTTP ::
    "('c, 'w) upEnv \<Rightarrow> string option \<Rightarrow> (server \<Rightarrow> (route \<times> server) go_result) \<Rightarrow> request \<Rightarrow> server \<Rightarrow> 'w run \<Rightarrow> (reply \<times> server \<times> 'w run) go_result" where
  "handleHTTP env readErr routing r s st =
     (case readErr of
        Some e \<Rightarrow> Return (httpError e 400, s, st)
      | None \<Rightarrow>
          (let body = take (maxRequestBody + 1) (r_body r)
           in if length body > maxRequestBody then Return (httpError ''request body too large'' 413, s, st)
              else
                (case routing s of
                   Panic p \<Rightarrow> Panic p
                 | Error e \<Rightarrow> Return (httpError e 502, s, st)
                 | Return (rt, s') \<Rightarrow>
                     if rt_direct rt then
                       (case roundTripDirect env s' r body st of
                          (None, st') \<Rightarrow> Return (httpError ''direct'' 502, s', st')
                        | (Some resp, st') \<Rightarrow> Return (copyResponse resp (p_body resp), s', st'))
                     else
                       (case tryProxies env s' r body None (rt_proxies rt) st of
                          (Return rep, st') \<Rightarrow> Return (rep, s', st')
                        | (Error e, st') \<Rightarrow> Error e
                        | (Panic p, st') \<Rightarrow> Panic p))))"

fun tryConnect ::
    "('c, 'w) upEnv \<Rightarrow> server \<Rightarrow> request \<Rightarrow> (nat go_result option) \<Rightarrow> string list \<Rightarrow> 'w run \<Rightarrow> nat go_result option \<times> 'w run" where
  "tryConnect env s r res [] st = (res, st)"
| "tryConnect env s r res (proxyAddr # rest) st =
     (case connectViaProxy env s r proxyAddr st of
        (Return c, st') \<Rightarrow> (Some (Return c), st')
      | (Error e, st') \<Rightarrow> tryConnect env s r (Some (Error e)) rest st'
      | (Panic p, st') \<Rightarrow> (Some (Panic p), st'))"

text \<open>The upstream connection of \<^verbatim>\<open>handleConnect\<close>: \<^const>\<open>None\<close> when neither a connection nor an error was obtained (an
  empty list of proxies).  Every later path then uses the nil connection, which \<^verbatim>\<open>connectBody\<close> reports as a panic
  of its own; the routes of \<^verbatim>\<open>resolveRoute\<close> never lead there.\<close>

definition openUpstream :: "('c, 'w) upEnv \<Rightarrow> server \<Rightarrow> route \<Rightarrow> request \<Rightarrow> 'w run \<Rightarrow> nat go_result option \<times> 'w run" where
  "openUpstream env s rt r st =
     (if rt_direct rt then
        (case doDial env (targetHostPort r) st of
           (None, st') \<Rightarrow> (Some (Error ''dial''), st')
         | (Some c, st') \<Rightarrow> (Some (Return c), st'))
      else tryConnect env s r None (rt_proxies rt) st)"

definition releaseSem :: "bool \<Rightarrow> 'w run \<Rightarrow> bool \<times> 'w run" where
  "releaseSem released st = (if released then (released, st) else (True, logAct SemReleased st))"

text \<open>\<^verbatim>\<open>handleConnect\<close> up to its deferred \<^verbatim>\<open>releaseSem\<close>: the reply (\<^const>\<open>None\<close> after hijacking), the flag
  \<^verbatim>\<open>semReleased\<close>, and the actions.  A panic unwinds through the deferred release.\<close>

definition connectBody ::
    "('c, 'w) upEnv \<Rightarrow> (server \<Rightarrow> (route \<times> server) go_result) \<Rightarrow> request \<Rightarrow> server \<Rightarrow> 'w run \<Rightarrow> reply option go_result \<times> server \<times> bool \<times> 'w run" where
  "connectBody env routing r s st0 =
     (case routing s of
        Panic p \<Rightarrow> (Panic p, s, False, st0)
      | Error e \<Rightarrow> (Return (Some (httpError e 502)), s, False, st0)
      | Return (rt, s') \<Rightarrow>
          (case openUpstream env s' rt r st0 of
             (Some (Error e), st) \<Rightarrow> (Return (Some (httpError e 502)), s', False, st)
           | (Some (Panic p), st) \<Rightarrow> (Panic p, s', False, st)
           | (None, st) \<Rightarrow> (Panic ''nil upstream connection'', s', False, st)
           | (Some (Return c), st1) \<Rightarrow>
               if \<not> ue_hijacker env then
                 (Return (Some (httpError ''hijacking unsupported'' 500)), s', False, logAct (ClosedConn c) st1)
               else
                 (case ue_hijack env (run_world st1) of
                    (False, w) \<Rightarrow> (Return None, s', False, logAct (ClosedConn c) (st1\<lparr>run_world := w\<rparr>))
                  | (True, w) \<Rightarrow>
                      (let st2 = logAct Established (logAct Hijacked (st1\<lparr>run_world := w\<rparr>))
                       in case releaseSem False st2 of (released, st3) \<Rightarrow>
                            (Return None, s', released, logAct (Relayed c) st3)))))"

definition handleConnect ::
    "('c, 'w) upEnv \<Rightarrow> (server \<Rightarrow> (route \<times> server) go_result) \<Rightarrow> request \<Rightarrow> server \<Rightarrow> 'w run \<Rightarrow> reply option go_result \<times> server \<times> 'w run" where
  "handleConnect env routing r s st =
     (case connectBody env routing r s st of (rep, s', released, st') \<Rightarrow> (rep, s', snd (releaseSem released st')))"

end
