(* ===== verification/Host_IPs.thy ===== *)
theory Host_IPs
  imports Net_Addr
begin

text \<open>
  \<^verbatim>\<open>GetHostIPs\<close> of \<^verbatim>\<open>internal/config/config.go\<close>: the IPv4 addresses of the local interfaces, which decide what a local
  client is and what \<^verbatim>\<open>myIpAddress\<close> tells a script.
\<close>

text \<open>An interface: whether it is up, and the texts of its addresses unless they cannot be listed.\<close>

record iface =
  if_up :: bool
  if_addrs :: "string list option"

definition addHostIP :: "string \<Rightarrow> addr list \<times> string set \<Rightarrow> addr list \<times> string set" where
  "addHostIP text0 os =
     (case os of (out, seen) \<Rightarrow>
        (case parsePrefix text0 of
           Return pfx \<Rightarrow>
             (let ip = unmap (pfx_ip pfx)
              in if \<not> is4 ip \<or> addrString ip \<in> seen then (out, seen) else (out @ [ip], insert (addrString ip) seen))
         | _ \<Rightarrow> (out, seen)))"

definition addIface :: "iface \<Rightarrow> addr list \<times> string set \<Rightarrow> addr list \<times> string set" where
  "addIface i os =
     (if \<not> if_up i then os else (case if_addrs i of None \<Rightarrow> os | Some texts \<Rightarrow> fold addHostIP texts os))"

definition GetHostIPs :: "iface list option \<Rightarrow> addr list" where
  "GetHostIPs ifaces =
     (let start = ([V4 (mk4 127 0 0 1)], {''127.0.0.1''})
      in fst (case ifaces of None \<Rightarrow> start | Some is \<Rightarrow> fold addIface is start))"

section \<open>Facts\<close>

definition hostIPsOk :: "addr list \<times> string set \<Rightarrow> bool" where
  "hostIPsOk os \<longleftrightarrow> (\<forall>a\<in>set (fst os). is4 a) \<and> distinct (fst os) \<and> snd os = addrString ` set (fst os) \<and>
     V4 (mk4 127 0 0 1) \<in> set (fst os)"

lemma addHostIP_ok: "hostIPsOk os \<Longrightarrow> hostIPsOk (addHostIP text0 os)"
  by (auto simp: hostIPsOk_def addHostIP_def Let_def split: prod.split go_result.split)

lemma addHostIPs_ok: "hostIPsOk os \<Longrightarrow> hostIPsOk (fold addHostIP texts os)"
  by (induction texts arbitrary: os) (simp_all add: addHostIP_ok)

lemma addIface_ok: "hostIPsOk os \<Longrightarrow> hostIPsOk (addIface i os)"
  by (simp add: addIface_def addHostIPs_ok split: option.split)

lemma addIfaces_ok: "hostIPsOk os \<Longrightarrow> hostIPsOk (fold addIface is os)"
  by (induction "is" arbitrary: os) (simp_all add: addIface_ok)

lemma GetHostIPs_ok: "(\<forall>a\<in>set (GetHostIPs ifs). is4 a) \<and> distinct (GetHostIPs ifs) \<and> V4 (mk4 127 0 0 1) \<in> set (GetHostIPs ifs)"
proof -
  have b: "map unat (bytes4 (mk4 127 0 0 1)) = [127, 0, 0, 1]" by (rule bytes4_mk4) simp_all
  have "string4 v = joinStr ''.'' (map itoaNat (map unat (bytes4 v)))" for v by (simp add: string4_def comp_def)
  then have "addrString (V4 (mk4 127 0 0 1)) = joinStr ''.'' (map itoaNat [127, 0, 0, 1])" by (simp only: addrString.simps b)
  also have "\<dots> = ''127.0.0.1''" by (simp add: itoaNat.simps digitChar_def char_of_def bit_Suc_0_iff)
  finally have start: "hostIPsOk ([V4 (mk4 127 0 0 1)], {''127.0.0.1''})" by (simp add: hostIPsOk_def)
  obtain os where os: "GetHostIPs ifs = fst os" "hostIPsOk os"
    using start addIfaces_ok [OF start] by (cases ifs) (auto simp: GetHostIPs_def Let_def)
  then show ?thesis by (simp add: hostIPsOk_def)
qed

lemma local_iff: "addrString (V4 w) \<in> addrString ` set (GetHostIPs ifs) \<longleftrightarrow> V4 w \<in> set (GetHostIPs ifs)"
proof
  assume "addrString (V4 w) \<in> addrString ` set (GetHostIPs ifs)"
  then obtain a where a: "a \<in> set (GetHostIPs ifs)" "addrString (V4 w) = addrString a" by auto
  then obtain v where "a = V4 v" using GetHostIPs_ok [of ifs] by (metis is4.elims(2))
  then show "V4 w \<in> set (GetHostIPs ifs)" using a string4_inj by auto
qed (rule imageI)

end
