(* ===== verification/Proxy_Server.thy ===== *)
theory Proxy_Server
  imports Proxy_Upstream Host_IPs
begin

text \<open>
  \<^verbatim>\<open>internal/proxy/server.go\<close>: construction, admission of clients, the semaphore, start and shutdown.  A connection
  of \<^verbatim>\<open>net/http\<close> is a number; the semaphore channel is the number of its elements.
\<close>

section \<open>The server\<close>

record ('n, 's) proxyServer =
  px_server :: server
  px_sem :: nat
  px_conns :: "nat \<Rightarrow> ('n, 's) clientState option"
  px_listening :: "string list"
  px_stopped :: bool

text \<open>What the operating system gives to \<^verbatim>\<open>New\<close>: the interfaces, and for Kerberos the cache directory, whether the
  directory could be made, and the process number.\<close>

record host =
  ho_ifaces :: "iface list option"
  ho_cacheDir :: "string option"
  ho_mkdirOk :: bool
  ho_pid :: int

definition newServer :: "'c authEnv \<Rightarrow> ('n, 's) clientEnv \<Rightarrow> host \<Rightarrow> config \<Rightarrow> ('n, 's) proxyServer go_result" where
  "newServer aenv cenv ho cfg =
     (let p = cf_proxy cfg; cl = cf_client cfg; settings = cf_settings cfg
      in go_bind (Parse (pc_allow p)) (\<lambda>allow.
         go_bind (Parse (pc_noProxy p)) (\<lambda>noproxy.
           (let locals = addrString ` set (GetHostIPs (ho_ifaces ho));
                creds = CredentialsFromConfig aenv (pc_username p);
                krb = (if pc_kerberos p \<and> cr_username creds \<noteq> [] \<and> cr_password creds \<noteq> [] then
                         (case newManager (ho_cacheDir ho) (ho_mkdirOk ho) (ho_pid ho) (cr_username creds) (cr_password creds) of
                            Return m \<Rightarrow> Some m | _ \<Rightarrow> None)
                       else None);
                pac = (if pc_pac p \<noteq> [] then Some (newEvaluator (pc_pac p) (pc_pacEncoding p) (st_proxyReload settings)) else None)
            in if st_threads settings < 0 then Panic ''makechan: size out of range''
               else Return \<lparr>px_server = \<lparr>sv_cfg = cfg, sv_clientAuth = newHandler cenv (cc_username cl) (cc_auth cl) (cc_noSSPI cl),
                   sv_allow = Some allow, sv_noproxy = Some noproxy, sv_pac = pac, sv_kerberos = krb, sv_creds = creds,
                   sv_locals = locals\<rparr>,
                 px_sem = 0, px_conns = (\<lambda>_. None), px_listening = [], px_stopped = False\<rparr>))))"

section \<open>Admission\<close>

definition parseRemoteIP :: "string \<Rightarrow> addr" where
  "parseRemoteIP remoteAddr =
     (let text0 = (case splitHostPort remoteAddr of None \<Rightarrow> remoteAddr | Some (h, p) \<Rightarrow> h)
      in unmap (case parseAddr text0 of None \<Rightarrow> AddrZero | Some a \<Rightarrow> a))"

definition isClientAllowed :: "server \<Rightarrow> string \<Rightarrow> bool go_result" where
  "isClientAllowed s remoteAddr =
     (let ip = parseRemoteIP remoteAddr; p = cf_proxy (sv_cfg s); isLocal = (addrString ip \<in> sv_locals s)
      in if \<not> isValid ip then Return False
         else if pc_hostOnly p \<and> \<not> pc_gateway p then Return isLocal
         else
           go_bind (case sv_allow s of None \<Rightarrow> Return True | Some m \<Rightarrow> matchIP (Some m) ip) (\<lambda>ok.
             if ok then Return True else if \<not> pc_gateway p then Return isLocal else Return False))"

text \<open>What \<^verbatim>\<open>ServeHTTP\<close> does with a request: an answer, an answer with a shutdown started beside it, or one of the
  two handlers, for which a slot of the semaphore is then taken.\<close>

datatype served = Answered reply | Quitting reply | ToConnect | ToHTTP

definition handleQuit :: "server \<Rightarrow> request \<Rightarrow> served" where
  "handleQuit s r =
     (let ip = parseRemoteIP (r_remoteAddr r)
      in if \<not> isLoopback ip \<and> addrString ip \<notin> sv_locals s then Answered (httpError ''forbidden'' 403)
         else Quitting \<lparr>rp_status = 200, rp_header = [], rp_body = ''shutting down''\<rparr>)"

definition stateFor :: "nat option \<Rightarrow> ('n, 's) proxyServer \<Rightarrow> ('n, 's) clientState \<times> ('n, 's) proxyServer" where
  "stateFor conn px =
     (case conn of
        None \<Rightarrow> (newState, px)
      | Some c \<Rightarrow>
          (case px_conns px c of
             Some st \<Rightarrow> (st, px)
           | None \<Rightarrow> (newState, px\<lparr>px_conns := (px_conns px)(c \<mapsto> newState)\<rparr>)))"

text \<open>The state is shared by pointer: what \<^verbatim>\<open>Authenticate\<close> makes of it is what the connection has.\<close>

definition keepState :: "nat option \<Rightarrow> ('n, 's) clientState \<Rightarrow> ('n, 's) proxyServer \<Rightarrow> ('n, 's) proxyServer" where
  "keepState conn st px = (case conn of None \<Rightarrow> px | Some c \<Rightarrow> px\<lparr>px_conns := (px_conns px)(c \<mapsto> st)\<rparr>)"

definition clientCheck ::
    "('n, 's) clientEnv \<Rightarrow> tick \<Rightarrow> nat option \<Rightarrow> request \<Rightarrow> ('n, 's) proxyServer \<Rightarrow> bool \<times> header \<times> ('n, 's) proxyServer" where
  "clientCheck cenv tk conn r px =
     (let h = sv_clientAuth (px_server px)
      in if enabled h then
           (case stateFor conn px of (st, px1) \<Rightarrow>
              (case Authenticate cenv h tk r st of (ok, headers, err, st') \<Rightarrow>
                 (ok, case headers of None \<Rightarrow> [] | Some hs \<Rightarrow> hs, keepState conn st' px1)))
         else (True, [], px))"

definition takeSem :: "('n, 's) proxyServer \<Rightarrow> ('n, 's) proxyServer option" where
  "takeSem px =
     (if int (px_sem px) < st_threads (cf_settings (sv_cfg (px_server px))) then Some (px\<lparr>px_sem := px_sem px + 1\<rparr>) else None)"

definition serveHTTP ::
    "('n, 's) clientEnv \<Rightarrow> tick \<Rightarrow> nat option \<Rightarrow> request \<Rightarrow> ('n, 's) proxyServer \<Rightarrow> (served \<times> ('n, 's) proxyServer) go_result" where
  "serveHTTP cenv tk conn r px =
     go_bind (isClientAllowed (px_server px) (r_remoteAddr r)) (\<lambda>allowed.
       if \<not> allowed then Return (Answered (httpError ''forbidden'' 403), px)
       else if u_path (r_url r) = ''/health'' then Return (Answered \<lparr>rp_status = 200, rp_header = [], rp_body = ''ok''\<rparr>, px)
       else if u_path (r_url r) = ''/PxQuit'' then Return (handleQuit (px_server px) r, px)
       else
         (case clientCheck cenv tk conn r px of (ok, headers, px1) \<Rightarrow>
            if \<not> ok then Return (Answered \<lparr>rp_status = 407, rp_header = addAll headers [], rp_body = []\<rparr>, px1)
            else
              (case takeSem px1 of
                 None \<Rightarrow> Return (Answered (httpError ''busy'' 503), px1)
               | Some px2 \<Rightarrow> Return (if r_method r = ''CONNECT'' then ToConnect else ToHTTP, px2))))"

text \<open>\<^verbatim>\<open>ConnState\<close>: when a connection is closed or hijacked its state is dropped, and the SSPI server in it closed.\<close>

definition connGone :: "nat \<Rightarrow> ('n, 's) proxyServer \<Rightarrow> 's option \<times> ('n, 's) proxyServer" where
  "connGone c px = (closeState (px_conns px c), px\<lparr>px_conns := (px_conns px)(c := None)\<rparr>)"

section \<open>Start and shutdown\<close>

text \<open>Binding the listen addresses in turn; the first failure ends \<^verbatim>\<open>Start\<close>.\<close>

fun listenAll :: "(string \<Rightarrow> bool) \<Rightarrow> string list \<Rightarrow> ('n, 's) proxyServer \<Rightarrow> bool \<times> ('n, 's) proxyServer" where
  "listenAll bindOk [] px = (True, px)"
| "listenAll bindOk (addr # addrs) px =
     (if \<not> bindOk addr then (False, px) else listenAll bindOk addrs (px\<lparr>px_listening := px_listening px @ [addr]\<rparr>))"

text \<open>\<^verbatim>\<open>Shutdown\<close>, under its \<^verbatim>\<open>sync.Once\<close>: the errors of the HTTP servers are those of \<open>errs\<close>.  The second component
  is the ticket cache removed, if any.\<close>

definition shutdown :: "(string \<Rightarrow> string option) \<Rightarrow> ('n, 's) proxyServer \<Rightarrow> string option \<times> string option \<times> ('n, 's) proxyServer" where
  "shutdown errs px =
     (if px_stopped px then (None, None, px)
      else
        (case List.map_filter errs (px_listening px) of [] \<Rightarrow> None | e # _ \<Rightarrow> Some e,
         closeManager (sv_kerberos (px_server px)),
         px\<lparr>px_stopped := True, px_server := (px_server px)\<lparr>sv_pac := map_option closeEvaluator (sv_pac (px_server px))\<rparr>\<rparr>))"

text \<open>What ends the wait of \<^verbatim>\<open>Start\<close>; \<open>serving\<close> is what the requests made of the server until then.  The first component is
  the manager whose ticket goroutine runs.\<close>

datatype wake = ContextDone | ServeError string | StopClosed

definition startServer ::
    "(string \<Rightarrow> bool) \<Rightarrow> (string \<Rightarrow> string option) \<Rightarrow> (('n, 's) proxyServer \<Rightarrow> ('n, 's) proxyServer) \<Rightarrow> wake \<Rightarrow> ('n, 's) proxyServer \<Rightarrow>
     krbManager option \<times> string option \<times> ('n, 's) proxyServer" where
  "startServer bindOk errs serving wk px =
     (sv_kerberos (px_server px),
      case listenAll bindOk (ListenAddresses (sv_cfg (px_server px))) px of
        (False, px1) \<Rightarrow> (Some ''listen'', px1)
      | (True, px1) \<Rightarrow>
          (case wk of
             ContextDone \<Rightarrow> (case shutdown errs (serving px1) of (err, gone, px2) \<Rightarrow> (err, px2))
           | ServeError e \<Rightarrow> (Some e, serving px1)
           | StopClosed \<Rightarrow> (None, serving px1)))"

section \<open>Requests in flight\<close>

text \<open>The server under load.  A job is a request that was given a slot; \<^verbatim>\<open>net/http\<close> runs every \<^verbatim>\<open>ServeHTTP\<close> in a goroutine of
  its own, so admissions, handlers, relays and closed connections interleave.  A handler is one step, since the
  only state of the server it shares with others is the discovered PAC evaluator, under its mutex, and the
  semaphore.  The receive that gives a slot back waits until the channel has an element.  The log keeps what was
  asked on which connection, with the state of the connection at that moment, and when connections went.\<close>

datatype phase = Handling | Relaying nat | Finished

record job =
  jb_conn :: "nat option"
  jb_request :: request
  jb_phase :: phase

datatype ('n, 's) event = Asked nat tick request "('n, 's) clientState" | Gone nat

record ('n, 's, 'w) load =
  ld_px :: "('n, 's) proxyServer"
  ld_jobs :: "job list"
  ld_run :: "'w run"
  ld_log :: "('n, 's) event list"

definition newJob :: "served \<Rightarrow> nat option \<Rightarrow> request \<Rightarrow> job list" where
  "newJob v conn r = (case v of Answered rep \<Rightarrow> [] | Quitting rep \<Rightarrow> [] | _ \<Rightarrow> [\<lparr>jb_conn = conn, jb_request = r, jb_phase = Handling\<rparr>])"

definition asked :: "nat option \<Rightarrow> tick \<Rightarrow> request \<Rightarrow> ('n, 's) proxyServer \<Rightarrow> ('n, 's) event list" where
  "asked conn tk r px = (case conn of None \<Rightarrow> [] | Some c \<Rightarrow> [Asked c tk r (fst (stateFor conn px))])"

text \<open>After a handler: a panic of \<^verbatim>\<open>handleHTTP\<close> comes from the route resolution, before any traffic.\<close>

definition httpRun ::
    "('c, 'w) upEnv \<Rightarrow> string option \<Rightarrow> (server \<Rightarrow> (route \<times> server) go_result) \<Rightarrow> request \<Rightarrow> server \<Rightarrow> 'w run \<Rightarrow> server \<times> 'w run" where
  "httpRun env readErr routing r s st =
     (case handleHTTP env readErr routing r s st of Return (rep, s', st') \<Rightarrow> (s', st') | _ \<Rightarrow> (s, st))"

definition newActs :: "'w run \<Rightarrow> 'w run \<Rightarrow> act list" where
  "newActs st st' = drop (length (run_acts st)) (run_acts st')"

definition releases :: "act list \<Rightarrow> nat" where
  "releases as = length (filter (\<lambda>a. a = SemReleased) as)"

definition relayOf :: "act list \<Rightarrow> phase" where
  "relayOf as = (case as of [] \<Rightarrow> Finished | _ \<Rightarrow> (case last as of Relayed c \<Rightarrow> Relaying c | _ \<Rightarrow> Finished))"

definition setPhase :: "nat \<Rightarrow> phase \<Rightarrow> job list \<Rightarrow> job list" where
  "setPhase i ph jobs = jobs[i := (jobs ! i)\<lparr>jb_phase := ph\<rparr>]"

definition giveBack :: "nat \<Rightarrow> server \<Rightarrow> ('n, 's) proxyServer \<Rightarrow> ('n, 's) proxyServer" where
  "giveBack k s px = px\<lparr>px_server := s, px_sem := px_sem px - k\<rparr>"

inductive loadStep ::
    "('c, 'w) upEnv \<Rightarrow> ('n, 's) clientEnv \<Rightarrow> (request \<Rightarrow> server \<Rightarrow> (route \<times> server) go_result) \<Rightarrow>
     ('n, 's, 'w) load \<Rightarrow> ('n, 's, 'w) load \<Rightarrow> bool"
  for env cenv routing where
  serve: "serveHTTP cenv tk conn r (ld_px y) = Return (v, px') \<Longrightarrow>
    loadStep env cenv routing y
      (y\<lparr>ld_px := px', ld_jobs := ld_jobs y @ newJob v conn r, ld_log := ld_log y @ asked conn tk r (ld_px y)\<rparr>)"
| http: "\<lbrakk>i < length (ld_jobs y); jb_phase (ld_jobs y ! i) = Handling; r = jb_request (ld_jobs y ! i); r_method r \<noteq> ''CONNECT'';
    0 < px_sem (ld_px y); httpRun env readErr (routing r) r (px_server (ld_px y)) (ld_run y) = (s', st')\<rbrakk> \<Longrightarrow>
    loadStep env cenv routing y
      (y\<lparr>ld_px := giveBack 1 s' (ld_px y), ld_jobs := setPhase i Finished (ld_jobs y), ld_run := st'\<rparr>)"
| connect: "\<lbrakk>i < length (ld_jobs y); jb_phase (ld_jobs y ! i) = Handling; r = jb_request (ld_jobs y ! i); r_method r = ''CONNECT'';
    handleConnect env (routing r) r (px_server (ld_px y)) (ld_run y) = (rep, s', st'); new = newActs (ld_run y) st';
    releases new \<le> px_sem (ld_px y)\<rbrakk> \<Longrightarrow>
    loadStep env cenv routing y
      (y\<lparr>ld_px := giveBack (releases new) s' (ld_px y), ld_jobs := setPhase i (relayOf new) (ld_jobs y), ld_run := st'\<rparr>)"
| relayed: "\<lbrakk>i < length (ld_jobs y); jb_phase (ld_jobs y ! i) = Relaying c\<rbrakk> \<Longrightarrow>
    loadStep env cenv routing y (y\<lparr>ld_jobs := setPhase i Finished (ld_jobs y)\<rparr>)"
| gone: "loadStep env cenv routing y (y\<lparr>ld_px := snd (connGone c (ld_px y)), ld_log := ld_log y @ [Gone c]\<rparr>)"
| stop: "loadStep env cenv routing y (y\<lparr>ld_px := snd (snd (shutdown errs (ld_px y)))\<rparr>)"

inductive underLoad ::
    "('c, 'w) upEnv \<Rightarrow> ('n, 's) clientEnv \<Rightarrow> (request \<Rightarrow> server \<Rightarrow> (route \<times> server) go_result) \<Rightarrow>
     ('n, 's, 'w) load \<Rightarrow> ('n, 's, 'w) load \<Rightarrow> bool"
  for env cenv routing y0 where
  begin_load: "underLoad env cenv routing y0 y0"
| next_load: "underLoad env cenv routing y0 y \<Longrightarrow> loadStep env cenv routing y y' \<Longrightarrow> underLoad env cenv routing y0 y'"

definition idle :: "('n, 's) proxyServer \<Rightarrow> 'w \<Rightarrow> ('n, 's, 'w) load" where
  "idle px w = \<lparr>ld_px = px, ld_jobs = [], ld_run = \<lparr>run_world = w, run_acts = []\<rparr>, ld_log = []\<rparr>"

end
