(* ===== verification/Proxy_Route_Props.thy ===== *)
theory Proxy_Route_Props
  imports Proxy_Route Pac_Eval_Props
begin

text \<open>
  Properties of routing and of the forwarded messages: hop-by-hop headers, the text of a \<^verbatim>\<open>CONNECT\<close>
  request, the reading of PAC answers down to the addresses dialled, and the shape of a route.
\<close>

section \<open>Header names\<close>

lemma isAlnum_lower: "isAlnum (lowerChar c) = isAlnum c"
  by (simp only: isAlnum_def of_char_lowerChar Let_def) auto

lemma lowerChar_fixed:
  assumes "(of_char d :: nat) < 65 \<or> 122 < (of_char d :: nat) \<or> 90 < (of_char d :: nat) \<and> (of_char d :: nat) < 97"
  shows "lowerChar c = d \<longleftrightarrow> c = d"
  using assms by (simp only: char_eq_nat_iff of_char_lowerChar Let_def) auto

lemma isToken_lower: "isToken (lowerChar c) = isToken c"
  by (simp add: isToken_def isAlnum_lower lowerChar_fixed)

lemma canonLoop_lower: "canonLoop up (toLower key) = canonLoop up key"
proof (induction key arbitrary: up)
  case (Cons c key)
  have "lowerChar c = CHR ''-'' \<longleftrightarrow> c = CHR ''-''" by (rule lowerChar_fixed) simp
  then show ?case using Cons.IH by (simp add: toLower_def)
qed (simp add: toLower_def)

lemma canonicalKey_lower: "canonicalKey (toLower key) = (if list_all isToken key then canonicalKey key else toLower key)"
proof -
  have "list_all isToken (toLower key) = list_all isToken key"
    by (simp add: toLower_def list_all_iff isToken_lower)
  then show ?thesis by (simp add: canonicalKey_def canonLoop_lower)
qed

lemma canonLoop_idem: "canonLoop up (canonLoop up key) = canonLoop up key"
proof (induction key arbitrary: up)
  case (Cons c key)
  have "upperChar c = CHR ''-'' \<longleftrightarrow> c = CHR ''-''" "lowerChar c = CHR ''-'' \<longleftrightarrow> c = CHR ''-''"
    by (simp_all only: char_eq_nat_iff of_char_lowerChar of_char_upperChar Let_def) auto
  then show ?case using Cons.IH by simp
qed simp

text \<open>The names \<^verbatim>\<open>hopHeader\<close> recognises, in canonical form, are those the clones drop.\<close>

lemma hop_canonical: "canonicalKey k = k" if "k \<in> set hopRequestHeaders"
  using that
  by (auto simp: hopRequestHeaders_def canonicalKey_def isToken_def isAlnum_def upperChar_def lowerChar_def char_of_def Let_def)

lemma hop_lower: "hopHeader key \<longleftrightarrow> toLower key \<in> toLower ` set hopRequestHeaders"
  by (simp add: hopHeader_def hopRequestHeaders_def go_simps)

lemma toLower_canonLoop: "toLower (canonLoop up key) = toLower key"
proof (induction key arbitrary: up)
  case (Cons c key)
  then show ?case by (simp add: toLower_def)
qed simp

lemma toLower_canonicalKey: "toLower (canonicalKey key) = toLower key"
  by (simp add: canonicalKey_def toLower_canonLoop)

lemma hopHeader_iff: "hopHeader key \<longleftrightarrow> canonicalKey key \<in> set hopRequestHeaders"
proof
  assume "hopHeader key"
  then obtain k where k: "k \<in> set hopRequestHeaders" "toLower key = toLower k" by (auto simp: hop_lower)
  have tok: "list_all isToken k"
    using k(1) by (auto simp: hopRequestHeaders_def isToken_def isAlnum_def Let_def)
  have "list_all isToken x = list_all isToken (toLower x)" for x
    by (simp add: toLower_def list_all_iff isToken_lower)
  then have "list_all isToken key" using tok k(2) by metis
  then have "canonicalKey key = canonicalKey k" using tok canonicalKey_lower [of key] canonicalKey_lower [of k] k(2) by simp
  then show "canonicalKey key \<in> set hopRequestHeaders" using k(1) hop_canonical by simp
next
  assume "canonicalKey key \<in> set hopRequestHeaders"
  then have "toLower (canonicalKey key) \<in> toLower ` set hopRequestHeaders" by (rule imageI)
  then show "hopHeader key" by (simp only: hop_lower toLower_canonicalKey)
qed

lemma hdrValues_delAll:
  "hdrValues (fold (\<lambda>k h. hdrDel h k) ks h) key = (if canonicalKey key \<in> canonicalKey ` set ks then [] else hdrValues h key)"
  by (induction ks arbitrary: h) (auto simp: hdrValues_del)

lemma hdrValues_removeHop: "hdrValues (removeHopRequestHeaders h) key = (if hopHeader key then [] else hdrValues h key)"
proof -
  have "canonicalKey ` set hopRequestHeaders = set hopRequestHeaders" using hop_canonical by (auto simp: image_iff)
  then show ?thesis by (simp add: removeHopRequestHeaders_def hdrValues_delAll hopHeader_iff)
qed

lemma hop_auth: "hopHeader ''Proxy-Authorization''"
  by (simp add: hopHeader_def go_simps)

lemma hdrValues_hop_eq: "canonicalKey key = canonicalKey key' \<Longrightarrow> hopHeader key = hopHeader key'"
  by (simp add: hopHeader_iff)

section \<open>Forwarded requests\<close>

text \<open>The credentials a forwarded request carries.\<close>

definition proxyCredentials :: "request \<Rightarrow> string \<Rightarrow> bool \<Rightarrow> string list" where
  "proxyCredentials r authHeader preserve =
     (if authHeader \<noteq> [] then [authHeader]
      else if preserve \<and> hdrGet (r_header r) ''Proxy-Authorization'' \<noteq> []
      then [hdrGet (r_header r) ''Proxy-Authorization''] else [])"

lemma cloneForWrite_header:
  "r_header (cloneForWrite r body a preserve) =
     (if a \<noteq> [] then hdrSet (removeHopRequestHeaders (r_header r)) ''Proxy-Authorization'' a
      else if preserve \<and> hdrGet (r_header r) ''Proxy-Authorization'' \<noteq> []
      then hdrSet (removeHopRequestHeaders (r_header r)) ''Proxy-Authorization'' (hdrGet (r_header r) ''Proxy-Authorization'')
      else removeHopRequestHeaders (r_header r))"
  by (simp add: cloneForWrite_def Let_def)

text \<open>C16: what is forwarded.  The request written to an upstream proxy and the one for a direct connection have no
  hop-by-hop header, whatever the case of its name, and keep every other header; the only
  \<^verbatim>\<open>Proxy-Authorization\<close> a proxy sees is the one px computed or, with authentication switched off, the
  client's own; a directly contacted server sees none.  Neither asks to close the connection.\<close>

theorem forwarded_headers:
  "hdrValues (r_header (cloneForWrite r body a preserve)) key =
     (if canonicalKey key = canonicalKey ''Proxy-Authorization'' then proxyCredentials r a preserve
      else if hopHeader key then [] else hdrValues (r_header r) key) \<and>
   hdrValues (r_header (cloneForTransport r body)) key = (if hopHeader key then [] else hdrValues (r_header r) key) \<and>
   \<not> r_close (cloneForWrite r body a preserve) \<and> \<not> r_close (cloneForTransport r body) \<and>
   r_body (cloneForWrite r body a preserve) = body \<and> r_body (cloneForTransport r body) = body"
proof -
  have h: "hopHeader key" if "canonicalKey key = canonicalKey ''Proxy-Authorization''"
    using hdrValues_hop_eq [OF that] hop_auth by simp
  have "hdrValues (r_header (cloneForWrite r body a preserve)) key =
     (if canonicalKey key = canonicalKey ''Proxy-Authorization'' then proxyCredentials r a preserve
      else if hopHeader key then [] else hdrValues (r_header r) key)"
    using h by (auto simp: cloneForWrite_header proxyCredentials_def hdrValues_set hdrValues_removeHop)
  moreover have "hdrValues (r_header (cloneForTransport r body)) key = (if hopHeader key then [] else hdrValues (r_header r) key)"
    by (simp add: cloneForTransport_def Let_def hdrValues_removeHop)
  ultimately show ?thesis by (simp add: cloneForWrite_def cloneForTransport_def Let_def)
qed

text \<open>The \<^verbatim>\<open>CONNECT\<close> request sent to a proxy: the target, the client's headers that are not hop-by-hop, and
  px's own credentials.  The flag that should keep the client's credentials when authentication is off
  has no effect here: their header counts as hop-by-hop.\<close>

lemma connect_request_text:
  "writeConnectRequest r a preserve =
     ''CONNECT '' @ targetHostPort r @ '' HTTP/1.1'' @ crlf @ ''Host: '' @ targetHostPort r @ crlf @
     concat [key @ '': '' @ v @ crlf. (key, vs) \<leftarrow> r_header r, \<not> hopHeader key, v \<leftarrow> vs] @
     (if a = [] then [] else ''Proxy-Authorization: '' @ a @ crlf) @ crlf"
proof -
  have h: "hopHeader k" if "equalFold k ''Proxy-Authorization''" for k
    using that hop_auth by (simp add: hopHeader_def equalFold_def)
  have c: "connectHeader a preserve (key, vs) = (if hopHeader key then [] else concat (map (\<lambda>v. key @ '': '' @ v @ crlf) vs))" for key vs
    using h [of key] by (auto simp: connectHeader_def)
  have "concat (map (connectHeader a preserve) hs) = concat [key @ '': '' @ v @ crlf. (key, vs) \<leftarrow> hs, \<not> hopHeader key, v \<leftarrow> vs]" for hs
  proof (induction hs)
    case (Cons kv hs)
    then show ?case by (cases kv) (simp add: c)
  qed simp
  then show ?thesis by (simp add: writeConnectRequest_def Let_def)
qed

section \<open>Replacing a word before a blank\<close>

lemma replaceAll_no_char: "c \<in> set old \<Longrightarrow> c \<notin> set s \<Longrightarrow> replaceAll s old new = s"
proof (induction s old new rule: replaceAll.induct)
  case (2 x s old new)
  have "\<not> hasPrefix (x # s) old"
  proof
    assume "hasPrefix (x # s) old"
    then obtain t where "x # s = old @ t" by (auto simp: hasPrefix_iff)
    then have "c \<in> set (x # s)" using "2.prems"(1) by (metis UnI1 set_append)
    then show False using "2.prems"(2) by simp
  qed
  then show ?case using 2 by simp
qed simp

lemma replaceAll_word:
  assumes "CHR '' '' \<notin> set a" "CHR '' '' \<notin> set w"
  shows "replaceAll (a @ '' '' @ b) (w @ '' '') new =
    (if hasSuffix a w then take (length a - length w) a @ new else a @ '' '') @ replaceAll b (w @ '' '') new"
  using assms(1)
proof (induction a)
  case Nil
  then show ?case
  proof (cases "w = []")
    case False
    then have "\<not> hasPrefix ('' '' @ b) (w @ '' '')" "\<not> hasSuffix [] w"
      using assms(2) by (cases w, auto simp: hasPrefix_iff hasSuffix_iff)+
    then show ?thesis by simp
  qed (simp add: hasSuffix_iff)
next
  case (Cons x a)
  have pre: "hasPrefix (x # a @ '' '' @ b) (w @ '' '') \<longleftrightarrow> x # a = w"
  proof
    assume "hasPrefix (x # a @ '' '' @ b) (w @ '' '')"
    then obtain t where t: "(x # a) @ CHR '' '' # b = w @ CHR '' '' # t" by (auto simp: hasPrefix_iff)
    have "cutChar CHR '' '' ((x # a) @ CHR '' '' # b) = (x # a, b, True)" "cutChar CHR '' '' (w @ CHR '' '' # t) = (w, t, True)"
      using Cons.prems assms(2) by (intro cutChar_append; simp)+
    then show "x # a = w" by (metis Pair_inject t)
  qed (use hasPrefix_append [of "w @ '' ''" b] in auto)
  show ?case
  proof (cases "x # a = w")
    case True
    then show ?thesis using pre by (auto simp: hasSuffix_iff)
  next
    case False
    have "hasSuffix (x # a) w \<longleftrightarrow> hasSuffix a w" using False by (auto simp: hasSuffix_iff Cons_eq_append_conv)
    moreover have "hasSuffix a w \<Longrightarrow> Suc (length a) - length w = Suc (length a - length w)"
      by (auto simp: hasSuffix_iff)
    ultimately show ?thesis using pre False Cons by simp
  qed
qed

lemma replaceAll_char: "replaceAll s [c] [d] = map (\<lambda>x. if x = c then d else x) s"
  by (induction s) simp_all

section \<open>PAC answers\<close>

text \<open>A PAC answer in the documented format: entries separated by semicolons, each \<^verbatim>\<open>DIRECT\<close> or a kind and a
  host with its port.\<close>

datatype pacKind = KPROXY | KHTTP | KHTTPS | KSOCKS | KSOCKS4 | KSOCKS5

datatype pacEntry = EDirect | EVia pacKind string

fun kindName :: "pacKind \<Rightarrow> string" where
  "kindName KPROXY = ''PROXY''" | "kindName KHTTP = ''HTTP''" | "kindName KHTTPS = ''HTTPS''"
| "kindName KSOCKS = ''SOCKS''" | "kindName KSOCKS4 = ''SOCKS4''" | "kindName KSOCKS5 = ''SOCKS5''"

fun entryText :: "pacEntry \<Rightarrow> string" where
  "entryText EDirect = ''DIRECT''"
| "entryText (EVia k hp) = kindName k @ '' '' @ hp"

definition pacText :: "pacEntry list \<Rightarrow> string" where
  "pacText es = joinStr ''; '' (map entryText es)"

text \<open>Host and port: letters, digits, dots and dashes, a colon and decimal digits.\<close>

definition hostPort :: "string \<Rightarrow> bool" where
  "hostPort hp \<longleftrightarrow> (\<exists>h p. hp = h @ '':'' @ p \<and> h \<noteq> [] \<and> list_all (\<lambda>c. isAlnum c \<or> c \<in> set ''.-'') h \<and>
     list_all (\<lambda>c. digitVal c \<noteq> None) p)"

fun entryOk :: "pacEntry \<Rightarrow> bool" where
  "entryOk EDirect = True"
| "entryOk (EVia k hp) = hostPort hp"

text \<open>The work of the replacements on a list of entries, each a prefix (a word with its blank, or a
  finished scheme) and a host.\<close>

definition clean :: "string \<Rightarrow> bool" where
  "clean s \<longleftrightarrow> (\<forall>c\<in>set s. \<not> isSpace c \<and> c \<noteq> CHR '';'' \<and> c \<noteq> CHR '','') \<and> s \<noteq> []"

definition piece :: "string \<times> bool \<times> string \<Rightarrow> string" where
  "piece e = (case e of (w, blank, s) \<Rightarrow> w @ (if blank then '' '' else []) @ s)"

definition pieceOk :: "string \<times> bool \<times> string \<Rightarrow> bool" where
  "pieceOk e \<longleftrightarrow> (case e of (w, blank, s) \<Rightarrow> CHR '' '' \<notin> set w \<and> CHR '' '' \<notin> set s)"

definition subst :: "string \<Rightarrow> string \<Rightarrow> string \<times> bool \<times> string \<Rightarrow> string \<times> bool \<times> string" where
  "subst w new e = (case e of (v, blank, s) \<Rightarrow> if blank \<and> v = w then (new, False, s) else e)"

lemma replaceAll_piece:
  assumes "pieceOk e" "CHR '' '' \<notin> set w" "w \<noteq> []" "\<not> fst (snd e) \<or> fst e = w \<or> \<not> hasSuffix (fst e) w"
    and "last w \<noteq> CHR '';''" "rest = [] \<or> (\<exists>t. rest = ''; '' @ t)"
  shows "replaceAll (piece e @ rest) (w @ '' '') new =
    piece (subst w new e) @ (if rest = [] then [] else ''; '' @ replaceAll (drop 2 rest) (w @ '' '') new)"
proof -
  obtain v blank s where e: "e = (v, blank, s)" by (cases e) auto
  have no: "CHR '' '' \<notin> set v" "CHR '' '' \<notin> set s" using assms(1) e by (simp_all add: pieceOk_def)
  have tail: "replaceAll (u @ rest) (w @ '' '') new = u @ (if rest = [] then [] else ''; '' @ replaceAll (drop 2 rest) (w @ '' '') new)"
    if "CHR '' '' \<notin> set u" for u
  proof (cases "rest = []")
    case True
    then show ?thesis using that by (simp add: replaceAll_no_char [of "CHR '' ''"])
  next
    case False
    then obtain t where t: "rest = ''; '' @ t" using assms(6) by blast
    have "\<not> hasSuffix (u @ '';'') w" using assms(3,5) by (cases w rule: rev_cases) (auto simp: hasSuffix_iff)
    then show ?thesis using replaceAll_word [of "u @ '';''" w t new] that assms(2) t by simp
  qed
  show ?thesis
  proof (cases blank)
    case True
    have "replaceAll (v @ '' '' @ (s @ rest)) (w @ '' '') new =
        (if hasSuffix v w then take (length v - length w) v @ new else v @ '' '') @ replaceAll (s @ rest) (w @ '' '') new"
      using no(1) assms(2) by (rule replaceAll_word)
    moreover have "hasSuffix v w \<longleftrightarrow> v = w" using assms(4) e True by (auto simp: hasSuffix_iff)
    ultimately show ?thesis using tail [OF no(2)] e True by (simp add: piece_def subst_def)
  next
    case False
    then show ?thesis using tail [of "v @ s"] no e by (simp add: piece_def subst_def)
  qed
qed

lemma joinStr_Cons: "joinStr sep (x # xs) = x @ (if xs = [] then [] else sep @ joinStr sep xs)"
  by (cases xs) simp_all

lemma replaceAll_pieces:
  assumes "\<forall>e\<in>set es. pieceOk e \<and> (\<not> fst (snd e) \<or> fst e = w \<or> \<not> hasSuffix (fst e) w)"
    and "CHR '' '' \<notin> set w" "w \<noteq> []" "last w \<noteq> CHR '';''"
  shows "replaceAll (joinStr ''; '' (map piece es)) (w @ '' '') new = joinStr ''; '' (map (piece \<circ> subst w new) es)"
  using assms(1)
proof (induction es)
  case (Cons e es)
  let ?rest = "if es = [] then [] else ''; '' @ joinStr ''; '' (map piece es)"
  have "replaceAll (piece e @ ?rest) (w @ '' '') new =
      piece (subst w new e) @ (if ?rest = [] then [] else ''; '' @ replaceAll (drop 2 ?rest) (w @ '' '') new)"
    using Cons.prems assms(2-4) by (intro replaceAll_piece) auto
  then show ?case using Cons by (auto simp: joinStr_Cons)
qed simp

text \<open>An entry as a piece, and what the replacements make of it.\<close>

fun entryPiece :: "pacEntry \<Rightarrow> string \<times> bool \<times> string" where
  "entryPiece EDirect = ([], False, ''DIRECT'')"
| "entryPiece (EVia k hp) = (kindName k, True, hp)"

fun schemeOf :: "pacKind \<Rightarrow> string" where
  "schemeOf KPROXY = []" | "schemeOf KHTTP = []" | "schemeOf KHTTPS = ''https://''"
| "schemeOf KSOCKS = ''socks5://''" | "schemeOf KSOCKS4 = ''socks4://''" | "schemeOf KSOCKS5 = ''socks5://''"

fun normalEntry :: "pacEntry \<Rightarrow> string" where
  "normalEntry EDirect = ''DIRECT''"
| "normalEntry (EVia k hp) = schemeOf k @ hp"

lemma hostPort_chars:
  assumes "hostPort hp" "c \<in> set hp"
  shows "isAlnum c \<or> c \<in> set ''.-:''"
proof -
  obtain h p where hp: "hp = h @ '':'' @ p" "list_all (\<lambda>c. isAlnum c \<or> c \<in> set ''.-'') h" "list_all (\<lambda>c. digitVal c \<noteq> None) p"
    using assms(1) by (auto simp: hostPort_def)
  have "isAlnum c" if "digitVal c \<noteq> None"
    using that by (auto simp: digitVal_def isAlnum_def Let_def split: if_splits)
  then show ?thesis using hp assms(2) by (auto simp: list_all_iff)
qed

lemma hostPort_clean: "hostPort hp \<Longrightarrow> clean hp"
proof -
  assume h: "hostPort hp"
  then have "hp \<noteq> []" by (auto simp: hostPort_def)
  moreover have "\<not> isSpace c \<and> c \<noteq> CHR '';'' \<and> c \<noteq> CHR '',''" if "c \<in> set hp" for c
    using hostPort_chars [OF h that] by (auto simp: isAlnum_def isSpace_def)
  ultimately show ?thesis by (auto simp: clean_def)
qed

lemma clean_append: "clean a \<Longrightarrow> clean b \<Longrightarrow> clean (a @ b)"
  by (auto simp: clean_def)

lemma clean_no_blank: "clean s \<Longrightarrow> CHR '' '' \<notin> set s"
  by (auto simp: clean_def isSpace_def)

lemma clean_trimmed: "clean s \<Longrightarrow> trimmed isSpace s"
  by (auto simp: clean_def intro: trimmed_no_space)

lemma normalEntry_clean: "entryOk e \<Longrightarrow> clean (normalEntry e)"
proof (cases e)
  case (EVia k hp)
  assume "entryOk e"
  then have "clean hp" using EVia hostPort_clean by simp
  moreover have "schemeOf k = [] \<or> clean (schemeOf k)" by (cases k) (simp_all add: clean_def isSpace_def)
  ultimately show ?thesis using EVia clean_append by auto
qed (simp add: clean_def isSpace_def)

abbreviation sub6 :: "string \<times> bool \<times> string \<Rightarrow> string \<times> bool \<times> string" where
  "sub6 \<equiv> subst ''SOCKS'' ''socks5://'' \<circ> subst ''SOCKS5'' ''socks5://'' \<circ> subst ''SOCKS4'' ''socks4://'' \<circ>
     subst ''HTTPS'' ''https://'' \<circ> subst ''HTTP'' [] \<circ> subst ''PROXY'' []"

lemma piece_entry: "piece (entryPiece e) = entryText e"
  by (cases e) (simp_all add: piece_def)

lemma piece_normal: "piece (sub6 (entryPiece e)) = normalEntry e"
proof (cases e)
  case (EVia k hp)
  then show ?thesis by (cases k) (simp_all add: piece_def subst_def)
qed (simp add: piece_def subst_def)

text \<open>Throughout the replacements a piece has a word of the six kinds before its blank.\<close>

definition kinds :: "string list" where
  "kinds = [''PROXY'', ''HTTP'', ''HTTPS'', ''SOCKS'', ''SOCKS4'', ''SOCKS5'']"

definition pieceInv :: "string \<times> bool \<times> string \<Rightarrow> bool" where
  "pieceInv e \<longleftrightarrow> pieceOk e \<and> (fst (snd e) \<longrightarrow> fst e \<in> set kinds)"

lemma pieceInv_entry: "entryOk e \<Longrightarrow> pieceInv (entryPiece e)"
proof (cases e)
  case (EVia k hp)
  assume "entryOk e"
  then have "CHR '' '' \<notin> set hp" using EVia clean_no_blank hostPort_clean by simp
  then show ?thesis using EVia by (cases k) (simp_all add: pieceInv_def pieceOk_def kinds_def)
qed (simp add: pieceInv_def pieceOk_def)

lemma pieceInv_subst: "pieceInv e \<Longrightarrow> CHR '' '' \<notin> set new \<Longrightarrow> pieceInv (subst w new e)"
  by (auto simp: pieceInv_def pieceOk_def subst_def split: prod.splits)

lemma kinds_suffix:
  assumes "v \<in> set kinds" "w \<in> set kinds" "hasSuffix v w"
  shows "v = w"
  using assms by (auto simp: kinds_def hasSuffix_def)

lemma replaceAll_kind:
  assumes "\<forall>e\<in>set es. pieceInv e" "w \<in> set kinds"
  shows "replaceAll (joinStr ''; '' (map piece es)) (w @ '' '') new = joinStr ''; '' (map piece (map (subst w new) es))"
proof -
  have w: "CHR '' '' \<notin> set w" "w \<noteq> []" "last w \<noteq> CHR '';''" using assms(2) by (auto simp: kinds_def)
  have "\<forall>e\<in>set es. pieceOk e \<and> (\<not> fst (snd e) \<or> fst e = w \<or> \<not> hasSuffix (fst e) w)"
    using assms kinds_suffix by (auto simp: pieceInv_def)
  then show ?thesis using replaceAll_pieces w by simp
qed

lemma map_joinStr: "map f (joinStr sep xs) = joinStr (map f sep) (map (map f) xs)"
  by (induction xs) (simp_all add: joinStr_Cons)

lemma splitChar_blank_join:
  assumes "xs \<noteq> []" "\<forall>x\<in>set xs. CHR '','' \<notin> set x"
  shows "map trimSpace (splitChar CHR '','' (joinStr '', '' xs)) = map trimSpace xs"
  using assms
proof (induction xs)
  case (Cons x xs)
  show ?case
  proof (cases "xs = []")
    case True
    then show ?thesis using Cons.prems by (simp add: splitChar_single)
  next
    case False
    obtain y ys where y: "splitChar CHR '','' (joinStr '', '' xs) = y # ys"
      by (cases "splitChar CHR '','' (joinStr '', '' xs)") simp_all
    have "trimSpace (CHR '' '' # y) = trimSpace y"
      by (simp add: trimSpace_def trimFunc_def trimLeftFunc_def isSpace_def)
    then show ?thesis
      using Cons False y splitChar_append [of "CHR '',''" x "CHR '' '' # joinStr '', '' xs"] by (simp add: joinStr_Cons)
  qed
qed simp

lemma joinStr_ends:
  assumes "xs \<noteq> []" "\<forall>x\<in>set xs. x \<noteq> []"
  shows "joinStr sep xs \<noteq> [] \<and> hd (joinStr sep xs) = hd (hd xs) \<and> last (joinStr sep xs) = last (last xs)"
  using assms
proof (induction xs)
  case (Cons x xs)
  then show ?case by (cases "xs = []") (auto simp: joinStr_Cons)
qed simp

lemma entryText_props: "entryOk e \<Longrightarrow> entryText e \<noteq> [] \<and> \<not> isSpace (hd (entryText e)) \<and> \<not> isSpace (last (entryText e))"
proof (cases e)
  case (EVia k hp)
  assume "entryOk e"
  then have "clean hp" using EVia hostPort_clean by simp
  then have "hp \<noteq> []" "\<not> isSpace (last hp)" by (auto simp: clean_def)
  then show ?thesis using EVia by (cases k) (simp_all add: isSpace_def)
qed (simp add: isSpace_def)

lemma normalizeProxyResult_text:
  assumes "es \<noteq> []" "\<forall>e\<in>set es. entryOk e"
  shows "normalizeProxyResult (pacText es) = joinStr '','' (map normalEntry es)"
proof -
  let ?ps = "map entryPiece es"
  have ptx: "pacText es = joinStr ''; '' (map piece ?ps)" by (simp add: pacText_def comp_def piece_entry)
  have ends: "pacText es \<noteq> []" "\<not> isSpace (hd (pacText es))" "\<not> isSpace (last (pacText es))"
    using joinStr_ends [of "map entryText es" "''; ''"] assms entryText_props
    by (auto simp: pacText_def hd_map last_map)
  then have tr: "trimSpace (pacText es) = pacText es" by (intro trimSpace_id) (simp add: trimmed_def)
  have inv: "\<forall>p\<in>set ?ps. pieceInv p" using assms(2) pieceInv_entry by auto
  define p1 where "p1 = map (subst ''PROXY'' []) ?ps"
  define p2 where "p2 = map (subst ''HTTP'' []) p1"
  define p3 where "p3 = map (subst ''HTTPS'' ''https://'') p2"
  define p4 where "p4 = map (subst ''SOCKS4'' ''socks4://'') p3"
  define p5 where "p5 = map (subst ''SOCKS5'' ''socks5://'') p4"
  define p6 where "p6 = map (subst ''SOCKS'' ''socks5://'') p5"
  have i1: "\<forall>p\<in>set p1. pieceInv p" using inv by (auto simp: p1_def intro: pieceInv_subst)
  have i2: "\<forall>p\<in>set p2. pieceInv p" using i1 by (auto simp: p2_def intro: pieceInv_subst)
  have i3: "\<forall>p\<in>set p3. pieceInv p" using i2 by (auto simp: p3_def intro: pieceInv_subst)
  have i4: "\<forall>p\<in>set p4. pieceInv p" using i3 by (auto simp: p4_def intro: pieceInv_subst)
  have i5: "\<forall>p\<in>set p5. pieceInv p" using i4 by (auto simp: p5_def intro: pieceInv_subst)
  have r1: "replaceAll (joinStr ''; '' (map piece ?ps)) ''PROXY '' [] = joinStr ''; '' (map piece p1)"
    using replaceAll_kind [OF inv, of "''PROXY''" "[]"] by (simp add: kinds_def p1_def)
  have r2: "replaceAll (joinStr ''; '' (map piece p1)) ''HTTP '' [] = joinStr ''; '' (map piece p2)"
    using replaceAll_kind [OF i1, of "''HTTP''" "[]"] by (simp add: kinds_def p2_def)
  have r3: "replaceAll (joinStr ''; '' (map piece p2)) ''HTTPS '' ''https://'' = joinStr ''; '' (map piece p3)"
    using replaceAll_kind [OF i2, of "''HTTPS''" "''https://''"] by (simp add: kinds_def p3_def)
  have r4: "replaceAll (joinStr ''; '' (map piece p3)) ''SOCKS4 '' ''socks4://'' = joinStr ''; '' (map piece p4)"
    using replaceAll_kind [OF i3, of "''SOCKS4''" "''socks4://''"] by (simp add: kinds_def p4_def)
  have r5: "replaceAll (joinStr ''; '' (map piece p4)) ''SOCKS5 '' ''socks5://'' = joinStr ''; '' (map piece p5)"
    using replaceAll_kind [OF i4, of "''SOCKS5''" "''socks5://''"] by (simp add: kinds_def p5_def)
  have r6: "replaceAll (joinStr ''; '' (map piece p5)) ''SOCKS '' ''socks5://'' = joinStr ''; '' (map piece p6)"
    using replaceAll_kind [OF i5, of "''SOCKS''" "''socks5://''"] by (simp add: kinds_def p6_def)
  have p6: "map piece p6 = map normalEntry es"
    using piece_normal by (simp add: p6_def p5_def p4_def p3_def p2_def p1_def)
  let ?f = "\<lambda>x. if x = CHR '';'' then CHR '','' else x"
  have cl: "\<forall>x\<in>set (map normalEntry es). clean x" using assms(2) normalEntry_clean by auto
  have same: "map (map ?f) (map normalEntry es) = map normalEntry es"
    using cl by (intro map_idI) (auto simp: clean_def intro: map_idI)
  have r7: "replaceAll (joinStr ''; '' (map normalEntry es)) '';'' '','' = joinStr '', '' (map normalEntry es)"
    unfolding replaceAll_char map_joinStr same by simp
  have sp: "map trimSpace (splitChar CHR '','' (joinStr '', '' (map normalEntry es))) = map normalEntry es"
  proof -
    have "\<forall>x\<in>set (map normalEntry es). CHR '','' \<notin> set x" using cl by (auto simp: clean_def)
    then have "map trimSpace (splitChar CHR '','' (joinStr '', '' (map normalEntry es))) = map trimSpace (map normalEntry es)"
      using assms(1) by (intro splitChar_blank_join) simp_all
    also have "\<dots> = map normalEntry es" using cl by (intro map_idI) (auto intro: trimSpace_id clean_trimmed)
    finally show ?thesis .
  qed
  have ne: "filter (\<lambda>part. part \<noteq> []) (map normalEntry es) = map normalEntry es"
    using cl by (intro filter_True) (auto simp: clean_def)
  have lo: "toLower (trimSpace ''HTTPS '') @ ''://'' = ''https://''" "toLower (trimSpace ''SOCKS4 '') @ ''://'' = ''socks4://''"
    "toLower (trimSpace ''SOCKS5 '') @ ''://'' = ''socks5://''" by (simp_all add: go_simps)
  show ?thesis
    using assms(1) ends(1)
    unfolding normalizeProxyResult_def ptx tr [unfolded ptx] Let_def fold.simps id_apply comp_apply lo r1 r2 r3 r4 r5 r6 p6 r7 sp ne
    by simp
qed

lemma splitWhen_join:
  assumes "xs \<noteq> []" "\<forall>x\<in>set xs. \<forall>c\<in>set x. \<not> p c" "p c"
  shows "splitWhen p (joinStr [c] xs) = xs"
proof -
  have single: "splitWhen p x = [x]" if "\<forall>c\<in>set x. \<not> p c" for x
    using that by (induction x) simp_all
  have app: "splitWhen p (x @ c # s) = x # splitWhen p s" if "\<forall>c\<in>set x. \<not> p c" for x s
    using that assms(3) by (induction x) simp_all
  show ?thesis using assms(1,2) by (induction xs) (auto simp: joinStr_Cons single app)
qed

lemma parsePACPart_normal:
  assumes "entryOk e"
  shows "parsePACPart (normalEntry e) = (if e = EDirect then None else Some (normalEntry e))"
proof -
  have c: "clean (normalEntry e)" by (rule normalEntry_clean [OF assms])
  have tr: "trimSpace (normalEntry e) = normalEntry e" by (rule trimSpace_id [OF clean_trimmed [OF c]])
  have nb: "afterBlank (normalEntry e) = None"
    using cutChar_none [OF clean_no_blank [OF c]] by (simp add: afterBlank_def)
  have "\<not> equalFold (normalEntry e) ''DIRECT''" if "e \<noteq> EDirect"
  proof -
    obtain k hp where e: "e = EVia k hp" using \<open>e \<noteq> EDirect\<close> by (cases e) auto
    then have "CHR '':'' \<in> set (normalEntry e)" using assms by (auto simp: hostPort_def)
    then have "lowerChar CHR '':'' \<in> set (toLower (normalEntry e))" by (simp add: toLower_def)
    then have "CHR '':'' \<in> set (toLower (normalEntry e))" by (simp add: lowerChar_def)
    moreover have "CHR '':'' \<notin> set (toLower ''DIRECT'')" by (simp add: go_simps)
    ultimately show ?thesis by (metis equalFold_def)
  qed
  moreover have "normalEntry e \<noteq> []" using c by (simp add: clean_def)
  moreover have "equalFold ''DIRECT'' ''DIRECT''" by simp
  ultimately show ?thesis using tr nb by (cases "e = EDirect") (simp_all add: parsePACPart_def Let_def)
qed

definition viaEntries :: "pacEntry list \<Rightarrow> pacEntry list" where
  "viaEntries es = filter (\<lambda>e. e \<noteq> EDirect) es"

lemma parsePACResult_normal:
  assumes "es \<noteq> []" "\<forall>e\<in>set es. entryOk e"
  shows "parsePACResult (joinStr '','' (map normalEntry es)) = map normalEntry (viaEntries es)"
proof -
  have cl: "\<forall>x\<in>set (map normalEntry es). clean x" using assms(2) normalEntry_clean by auto
  have "splitWhen (\<lambda>c. c = CHR '';'' \<or> c = CHR '','') (joinStr '','' (map normalEntry es)) = map normalEntry es"
    using assms(1) cl by (intro splitWhen_join) (auto simp: clean_def)
  moreover have "filter (\<lambda>f. f \<noteq> []) (map normalEntry es) = map normalEntry es"
    using cl by (intro filter_True) (auto simp: clean_def)
  ultimately have "parsePACResult (joinStr '','' (map normalEntry es)) = List.map_filter parsePACPart (map normalEntry es)"
    by (simp add: parsePACResult_def fieldsFunc_def)
  also have "\<dots> = map normalEntry (viaEntries es)"
    using assms(2) by (induction es) (auto simp: List.map_filter_simps parsePACPart_normal viaEntries_def)
  finally show ?thesis .
qed

fun entryAddr :: "pacEntry \<Rightarrow> string" where
  "entryAddr EDirect = []"
| "entryAddr (EVia k hp) = hp"

lemma unescape_plain: "list_all (\<lambda>c. isAlnum c \<or> c \<in> set ''.-:'') s \<Longrightarrow> unescape EncHost s = Some s"
proof (induction s)
  case (Cons c s)
  then have c: "isAlnum c \<or> c \<in> set ''.-:''" by simp
  then have "c \<noteq> CHR ''%''" by (auto simp: isAlnum_def Let_def)
  moreover have "\<not> shouldEscape c EncHost" using c by (auto simp: shouldEscape_def)
  ultimately show ?case using Cons by simp
qed simp

lemma parseHost_hostPort:
  assumes "hostPort hp"
  shows "parseHost hp = Some hp"
proof -
  obtain h p where hp: "hp = h @ '':'' @ p" "h \<noteq> []" "list_all (\<lambda>c. isAlnum c \<or> c \<in> set ''.-'') h" "list_all (\<lambda>c. digitVal c \<noteq> None) p"
    using assms by (auto simp: hostPort_def)
  have "CHR '':'' \<notin> set p" using hp(4) by (auto simp: list_all_iff digitVal_def)
  then have cut: "lastCut CHR '':'' hp = Some (h, p)" using lastCut_append [of "CHR '':''" p h] hp(1) by simp
  have "\<not> hasPrefix hp ''[''"
    using hp(1-3) by (cases h) (auto simp: isAlnum_def Let_def)
  moreover have "validOptionalPort (CHR '':'' # p)" using hp(4) by (simp add: validOptionalPort_def)
  moreover have "unescape EncHost hp = Some hp"
    using hostPort_chars [OF assms] by (intro unescape_plain) (auto simp: list_all_iff)
  ultimately show ?thesis using cut by (simp add: parseHost_def)
qed

lemma parseAuthority_hostPort:
  assumes "hostPort hp"
  shows "parseAuthority hp = Some (None, hp)"
proof -
  have "CHR ''@'' \<notin> set hp" using hostPort_chars [OF assms, of "CHR ''@''"] by (auto simp: isAlnum_def Let_def)
  then show ?thesis using parseHost_hostPort [OF assms] by (simp add: parseAuthority_def lastCut_none)
qed

lemma urlParse_scheme:
  assumes "hostPort hp" "sch \<in> {''https'', ''socks4'', ''socks5''}"
  shows "\<exists>u. urlParse (sch @ ''://'' @ hp) = Some u \<and> u_host u = hp"
proof -
  have ch: "c \<noteq> CHR ''#''" "c \<noteq> CHR ''?''" "c \<noteq> CHR ''/''" "\<not> isCTL c" if "c \<in> set hp" for c
    using hostPort_chars [OF assms(1) that] by (auto simp: isAlnum_def isCTL_def Let_def)
  have no: "CHR ''#'' \<notin> set (sch @ ''://'' @ hp)" using ch(1) assms(2) by auto
  have ctl: "\<not> list_ex isCTL (sch @ ''://'' @ hp)" using ch(4) assms(2) by (auto simp: list_ex_iff isCTL_def)
  have gs: "getScheme (sch @ ''://'' @ hp) = Some (sch, ''//'' @ hp)"
    using assms(2) by (auto simp: getScheme_def)
  have q: "CHR ''?'' \<notin> set (''//'' @ hp)" using ch(2) by auto
  then have nf: "count_list (''//'' @ hp) CHR ''?'' = 0" by (simp add: count_list_0_iff)
  have cq: "cutChar CHR ''?'' (''//'' @ hp) = (''//'' @ hp, [], False)" using q by (rule cutChar_none)
  have tw: "takeWhile (\<lambda>c. c \<noteq> CHR ''/'') hp = hp" using ch(3) by (simp add: takeWhile_eq_all_conv)
  have "\<exists>u. parseRest sch (''//'' @ hp) = Some u \<and> u_host u = hp"
  proof -
    have "sch \<noteq> []" using assms(2) by auto
    moreover have "hasPrefix (''//'' @ hp) ''/''" "hasPrefix (''//'' @ hp) ''//''" "drop 2 (''//'' @ hp) = hp" by simp_all
    ultimately show ?thesis
      unfolding parseRest_def Let_def nf cq prod.case
      by (simp add: tw parseAuthority_hostPort [OF assms(1)] setPath_def)
  qed
  moreover have "cutChar CHR ''#'' (sch @ ''://'' @ hp) = (sch @ ''://'' @ hp, [], False)" by (rule cutChar_none [OF no])
  moreover have "sch @ ''://'' @ hp \<noteq> ''*''" using assms(2) by auto
  ultimately show ?thesis using ctl gs by (auto simp: urlParse_def)
qed

lemma normalizeProxyAddr_entry:
  assumes "entryOk (EVia k hp)"
  shows "normalizeProxyAddr (normalEntry (EVia k hp)) = hp"
proof -
  have hp: "hostPort hp" using assms by simp
  have nb: "cutChar CHR '' '' (normalEntry (EVia k hp)) = (normalEntry (EVia k hp), [], False)"
    by (rule cutChar_none [OF clean_no_blank [OF normalEntry_clean [OF assms]]])
  have plain: "\<not> containsStr hp ''://''"
  proof
    assume "containsStr hp ''://''"
    then have "CHR ''/'' \<in> set hp" by (auto simp: containsStr_iff)
    from hostPort_chars [OF hp this] show False by (simp add: isAlnum_def)
  qed
  have "hp \<noteq> []" using hp by (auto simp: hostPort_def)
  show ?thesis
  proof (cases "schemeOf k = []")
    case True
    then show ?thesis using nb plain by (simp add: normalizeProxyAddr_def)
  next
    case False
    then obtain sch where s: "schemeOf k = sch @ ''://''" "sch \<in> {''https'', ''socks4'', ''socks5''}" by (cases k) auto
    have "containsStr (schemeOf k @ hp) ''://''" using s(1) by (auto simp: containsStr_iff)
    moreover obtain u where "urlParse (schemeOf k @ hp) = Some u" "u_host u = hp"
      using urlParse_scheme [OF hp s(2)] s(1) by auto
    ultimately show ?thesis using nb \<open>hp \<noteq> []\<close> by (simp add: normalizeProxyAddr_def)
  qed
qed

lemma pac_dials:
  assumes "es \<noteq> []" "\<forall>e\<in>set es. entryOk e"
  shows "map normalizeProxyAddr (rt_proxies (pacRoute (normalizeProxyResult (pacText es)))) = map entryAddr (viaEntries es) \<and>
    (rt_direct (pacRoute (normalizeProxyResult (pacText es))) \<longleftrightarrow> (\<forall>e\<in>set es. e = EDirect))"
proof -
  have p: "parsePACResult (normalizeProxyResult (pacText es)) = map normalEntry (viaEntries es)"
    using assms by (simp add: normalizeProxyResult_text parsePACResult_normal)
  have a: "normalizeProxyAddr (normalEntry e) = entryAddr e" if "e \<in> set (viaEntries es)" for e
  proof -
    have "e \<noteq> EDirect" using that by (simp add: viaEntries_def)
    then obtain k hp where "e = EVia k hp" by (cases e) simp_all
    moreover have "entryOk e" using that assms(2) by (simp add: viaEntries_def)
    ultimately show ?thesis using normalizeProxyAddr_entry by (metis entryAddr.simps(2))
  qed
  have "viaEntries es = [] \<longleftrightarrow> (\<forall>e\<in>set es. e = EDirect)" by (auto simp: viaEntries_def filter_empty_conv)
  then show ?thesis
    using p a by (auto simp: pacRoute_def Let_def directRoute_def proxyRoute_def)
qed

lemma route_shape:
  assumes "resolveRoute dns plat findProxy r s = Return (rt, s')"
  shows "rt_direct rt \<longleftrightarrow> rt_proxies rt = []"
  using assms
  by (auto simp: resolveRoute_def Let_def go_bind_Return_iff pacRoute_def directRoute_def proxyRoute_def
      split: if_splits option.splits go_result.splits prod.splits)

lemma route_keeps:
  assumes "resolveRoute dns plat findProxy r s = Return (rt, s')"
  shows "s'\<lparr>sv_pac := sv_pac s\<rparr> = s" "sv_pac s \<noteq> None \<Longrightarrow> s' = s"
proof -
  have eq: "s\<lparr>sv_pac := sv_pac s\<rparr> = s" by simp
  show "s'\<lparr>sv_pac := sv_pac s\<rparr> = s" "sv_pac s \<noteq> None \<Longrightarrow> s' = s"
    using assms eq
    by (auto simp: resolveRoute_def Let_def ensurePlatformPAC_def go_bind_Return_iff
        split: if_splits option.splits go_result.splits prod.splits)
qed

text \<open>C31: a PAC answer in the documented format, from the script to the sockets: after normalisation and
  parsing, the addresses px dials are the hosts of the entries, in their order, without the \<^verbatim>\<open>DIRECT\<close> ones; the
  route is direct exactly when there is no other entry.  The kind makes no difference: an entry for a
  SOCKS server is dialled, and then spoken to, as an HTTP proxy.\<close>

theorem pac_answer_dials:
  assumes "es \<noteq> []" "\<forall>e\<in>set es. entryOk e"
  shows "map normalizeProxyAddr (rt_proxies (pacRoute (normalizeProxyResult (pacText es)))) = map entryAddr (viaEntries es) \<and>
    (rt_direct (pacRoute (normalizeProxyResult (pacText es))) \<longleftrightarrow> (\<forall>e\<in>set es. e = EDirect))"
  using pac_dials [OF assms] .

theorem pac_answer_dials_witness:
  "map normalizeProxyAddr (rt_proxies (pacRoute (normalizeProxyResult ''PROXY p1:8080; SOCKS p2:1080; DIRECT''))) = [''p1:8080'', ''p2:1080'']"
proof -
  let ?es = "[EVia KPROXY ''p1:8080'', EVia KSOCKS ''p2:1080'', EDirect]"
  have h: "hostPort ''p1:8080''" "hostPort ''p2:1080''"
    unfolding hostPort_def
    by (rule exI [of _ "''p1''"], rule exI [of _ "''8080''"], simp add: isAlnum_def digitVal_def Let_def,
        rule exI [of _ "''p2''"], rule exI [of _ "''1080''"], simp add: isAlnum_def digitVal_def Let_def)
  have "map normalizeProxyAddr (rt_proxies (pacRoute (normalizeProxyResult (pacText ?es)))) = map entryAddr (viaEntries ?es)"
    using pac_answer_dials [of ?es] h by simp
  then show ?thesis by (simp add: pacText_def viaEntries_def)
qed

section \<open>Routes\<close>

text \<open>C32: a route is direct exactly when it has no proxies, so a \<^verbatim>\<open>CONNECT\<close> that is not direct has a proxy to try and
  never reaches the relay without a connection; a host on the \<^verbatim>\<open>noproxy\<close> list always goes direct;
  routing changes nothing of the server but the discovered PAC evaluator, and once there is one, the
  platform is not asked again.\<close>

theorem route_invariant:
  assumes "resolveRoute dns plat findProxy r s = Return (rt, s')"
  shows "(rt_direct rt \<longleftrightarrow> rt_proxies rt = []) \<and>
    (matchHost dns (sv_noproxy s) (routeHost r) (Some (defaultResolver dns)) = Return True \<longrightarrow> rt = directRoute \<and> s' = s) \<and>
    s'\<lparr>sv_pac := sv_pac s\<rparr> = s \<and> (sv_pac s \<noteq> None \<longrightarrow> s' = s) \<and>
    (sv_pac s' \<noteq> None \<longrightarrow> resolveRoute dns' plat' findProxy' r' s' = resolveRoute dns' plat'' findProxy' r' s')"
proof -
  obtain b where b: "matchHost dns (sv_noproxy s) (routeHost r) (Some (defaultResolver dns)) = Return b"
    using assms by (auto simp: resolveRoute_def Let_def go_bind_Return_iff)
  have a: "resolveRoute dns plat findProxy r s = Return (rt, s')" by (rule assms)
  have shape: "rt_direct rt \<longleftrightarrow> rt_proxies rt = []" by (rule route_shape [OF a])
  have frame: "s'\<lparr>sv_pac := sv_pac s\<rparr> = s" "sv_pac s \<noteq> None \<Longrightarrow> s' = s" using route_keeps [OF a] by blast+
  have sticky: "resolveRoute dns' plat' findProxy' r' s' = resolveRoute dns' plat'' findProxy' r' s'" if "sv_pac s' \<noteq> None"
  proof -
    obtain e where "sv_pac s' = Some e" using \<open>sv_pac s' \<noteq> None\<close> by auto
    then show ?thesis unfolding resolveRoute_def Let_def by (simp cong: if_cong)
  qed
  have "rt = directRoute \<and> s' = s" if "b" using a b that by (auto simp: resolveRoute_def Let_def)
  then show ?thesis using shape frame sticky b by auto
qed

text \<open>A server and a request for the witnesses.\<close>

definition plainServer :: server where
  "plainServer = \<lparr>sv_cfg = Default, sv_clientAuth = \<lparr>h_username = [], h_password = [], h_methods = [], h_noSSPI = False\<rparr>,
     sv_allow = None, sv_noproxy = None, sv_pac = None, sv_kerberos = None,
     sv_creds = \<lparr>cr_username = [], cr_password = []\<rparr>, sv_locals = {}\<rparr>"

definition getRequest :: request where
  "getRequest = \<lparr>r_method = ''GET'', r_url = emptyURL\<lparr>u_scheme := ''http'', u_host := ''a'', u_path := ''/''\<rparr>, r_host = ''a'',
     r_header = [], r_close = False, r_tls = False, r_remoteAddr = ''127.0.0.1:5000'', r_body = []\<rparr>"

theorem route_invariant_witness:
  "\<exists>rt s'. resolveRoute (\<lambda>_. None) (\<lambda>_. Return (emptyInfo\<lparr>pi_pac := ''http://w/wpad.dat''\<rparr>)) (\<lambda>_ _ _. ''p:1'') getRequest plainServer = Return (rt, s') \<and>
     rt_proxies rt = [''p:1''] \<and> \<not> rt_direct rt \<and>
     resolveRoute (\<lambda>_. None) (\<lambda>_. Error ''x'') (\<lambda>_ _ _. ''p:1'') getRequest s' = resolveRoute (\<lambda>_. None) unixLoadProxyInfo (\<lambda>_ _ _. ''p:1'') getRequest s'"
proof -
  have p: "pacRoute ''p:1'' = proxyRoute [''p:1'']"
    by (simp add: pacRoute_def parsePACResult_def parsePACPart_def afterBlank_def List.map_filter_simps Let_def go_simps)
  obtain s' where s: "resolveRoute (\<lambda>_. None) (\<lambda>_. Return (emptyInfo\<lparr>pi_pac := ''http://w/wpad.dat''\<rparr>)) (\<lambda>_ _ _. ''p:1'') getRequest plainServer =
      Return (proxyRoute [''p:1''], s')" "sv_pac s' \<noteq> None"
    by (simp add: resolveRoute_def Let_def plainServer_def matchHost_def ensurePlatformPAC_def emptyInfo_def p Default_def)
  from route_invariant [OF s(1)] s show ?thesis by (auto simp: proxyRoute_def)
qed

text \<open>How a route uses the evaluator: a call with these arguments has returned in a run of the evaluator that led to the given
  state.\<close>

definition returnsIn :: "world \<Rightarrow> evaluator \<Rightarrow> sys \<Rightarrow> string \<Rightarrow> string \<Rightarrow> string \<Rightarrow> bool" where
  "returnsIn w e st u h res \<longleftrightarrow> reach w e st \<and> (\<forall>g\<in>set (sys_threads st). CHR 0x00 \<notin> set (th_url g)) \<and>
     (\<exists>g\<in>set (sys_threads st). th_url g = u \<and> th_host g = h \<and> th_pc g = Returned res)"

lemma resolveRoute_pac:
  assumes "resolveRoute dns plat findProxy r s = Return (rt, s')" "sv_pac s' = Some e"
    and "matchHost dns (sv_noproxy s) (routeHost r) (Some (defaultResolver dns)) = Return False"
  shows "rt = pacRoute (findProxy e (absoluteURL r) (routeHost r))"
proof (cases "sv_pac s")
  case (Some e0)
  then show ?thesis using assms by (auto simp: resolveRoute_def Let_def)
next
  case None
  then show ?thesis using assms
    by (auto simp: resolveRoute_def Let_def ensurePlatformPAC_def split: if_splits go_result.splits)
qed

lemma pacRoute_DIRECT: "pacRoute ''DIRECT'' = directRoute"
proof -
  have "parsePACResult ''DIRECT'' = []"
    by (simp add: parsePACResult_def parsePACPart_def List.map_filter_simps Let_def go_simps)
  then show ?thesis by (simp add: pacRoute_def)
qed



section \<open>Responses\<close>

lemma hdrValues_addAll:
  "hdrValues (addAll src dst) key = hdrValues dst key @ concat (map snd (filter (\<lambda>(k, vs). canonicalKey k = canonicalKey key) src))"
proof (induction src arbitrary: dst)
  case (Cons kv src)
  obtain k vs where kv: "kv = (k, vs)" by (cases kv)
  have "hdrValues (fold (\<lambda>v h. hdrAdd h k v) vs d) key = hdrValues d key @ (if canonicalKey k = canonicalKey key then vs else [])" for d
  proof (cases "canonicalKey k = canonicalKey key")
    case True
    then have "hdrValues x k = hdrValues x key" for x by (simp add: hdrValues_def)
    then show ?thesis using True by (induction vs arbitrary: d) (simp_all add: hdrValues_add)
  next
    case False
    then show ?thesis by (induction vs arbitrary: d) (simp_all add: hdrValues_add)
  qed
  then show ?case using Cons kv by (simp add: addAll_def)
qed (simp add: addAll_def)

lemma concat_single_key:
  "distinct (map fst h) \<Longrightarrow> concat (map snd (filter (\<lambda>(k, vs). k = c) h)) = (case map_of h c of None \<Rightarrow> [] | Some vs \<Rightarrow> vs)"
proof (induction h)
  case (Cons kv h)
  obtain k vs where kv: "kv = (k, vs)" by (cases kv)
  show ?case
  proof (cases "k = c")
    case True
    then have "map_of h c = None" using Cons.prems kv by (simp add: map_of_eq_None_iff)
    then show ?thesis using Cons kv True by simp
  qed (use Cons kv in auto)
qed simp

text \<open>The response is passed on: status, body as far as it can be read, and every header field with all its values in
  order, without the hop-by-hop ones.  The challenge of an upstream proxy, \<^verbatim>\<open>Proxy-Authenticate\<close>, is
  passed on.  Header maps have distinct canonical names, as the HTTP library builds them.\<close>

lemma response_copied:
  assumes "hdrOk (p_header resp)" "\<forall>k\<in>fst ` set (p_header resp). canonicalKey k = k"
  shows "rp_status (copyResponse resp b) = p_status resp \<and> rp_body (copyResponse resp b) = b \<and>
    hdrValues (rp_header (copyResponse resp b)) key =
      (if hopHeader key \<and> canonicalKey key \<noteq> ''Proxy-Authenticate'' then [] else hdrValues (p_header resp) key)"
proof -
  let ?h = "removeHopResponseHeaders (p_header resp)"
  have fl: "fold (\<lambda>k h. hdrDel h k) ks h = filter (\<lambda>(k, vs). k \<notin> canonicalKey ` set ks) h" for ks h
    by (induction ks arbitrary: h) (auto simp: hdrDel_def intro: filter_cong)
  have sub: "set hopResponseHeaders = set hopRequestHeaders - {''Proxy-Authenticate''}"
    by (auto simp: hopResponseHeaders_def hopRequestHeaders_def)
  then have can: "canonicalKey ` set hopResponseHeaders = set hopResponseHeaders"
    using hop_canonical by (auto simp: image_iff)
  have ck: "\<forall>k\<in>fst ` set ?h. canonicalKey k = k" and d: "distinct (map fst ?h)"
    using assms by (auto simp: removeHopResponseHeaders_def fl hdrOk_def distinct_map_filter)
  have "filter (\<lambda>(k, vs). canonicalKey k = canonicalKey key) ?h = filter (\<lambda>(k, vs). k = canonicalKey key) ?h"
    using ck by (intro filter_cong) auto
  then have "hdrValues (addAll ?h []) key = hdrValues ?h key"
    using concat_single_key [OF d] by (simp add: hdrValues_addAll) (simp add: hdrValues_def)
  moreover have "hdrValues ?h key = (if canonicalKey key \<in> set hopResponseHeaders then [] else hdrValues (p_header resp) key)"
    unfolding removeHopResponseHeaders_def hdrValues_delAll can ..
  ultimately show ?thesis by (auto simp: copyResponse_def hopHeader_iff sub)
qed

lemma response_copied_witness:
  "hdrValues (rp_header (copyResponse \<lparr>p_status = 200, p_header = [(''X-A'', [''1'', ''2'']), (''Upgrade'', [''h2c''])], p_close = False, p_body = ''ok''\<rparr> ''ok'')) ''x-a''
     = [''1'', ''2''] \<and>
   hdrValues (rp_header (copyResponse \<lparr>p_status = 200, p_header = [(''X-A'', [''1'', ''2'']), (''Upgrade'', [''h2c''])], p_close = False, p_body = ''ok''\<rparr> ''ok'')) ''upgrade'' = []"
proof -
  let ?r = "\<lparr>p_status = 200, p_header = [(''X-A'', [''1'', ''2'']), (''Upgrade'', [''h2c''])], p_close = False, p_body = ''ok''\<rparr>"
  note ev = canonicalKey_def isToken_def isAlnum_def upperChar_def lowerChar_def char_of_def Let_def
  have h: "hdrOk (p_header ?r)" "\<forall>k\<in>fst ` set (p_header ?r). canonicalKey k = k" by (simp_all add: hdrOk_def ev)
  have "hopHeader ''upgrade''" "\<not> hopHeader ''x-a''" "canonicalKey ''upgrade'' = ''Upgrade''" "canonicalKey ''x-a'' = ''X-A''"
    by (simp_all add: hopHeader_def go_simps ev)
  then show ?thesis
    using response_copied [OF h, of "''ok''" "''x-a''"] response_copied [OF h, of "''ok''" "''upgrade''"]
    by (simp add: hdrValues_def)
qed

section \<open>What the handlers rely on\<close>

text \<open>The contract of a routing function: it changes nothing of the server but the evaluator, and a route without a proxy
  is direct.\<close>

locale routing_contract =
  fixes routing :: "request \<Rightarrow> server \<Rightarrow> (route \<times> server) go_result"
  assumes keeps_server: "routing r s = Return (rt, s') \<Longrightarrow> s'\<lparr>sv_pac := sv_pac s\<rparr> = s"
    and route_kind: "routing r s = Return (rt, s') \<Longrightarrow> rt_direct rt \<longleftrightarrow> rt_proxies rt = []"
begin

lemma keeps_fields:
  assumes "routing r s = Return (rt, s')"
  shows "sv_cfg s' = sv_cfg s" "sv_clientAuth s' = sv_clientAuth s" "sv_allow s' = sv_allow s" "sv_locals s' = sv_locals s"
  using arg_cong [OF keeps_server [OF assms], of sv_cfg] arg_cong [OF keeps_server [OF assms], of sv_clientAuth]
    arg_cong [OF keeps_server [OF assms], of sv_allow] arg_cong [OF keeps_server [OF assms], of sv_locals] by simp_all

end

interpretation rr: routing_contract "resolveRoute dns plat findProxy" for dns plat findProxy
proof unfold_locales
  fix r s rt s'
  assume a: "resolveRoute dns plat findProxy r s = Return (rt, s')"
  show "s'\<lparr>sv_pac := sv_pac s\<rparr> = s" by (rule route_keeps [OF a])
  show "rt_direct rt \<longleftrightarrow> rt_proxies rt = []" using route_shape a by blast
qed

end
