(* ===== verification/Proxy_Upstream_Props.thy ===== *)
theory Proxy_Upstream_Props
  imports Proxy_Upstream Proxy_Route_Props Auth_Props
begin

text \<open>
  Properties of the upstream side: the number of attempts, what happens to connections, sessions and the
  semaphore on every path, and which credentials leave the machine.
\<close>

section \<open>Counting actions\<close>

fun isSent :: "act \<Rightarrow> bool" where
  "isSent (Sent c q) = True" | "isSent (SentText c t) = True" | "isSent _ = False"

fun isDialled :: "act \<Rightarrow> bool" where
  "isDialled (Dialled addr c) = True" | "isDialled _ = False"

fun isClosed :: "act \<Rightarrow> bool" where
  "isClosed (ClosedConn c) = True" | "isClosed _ = False"

text \<open>The actions on upstream connections and sessions, as opposed to those of the handlers.\<close>

fun upstreamAct :: "act \<Rightarrow> bool" where
  "upstreamAct SemReleased = False" | "upstreamAct (Relayed c) = False" | "upstreamAct Hijacked = False"
| "upstreamAct Established = False" | "upstreamAct _ = True"

definition number :: "(act \<Rightarrow> bool) \<Rightarrow> act list \<Rightarrow> nat" where
  "number P as = length (filter P as)"

lemma number_simps [simp]:
  "number P [] = 0" "number P (x # as) = (if P x then 1 else 0) + number P as" "number P (as @ bs) = number P as + number P bs"
  by (simp_all add: number_def)

abbreviation held :: "'c attempt \<Rightarrow> nat" where
  "held a \<equiv> (if at_conn a = None then 0 else 1)"

lemma acts_logAct [simp]: "run_acts (logAct x st) = run_acts st @ [x]" "run_world (logAct x st) = run_world st"
  by (simp_all add: logAct_def)

lemma doDial_acts:
  "doDial env addr st = (None, st') \<Longrightarrow> run_acts st' = run_acts st"
  "doDial env addr st = (Some c, st') \<Longrightarrow> run_acts st' = run_acts st @ [Dialled addr c]"
  by (auto simp: doDial_def split: prod.splits option.splits)

lemma doSend_acts: "doSend env c q st = (ok, st') \<Longrightarrow> run_acts st' = run_acts st @ [Sent c q]"
  by (auto simp: doSend_def split: prod.splits)

lemma doWrite_acts: "doWrite env c t st = (ok, st') \<Longrightarrow> run_acts st' = run_acts st @ [SentText c t]"
  by (auto simp: doWrite_def split: prod.splits)

lemma doRead_acts:
  "doRead env c st = (None, st') \<Longrightarrow> run_acts st' = run_acts st"
  "doRead env c st = (Some (resp, b), st') \<Longrightarrow> run_acts st' = run_acts st @ [Received c resp]"
  by (auto simp: doRead_def split: prod.splits option.splits)

lemma connFor_acts:
  "connFor env addr a st = (None, st') \<Longrightarrow> at_conn a = None \<and> run_acts st' = run_acts st"
  "connFor env addr a st = (Some c, st') \<Longrightarrow>
     at_conn a = Some c \<and> st' = st \<or> at_conn a = None \<and> run_acts st' = run_acts st @ [Dialled (normalizeProxyAddr addr) c]"
  by (auto simp: connFor_def doDial_acts split: option.splits)

lemma closeConn_acts:
  "closeConn a st = (a', st') \<Longrightarrow> at_conn a' = None \<and> at_session a' = at_session a \<and> at_header a' = at_header a \<and>
     (at_conn a = None \<and> st' = st \<or> (\<exists>c. at_conn a = Some c \<and> st' = logAct (ClosedConn c) st))"
  by (auto simp: closeConn_def split: option.splits)

lemmas act_dests = doDial_acts doSend_acts doWrite_acts doRead_acts

section \<open>Credentials\<close>

definition schemeAllowed :: "string \<Rightarrow> string \<Rightarrow> bool" where
  "schemeAllowed pref h \<longleftrightarrow> h = [] \<or> (\<exists>x\<in>set (preferenceOrder pref). hasPrefix (toUpper h) (toUpper (trimSpace x) @ '' ''))"

text \<open>A session that uses SSPI has an SSPI client; such a session never panics.\<close>

fun sessionComplete :: "'c session \<Rightarrow> bool" where
  "sessionComplete (NegotiateSession n) \<longleftrightarrow> (n_usedSSPI n \<longrightarrow> n_sspi n \<noteq> None)"
| "sessionComplete _ \<longleftrightarrow> True"

definition sessionAllowed :: "string \<Rightarrow> 'c session option \<Rightarrow> bool" where
  "sessionAllowed pref so \<longleftrightarrow>
     (\<forall>x. so = Some x \<longrightarrow> sessionComplete x \<and> (\<exists>y\<in>set (preferenceOrder pref). sessionScheme x = toUpper (trimSpace y)))"

lemma decodeChallenge_no_panic: "decodeChallenge ch \<noteq> Panic p"
  by (simp add: decodeChallenge_def split: option.splits)

lemma krbToken_no_panic: "krbToken env cr q \<noteq> Panic p"
  by (auto simp: krbToken_def buildKrbClient_def loadKrb5Config_def Let_def split: prod.splits option.splits go_result.splits if_splits)

lemma token_complete:
  assumes "sessionComplete x" "token e rnd q ch x = (res, x')"
  shows "sessionComplete x' \<and> res \<noteq> Panic p"
proof (cases x)
  case (NTLMSession cr stage)
  then show ?thesis using assms decodeChallenge_no_panic [of ch]
    by (auto simp: ntlmToken_def split: if_splits prod.splits option.splits go_result.splits)
next
  case (NegotiateSession n)
  then show ?thesis using assms decodeChallenge_no_panic [of ch] krbToken_no_panic [of e "n_creds n" q]
    by (auto simp: negotiateToken_def split: if_splits prod.splits option.splits go_result.splits)
qed (use assms in \<open>auto simp: basicToken_def split: if_splits\<close>)

lemma NewSession_complete: "NewSession e cr scheme addr = Return x \<Longrightarrow> sessionComplete x"
  by (auto simp: NewSession_def newNegotiateSession_def Let_def split: if_splits option.splits)

lemma NewSession_no_panic: "NewSession e cr scheme addr \<noteq> Panic p"
  by (auto simp: NewSession_def Let_def)

lemma firstOffered_mem: "firstOffered m schemes = Some (x, ch) \<Longrightarrow> x \<in> set schemes"
  by (induction schemes) (auto split: option.splits)

lemma token_allowed:
  assumes "sessionAllowed pref (Some x)" "token e rnd q ch x = (Return (h, d), x')"
  shows "schemeAllowed pref h \<and> sessionAllowed pref (Some x')"
proof -
  have "sessionScheme x' = sessionScheme x" using sess.scheme_kept [of e rnd q ch x] assms(2) by simp
  moreover have "h = [] \<or> hasPrefix (toUpper h) (sessionScheme x @ '' '')"
    using sess.header_scheme [of e rnd q ch x h d] assms(2) by simp
  ultimately show ?thesis using assms token_complete by (fastforce simp: sessionAllowed_def schemeAllowed_def)
qed

lemma answer_no_panic:
  assumes "sessionAllowed pref so"
  shows "answerChallenge env s addr rnd r chs so \<noteq> AuthPanic p so'"
proof -
  have "tokenResult (token (ue_auth env) rnd r ch x) \<noteq> AuthPanic p so'" if "sessionComplete x" for ch x
    using token_complete [OF that, of "ue_auth env" rnd r ch] by (auto simp: tokenResult_def split: prod.splits go_result.splits)
  then show ?thesis using assms NewSession_complete [of "ue_auth env" "sv_creds s" _ addr]
    by (auto simp: answerChallenge_def sessionAllowed_def NewSession_no_panic split: option.split go_result.split)
qed

lemma answer_allowed:
  assumes "sessionAllowed (pc_auth (cf_proxy (sv_cfg s))) so" "answerChallenge env s addr rnd r chs so = NextHeader h x"
  shows "schemeAllowed (pc_auth (cf_proxy (sv_cfg s))) h \<and> sessionAllowed (pc_auth (cf_proxy (sv_cfg s))) (Some x)"
proof -
  have t: "schemeAllowed (pc_auth (cf_proxy (sv_cfg s))) h \<and> sessionAllowed (pc_auth (cf_proxy (sv_cfg s))) (Some x)"
    if "tokenResult (token (ue_auth env) rnd r ch y) = NextHeader h x" "sessionAllowed (pc_auth (cf_proxy (sv_cfg s))) (Some y)" for ch y
  proof -
    obtain d where "token (ue_auth env) rnd r ch y = (Return (h, d), x)"
      using \<open>tokenResult (token (ue_auth env) rnd r ch y) = NextHeader h x\<close>
      by (auto simp: tokenResult_def split: prod.splits go_result.splits)
    then show ?thesis using token_allowed that(2) by blast
  qed
  show ?thesis
  proof (cases so)
    case None
    then obtain scheme ch y where c: "ChooseScheme (pc_auth (cf_proxy (sv_cfg s))) chs = Some (scheme, ch)"
      "NewSession (ue_auth env) (sv_creds s) scheme addr = Return y" "tokenResult (token (ue_auth env) rnd r ch y) = NextHeader h x"
      using assms(2) by (auto simp: answerChallenge_def split: option.splits go_result.splits)
    have "scheme \<in> set (preferenceOrder (pc_auth (cf_proxy (sv_cfg s))))"
      using c(1) firstOffered_mem by (auto simp: ChooseScheme_def)
    then have "sessionAllowed (pc_auth (cf_proxy (sv_cfg s))) (Some y)"
      using NewSession_scheme [OF c(2)] NewSession_complete [OF c(2)] by (auto simp: sessionAllowed_def)
    then show ?thesis by (rule t [OF c(3)])
  next
    case (Some y)
    then show ?thesis using assms t by (auto simp: answerChallenge_def)
  qed
qed

section \<open>One request through a proxy\<close>

definition attemptOk :: "server \<Rightarrow> request \<Rightarrow> string \<Rightarrow> act list \<Rightarrow> bool" where
  "attemptOk s r body new \<longleftrightarrow>
     (\<forall>c q. Sent c q \<in> set new \<longrightarrow> (\<exists>h. q = upstreamRequest s r body h \<and> schemeAllowed (pc_auth (cf_proxy (sv_cfg s))) h))"

text \<open>One attempt by its outcomes: no connection, an error with the connection closed, a response to return,
  or another attempt.  \<open>pre\<close> is the dial, if one was needed.\<close>

definition dialPart :: "string \<Rightarrow> 'c attempt \<Rightarrow> nat \<Rightarrow> act list" where
  "dialPart addr a c = (if at_conn a = None then [Dialled (normalizeProxyAddr addr) c] else [])"

lemma attempt_cases:
  assumes "proxyAttempts env s r body addr (Suc n) a st = (res, a', st')" "sessionAllowed (pc_auth (cf_proxy (sv_cfg s))) (at_session a)"
  obtains (dial) "at_conn a = None" "res = Error ''dial''" "a' = a" "run_acts st' = run_acts st"
  | (fail) c e where "at_conn a = None \<or> at_conn a = Some c" "\<exists>e. res = Error e" "at_conn a' = None"
      "e = [] \<or> (\<exists>resp. e = [Received c resp])"
      "run_acts st' = run_acts st @ dialPart addr a c @ [Sent c (upstreamRequest s r body (at_header a))] @ e @ [ClosedConn c]"
  | (respond) c resp b where "at_conn a = None \<or> at_conn a = Some c" "res = Return (resp, c, b)" "at_conn a' = Some c"
      "run_acts st' = run_acts st @ dialPart addr a c @ [Sent c (upstreamRequest s r body (at_header a)), Received c resp]"
  | (again) c resp e h x rnd chs b st4 where "at_conn a = None \<or> at_conn a = Some c" "e = [] \<and> at_conn b = Some c \<or> e = [ClosedConn c] \<and> at_conn b = None"
      "answerChallenge env s addr rnd r chs (at_session a) = NextHeader h x" "at_session b = Some x" "at_header b = h"
      "run_acts st4 = run_acts st @ dialPart addr a c @ [Sent c (upstreamRequest s r body (at_header a)), Received c resp] @ e"
      "proxyAttempts env s r body addr n b st4 = (res, a', st')"
proof -
  obtain co st1 where co: "connFor env addr a st = (co, st1)" by fastforce
  show thesis
  proof (cases co)
    case None
    then show ?thesis using assms co connFor_acts(1) [of env addr a st st1] by (intro dial) simp_all
  next
    case (Some c)
    let ?a = "a\<lparr>at_conn := Some c\<rparr>" and ?q = "upstreamRequest s r body (at_header a)"
    have d: "run_acts st1 = run_acts st @ dialPart addr a c" "at_conn a = None \<or> at_conn a = Some c"
      using connFor_acts(2) [of env addr a st c st1] co Some by (auto simp: dialPart_def)
    obtain ok st2 where se: "doSend env c ?q st1 = (ok, st2)" by fastforce
    obtain rr st3 where rd: "doRead env c st2 = (rr, st3)" by fastforce
    have a2: "run_acts st2 = run_acts st1 @ [Sent c ?q]" by (rule doSend_acts [OF se])
    show ?thesis
    proof (cases "ok \<and> rr \<noteq> None")
      case False
      then consider (w) "\<not> ok" | (r) "ok" "rr = None" "run_acts st3 = run_acts st2"
        using rd doRead_acts(1) [of env c st2 st3] by (cases rr) auto
      then show ?thesis
      proof cases
        case w
        then show ?thesis using assms co Some se a2 d by (intro fail [of c "[]"]) (auto simp: closeConn_def)
      next
        case r
        then show ?thesis using assms co Some se rd a2 d by (intro fail [of c "[]"]) (auto simp: closeConn_def)
      qed
    next
      case True
      then obtain resp b where rr: "ok" "rr = Some (resp, b)" by fastforce
      have a3: "run_acts st3 = run_acts st2 @ [Received c resp]" using doRead_acts(2) rd rr by blast
      let ?an = "answerChallenge env s addr (ue_random env (run_world st3)) r (hdrValues (p_header resp) ''Proxy-Authenticate'') (at_session a)"
      show ?thesis
      proof (cases "p_status resp \<noteq> 407 \<or> authNone s \<or> ?an = NoScheme")
        case True
        then have "res = Return (resp, c, b) \<and> a' = ?a \<and> st' = st3"
          using assms co Some se rd rr by (cases "p_status resp \<noteq> 407 \<or> authNone s") (simp_all add: Let_def)
        then show ?thesis using a2 a3 d by (intro respond [of c resp b]) simp_all
      next
        case go: False
        show ?thesis
        proof (cases ?an)
          case (AuthFailed e so)
          then have "res = Error e \<and> at_conn a' = None \<and> st' = logAct (ClosedConn c) st3"
            using assms co Some se rd rr go by (auto simp: closeConn_def)
          then show ?thesis using a2 a3 d by (intro fail [of c "[Received c resp]"]) simp_all
        next
          case (NextHeader h x)
          let ?b = "?a\<lparr>at_session := Some x, at_header := h\<rparr>"
          obtain b2 st4 where cc: "(if p_close resp then closeConn ?b st3 else (?b, st3)) = (b2, st4)" by fastforce
          obtain e where e: "run_acts st4 = run_acts st3 @ e" "e = [] \<and> at_conn b2 = Some c \<or> e = [ClosedConn c] \<and> at_conn b2 = None"
            "at_session b2 = Some x" "at_header b2 = h"
            using cc by (auto simp: closeConn_def split: if_splits)
          have "proxyAttempts env s r body addr n b2 st4 = (res, a', st')"
            using assms co Some se rd rr go NextHeader cc by simp
          then show ?thesis using again [OF d(2) e(2) NextHeader e(3,4)] a2 a3 d(1) e(1) by simp
        qed (use go in \<open>auto simp: answer_no_panic [OF assms(2)]\<close>)
      qed
    qed
  qed
qed

lemma dialPart_props [simp]:
  "number isDialled (dialPart addr a c) = 1 - held a" "number isSent (dialPart addr a c) = 0"
  "number isClosed (dialPart addr a c) = 0" "ClosedSession \<notin> set (dialPart addr a c)" "Sent d q \<notin> set (dialPart addr a c)"
  by (simp_all add: dialPart_def)

lemma attempts_inv:
  assumes "proxyAttempts env s r body addr n a st = (res, a', st')"
    and "sessionAllowed (pc_auth (cf_proxy (sv_cfg s))) (at_session a)" "schemeAllowed (pc_auth (cf_proxy (sv_cfg s))) (at_header a)"
  shows "\<exists>new. run_acts st' = run_acts st @ new \<and> number isSent new \<le> n \<and> ClosedSession \<notin> set new \<and>
    number isDialled new + held a = number isClosed new + held a' \<and> attemptOk s r body new \<and>
    (\<forall>resp c b. res = Return (resp, c, b) \<longrightarrow> at_conn a' = Some c \<and> Received c resp \<in> set new) \<and> \<not> is_panic res"
  using assms
proof (induction n arbitrary: a st)
  case 0
  then show ?case using closeConn_acts [of a st] by (fastforce simp: attemptOk_def)
next
  case (Suc n)
  let ?q = "upstreamRequest s r body (at_header a)"
  from Suc.prems(1,2) show ?case
  proof (cases rule: attempt_cases)
    case dial
    then show ?thesis by (auto simp: attemptOk_def)
  next
    case (fail c e)
    then show ?thesis using Suc.prems(3)
      by (intro exI [of _ "dialPart addr a c @ [Sent c ?q] @ e @ [ClosedConn c]"]) (auto simp: attemptOk_def)
  next
    case (respond c resp b)
    then show ?thesis using Suc.prems(3)
      by (intro exI [of _ "dialPart addr a c @ [Sent c ?q, Received c resp]"]) (auto simp: attemptOk_def)
  next
    case (again c resp e h x rnd chs b st4)
    have al: "schemeAllowed (pc_auth (cf_proxy (sv_cfg s))) h \<and> sessionAllowed (pc_auth (cf_proxy (sv_cfg s))) (Some x)"
      by (rule answer_allowed [OF Suc.prems(2) again(3)])
    obtain new where new: "run_acts st' = run_acts st4 @ new" "number isSent new \<le> n"
      "ClosedSession \<notin> set new" "number isDialled new + held b = number isClosed new + held a'" "attemptOk s r body new"
      "\<forall>resp c b. res = Return (resp, c, b) \<longrightarrow> at_conn a' = Some c \<and> Received c resp \<in> set new" "\<not> is_panic res"
      using Suc.IH [OF again(7)] al again(4,5) by auto
    have "attemptOk s r body (dialPart addr a c @ [Sent c ?q, Received c resp] @ e @ new)"
      using again(2) new(5) Suc.prems(3) by (auto simp: attemptOk_def)
    then show ?thesis using again(1,2,6) new
      by (intro exI [of _ "dialPart addr a c @ [Sent c ?q, Received c resp] @ e @ new"]) auto
  qed
qed

lemma roundTrip_acts:
  assumes "roundTripProxy env s r body addr st = (res, st')"
  shows "\<exists>new. run_acts st' = run_acts st @ new \<and> number isSent new \<le> 4 \<and> number isDialled new = number isClosed new \<and>
    number (\<lambda>x. x = ClosedSession) new \<le> 1 \<and> attemptOk s r body new \<and>
    (\<forall>resp c b. res = Return (resp, c, b) \<longrightarrow> Received c resp \<in> set new \<and> ClosedConn c \<in> set new) \<and> \<not> is_panic res"
proof -
  let ?a = "\<lparr>at_conn = None, at_session = None, at_header = []\<rparr>"
  obtain a' st1 where p: "proxyAttempts env s r body addr 4 ?a st = (res, a', st1)" and st': "st' = runDeferred a' st1"
    using assms by (auto simp: roundTripProxy_def split: prod.splits)
  obtain new where new: "run_acts st1 = run_acts st @ new" "number isSent new \<le> 4" "ClosedSession \<notin> set new"
    "number isDialled new + held ?a = number isClosed new + held a'" "attemptOk s r body new"
    "\<forall>resp c b. res = Return (resp, c, b) \<longrightarrow> at_conn a' = Some c \<and> Received c resp \<in> set new" "\<not> is_panic res"
    using attempts_inv [OF p] by (auto simp: sessionAllowed_def schemeAllowed_def)
  let ?se = "if at_session a' \<noteq> None then [ClosedSession] else []"
  let ?cl = "case at_conn a' of None \<Rightarrow> [] | Some c \<Rightarrow> [ClosedConn c]"
  have z: "number (\<lambda>x. x = ClosedSession) new = 0" using new(3) by (auto simp: number_def filter_empty_conv)
  have "run_acts st' = run_acts st @ new @ ?se @ ?cl"
    using new(1) by (simp add: st' runDeferred_def closeConn_def split: option.split)
  moreover have "attemptOk s r body (new @ ?se @ ?cl)"
    using new(5) by (auto simp: attemptOk_def split: option.splits)
  ultimately show ?thesis using new(2,4,6,7) z
    by (intro exI [of _ "new @ ?se @ ?cl"]) (auto split: option.splits)
qed

text \<open>C15: a request through an upstream proxy sends at most four times, closes every connection it dialled and its session at most
  once, and does not panic, on every path.  This includes the connection of the response it returns: the deferred close has run by
  the time the caller reads the body.\<close>

theorem roundtrip_resources:
  assumes "roundTripProxy env s r body addr st = (res, st')"
  shows "\<exists>new. run_acts st' = run_acts st @ new \<and> number isSent new \<le> 4 \<and> number isDialled new = number isClosed new \<and>
    number (\<lambda>x. x = ClosedSession) new \<le> 1 \<and>
    (\<forall>resp c b. res = Return (resp, c, b) \<longrightarrow> Received c resp \<in> set new \<and> ClosedConn c \<in> set new) \<and> (\<forall>p. res \<noteq> Panic p)"
  using roundTrip_acts [OF assms] by (cases res) auto

text \<open>An environment for the witnesses: every dial gives connection 7, every read the next of a list of responses, of
  which three bytes of body are buffered.\<close>

definition scripted :: "(unit, response list) upEnv" where
  "scripted = \<lparr>ue_auth = bareAuthEnv, ue_dial = (\<lambda>addr w. (Some 7, w)), ue_send = (\<lambda>c q w. (True, w)),
     ue_write = (\<lambda>c t w. (True, w)), ue_read = (\<lambda>c w. case w of [] \<Rightarrow> (None, []) | resp # ws \<Rightarrow> (Some (resp, 3), ws)),
     ue_random = (\<lambda>w. []), ue_direct = (\<lambda>q w. (None, w)), ue_hijacker = True, ue_hijack = (\<lambda>w. (True, w))\<rparr>"

definition okResponse :: response where
  "okResponse = \<lparr>p_status = 200, p_header = [], p_close = False, p_body = ''hello world''\<rparr>"

definition authResponse :: "string \<Rightarrow> response" where
  "authResponse ch = \<lparr>p_status = 407, p_header = [(''Proxy-Authenticate'', [ch])], p_close = False, p_body = []\<rparr>"

lemma roundTrip_ok:
  "roundTripProxy scripted plainServer getRequest [] ''p:1'' \<lparr>run_world = okResponse # ws, run_acts = []\<rparr> =
     (Return (okResponse, 7, 3), \<lparr>run_world = ws, run_acts =
       [Dialled ''p:1'' 7, Sent 7 (upstreamRequest plainServer getRequest [] []), Received 7 okResponse, ClosedConn 7]\<rparr>)"
proof -
  have "normalizeProxyAddr ''p:1'' = ''p:1''" by (simp add: normalizeProxyAddr_def)
  then show ?thesis
    by (simp add: roundTripProxy_def numeral_eq_Suc connFor_def doDial_def doSend_def doRead_def scripted_def logAct_def okResponse_def
        runDeferred_def closeConn_def)
qed

theorem roundtrip_resources_witness:
  "\<exists>new. run_acts (snd (roundTripProxy scripted plainServer getRequest [] ''p:1'' \<lparr>run_world = [okResponse], run_acts = []\<rparr>)) = new \<and>
     number isSent new \<le> 4 \<and> ClosedConn 7 \<in> set new"
  using roundtrip_resources [OF roundTrip_ok [of "[]"]] roundTrip_ok [of "[]"] by auto

text \<open>C20: the consequence for the client.  When an upstream proxy answers, the client gets its status and headers but
  of the body only the part that was in the read buffer: reading on fails on the closed connection and the
  error is dropped.\<close>

theorem proxied_body_truncated:
  assumes "roundTripProxy env s r body upstream st = (Return (resp, c, buffered), st')"
  shows "fst (tryProxies env s r body lastErr (upstream # rest) st) = Return (copyResponse resp (take buffered (p_body resp)))"
proof -
  obtain new where "run_acts st' = run_acts st @ new" "ClosedConn c \<in> set new"
    using roundTrip_acts [OF assms] by blast
  then show ?thesis using assms by (simp add: readBody_def)
qed

theorem proxied_body_truncated_witness:
  "\<exists>rep. fst (tryProxies scripted plainServer getRequest [] None [''p:1''] \<lparr>run_world = [okResponse], run_acts = []\<rparr>) = Return rep \<and>
     rp_body rep = ''hel''"
  using proxied_body_truncated [OF roundTrip_ok [of "[]"], of None "[]"] by (simp add: copyResponse_def okResponse_def)

section \<open>A tunnel through a proxy\<close>

definition textOk :: "server \<Rightarrow> request \<Rightarrow> nat \<Rightarrow> act list \<Rightarrow> bool" where
  "textOk s r c new \<longleftrightarrow> list_all upstreamAct new \<and>
     (\<forall>d t. SentText d t \<in> set new \<longrightarrow> d = c \<and> (\<exists>h. t = writeConnectRequest r h (authNone s) \<and> schemeAllowed (pc_auth (cf_proxy (sv_cfg s))) h))"

definition tunnelResult :: "nat \<Rightarrow> nat go_result \<Rightarrow> act list \<Rightarrow> bool" where
  "tunnelResult c res new \<longleftrightarrow>
     (case res of
        Return d \<Rightarrow> d = c \<and> number isClosed new = 0 \<and> (\<exists>as resp. new = as @ [Received c resp] \<and> p_status resp = 200)
      | Error e \<Rightarrow> number isClosed new \<le> 1
      | Panic p \<Rightarrow> False)"

lemma tunnelResult_append: "number isClosed as = 0 \<Longrightarrow> tunnelResult c res bs \<Longrightarrow> tunnelResult c res (as @ bs)"
  by (auto simp: tunnelResult_def split: go_result.splits)

lemma connect_inv:
  assumes "connectAttempts env s r addr c n so h st = (res, so', st')"
    and "sessionAllowed (pc_auth (cf_proxy (sv_cfg s))) so" "schemeAllowed (pc_auth (cf_proxy (sv_cfg s))) h"
  shows "\<exists>new. run_acts st' = run_acts st @ new \<and> number isSent new \<le> n \<and> number isDialled new = 0 \<and>
    textOk s r c new \<and> tunnelResult c res new"
  using assms
proof (induction n arbitrary: so h st)
  case 0
  then show ?case by (auto simp: textOk_def tunnelResult_def)
next
  case (Suc n)
  let ?t = "writeConnectRequest r h (authNone s)"
  obtain ok st1 where w: "doWrite env c ?t st = (ok, st1)" by fastforce
  obtain rr st2 where rd: "doRead env c st1 = (rr, st2)" by fastforce
  have a1: "run_acts st1 = run_acts st @ [SentText c ?t]" by (rule doWrite_acts [OF w])
  have tx: "textOk s r c (SentText c ?t # e)" if "textOk s r c e" for e
    using that Suc.prems(3) by (auto simp: textOk_def)
  consider (w) "\<not> ok" | (r) "ok" "rr = None" "run_acts st2 = run_acts st1" | (a) resp b where "ok" "rr = Some (resp, b)"
    using rd doRead_acts(1) [of env c st1 st2] by (cases rr) auto
  then show ?case
  proof cases
    case w
    then show ?thesis using Suc.prems(1) \<open>doWrite env c ?t st = (ok, st1)\<close> a1 tx [of "[ClosedConn c]"]
      by (intro exI [of _ "[SentText c ?t, ClosedConn c]"]) (auto simp: textOk_def tunnelResult_def)
  next
    case r
    then show ?thesis using Suc.prems(1) w rd a1 tx [of "[ClosedConn c]"]
      by (intro exI [of _ "[SentText c ?t, ClosedConn c]"]) (auto simp: textOk_def tunnelResult_def)
  next
    case a
    have a2: "run_acts st2 = run_acts st @ [SentText c ?t, Received c resp]"
      using doRead_acts(2) [of env c st1 resp b st2] rd a a1 by simp
    let ?an = "answerChallenge env s addr (ue_random env (run_world st2)) r (hdrValues (p_header resp) ''Proxy-Authenticate'') so"
    have leave: ?thesis if "st' = st2" "p_status resp = 200 \<and> res = Return c \<or> (\<exists>e. res = Error e)"
      using that a2 tx [of "[Received c resp]"]
      by (intro exI [of _ "[SentText c ?t, Received c resp]"]) (auto simp: textOk_def tunnelResult_def)
    show ?thesis
    proof (cases "p_status resp = 200 \<or> p_status resp \<noteq> 407 \<or> authNone s")
      case True
      show ?thesis
      proof (cases "p_status resp = 200")
        case True
        then show ?thesis using leave Suc.prems(1) w rd a by simp
      next
        case False
        then have "res = Error ''proxy connect failed''" "st' = logAct (ClosedConn c) st2"
          using True Suc.prems(1) w rd a by auto
        then show ?thesis using a2 tx [of "[Received c resp, ClosedConn c]"]
          by (intro exI [of _ "[SentText c ?t, Received c resp, ClosedConn c]"]) (auto simp: textOk_def tunnelResult_def)
      qed
    next
      case go: False
      show ?thesis
      proof (cases ?an)
        case NoScheme
        then show ?thesis using leave Suc.prems(1) w rd a go by auto
      next
        case (AuthFailed e so2)
        then show ?thesis using leave Suc.prems(1) w rd a go by auto
      next
        case (AuthPanic p so2)
        then show ?thesis using answer_no_panic [OF Suc.prems(2)] by blast
      next
        case (NextHeader h2 x)
        have al: "schemeAllowed (pc_auth (cf_proxy (sv_cfg s))) h2" "sessionAllowed (pc_auth (cf_proxy (sv_cfg s))) (Some x)"
          using answer_allowed [OF Suc.prems(2) NextHeader] by auto
        have "connectAttempts env s r addr c n (Some x) h2 st2 = (res, so', st')"
          using Suc.prems(1) w rd a go NextHeader by simp
        from Suc.IH [OF this al(2,1)] obtain new where new: "run_acts st' = run_acts st2 @ new" "number isSent new \<le> n"
          "number isDialled new = 0" "textOk s r c new" "tunnelResult c res new" by blast
        have "textOk s r c (SentText c ?t # Received c resp # new)" using tx [of "Received c resp # new"] new(4) by (auto simp: textOk_def)
        then show ?thesis using new a2 tunnelResult_append [of "[SentText c ?t, Received c resp]" c res new]
          by (intro exI [of _ "[SentText c ?t, Received c resp] @ new"]) simp
      qed
    qed
  qed
qed

lemma connectVia_acts:
  assumes "connectViaProxy env s r addr st = (res, st')"
  shows "\<exists>c new. run_acts st' = run_acts st @ new \<and> number isSent new \<le> 4 \<and> number isDialled new \<le> 1 \<and> textOk s r c new \<and>
    (\<forall>d. res = Return d \<longrightarrow> d = c \<and> Dialled (normalizeProxyAddr addr) c \<in> set new \<and> number isClosed new = 0 \<and>
       (\<exists>resp. Received c resp \<in> set new \<and> p_status resp = 200)) \<and> \<not> is_panic res"
proof -
  obtain co st1 where d: "doDial env (normalizeProxyAddr addr) st = (co, st1)" by fastforce
  show ?thesis
  proof (cases co)
    case None
    then show ?thesis using assms d doDial_acts(1) [of env "normalizeProxyAddr addr" st st1]
      by (intro exI [of _ 0] exI [of _ "[]"]) (auto simp: connectViaProxy_def textOk_def)
  next
    case (Some c)
    obtain so st2 where ca: "connectAttempts env s r addr c 4 None [] st1 = (res, so, st2)"
      and st': "st' = (if so \<noteq> None then logAct ClosedSession st2 else st2)"
      using assms d Some by (auto simp: connectViaProxy_def split: prod.splits)
    obtain new where new: "run_acts st2 = run_acts st1 @ new" "number isSent new \<le> 4" "number isDialled new = 0"
      "textOk s r c new" "tunnelResult c res new"
      using connect_inv [OF ca] by (auto simp: sessionAllowed_def schemeAllowed_def)
    let ?new = "Dialled (normalizeProxyAddr addr) c # new @ (if so \<noteq> None then [ClosedSession] else [])"
    have "run_acts st' = run_acts st @ ?new"
      using st' new(1) doDial_acts(2) [of env "normalizeProxyAddr addr" st c st1] d Some by auto
    moreover have "textOk s r c ?new" using new(4) by (auto simp: textOk_def split: if_splits)
    ultimately show ?thesis using new
      by (intro exI [of _ c] exI [of _ ?new]) (auto simp: tunnelResult_def split: go_result.splits)
  qed
qed

text \<open>C19: \<^verbatim>\<open>connectViaProxy\<close> asks at most four times on one connection, and hands a connection over only when it was dialled to the
  proxy, is still open, and the proxy answered 200 on it.\<close>

theorem connect_tunnel:
  assumes "connectViaProxy env s r addr st = (Return c, st')"
  shows "\<exists>new. run_acts st' = run_acts st @ new \<and> number isSent new \<le> 4 \<and> number isDialled new \<le> 1 \<and>
    Dialled (normalizeProxyAddr addr) c \<in> set new \<and> number isClosed new = 0 \<and> (\<exists>resp. Received c resp \<in> set new \<and> p_status resp = 200)"
  using connectVia_acts [OF assms] by auto

lemma connect_ok:
  "connectViaProxy scripted plainServer getRequest ''p:1'' \<lparr>run_world = [okResponse], run_acts = []\<rparr> =
     (Return 7, \<lparr>run_world = [], run_acts = [Dialled ''p:1'' 7,
        SentText 7 (writeConnectRequest getRequest [] (authNone plainServer)), Received 7 okResponse]\<rparr>)"
proof -
  have "normalizeProxyAddr ''p:1'' = ''p:1''" by (simp add: normalizeProxyAddr_def)
  then show ?thesis
    by (simp add: connectViaProxy_def numeral_eq_Suc doDial_def doWrite_def doRead_def scripted_def logAct_def okResponse_def)
qed

theorem connect_tunnel_witness:
  "\<exists>new. run_acts (snd (connectViaProxy scripted plainServer getRequest ''p:1'' \<lparr>run_world = [okResponse], run_acts = []\<rparr>)) = new \<and>
     number isSent new \<le> 4 \<and> number isClosed new = 0"
  using connect_tunnel [OF connect_ok] connect_ok by auto

text \<open>A leak.  When a proxy answers a \<^verbatim>\<open>CONNECT\<close> with a challenge that px has no scheme for, the function returns an
  error without closing the connection it dialled.\<close>

lemma connect_leaks_connection:
  assumes "ue_dial env (normalizeProxyAddr addr) w = (Some c, w1)"
    and "ue_write env c (writeConnectRequest r [] (authNone s)) w1 = (True, w2)"
    and "ue_read env c w2 = (Some (resp, b), w3)" "p_status resp = 407" "\<not> authNone s"
    and "ChooseScheme (pc_auth (cf_proxy (sv_cfg s))) (hdrValues (p_header resp) ''Proxy-Authenticate'') = None"
  shows "\<exists>e new. connectViaProxy env s r addr \<lparr>run_world = w, run_acts = []\<rparr> = (Error e, \<lparr>run_world = w3, run_acts = new\<rparr>) \<and>
    Dialled (normalizeProxyAddr addr) c \<in> set new \<and> number isClosed new = 0"
  using assms
  by (simp add: connectViaProxy_def numeral_eq_Suc doDial_def doWrite_def doRead_def logAct_def answerChallenge_def)

lemma connect_leaks_connection_witness:
  "\<exists>e new. connectViaProxy scripted plainServer getRequest ''p:1'' \<lparr>run_world = [authResponse ''Bearer''], run_acts = []\<rparr> =
       (Error e, \<lparr>run_world = [], run_acts = new\<rparr>) \<and> Dialled ''p:1'' 7 \<in> set new \<and> number isClosed new = 0"
proof -
  have n: "normalizeProxyAddr ''p:1'' = ''p:1''" by (simp add: normalizeProxyAddr_def)
  have k: "canonicalKey ''Proxy-Authenticate'' = ''Proxy-Authenticate''"
    by (rule hop_canonical) (simp add: hopRequestHeaders_def)
  have c: "ChooseScheme (pc_auth (cf_proxy (sv_cfg plainServer))) (hdrValues (p_header (authResponse ''Bearer'')) ''Proxy-Authenticate'') = None"
    by (simp add: hdrValues_def authResponse_def k plainServer_def Default_def ChooseScheme_def parseChallenges_def parseChallenge_def
        preferenceOrder_def allSchemes_def Let_def go_simps)
  have a: "\<not> authNone plainServer" by (simp add: authNone_def plainServer_def Default_def go_simps)
  show ?thesis
    using connect_leaks_connection [of scripted "''p:1''" "[authResponse ''Bearer'']" 7 "[authResponse ''Bearer'']" getRequest plainServer
        "[authResponse ''Bearer'']" "authResponse ''Bearer''" 3 "[]", OF _ _ _ _ a c]
    by (simp add: scripted_def n authResponse_def)
qed

section \<open>Credentials that leave the machine\<close>

lemma anysafe_not_basic:
  assumes "toUpper (trimSpace pref) = ''ANYSAFE''" "schemeAllowed pref h"
  shows "\<not> hasPrefix (toUpper h) ''BASIC''"
proof -
  have p: "preferenceOrder pref = safeSchemes" using assms(1) by (simp add: preferenceOrder_def Let_def)
  have "toUpper (trimSpace x) = x" if "x \<in> set safeSchemes" for x
    using that by (auto simp: safeSchemes_def go_simps)
  then have "h = [] \<or> (\<exists>x\<in>set safeSchemes. hasPrefix (toUpper h) (x @ '' ''))"
    using assms(2) p by (auto simp: schemeAllowed_def)
  then show ?thesis by (auto simp: safeSchemes_def hasPrefix_iff toUpper_def)
qed

lemma hdrValues_upstream:
  "hdrValues (r_header (upstreamRequest s r body h)) ''Proxy-Authorization'' = proxyCredentials r h (authNone s)"
proof -
  have c: "canonicalKey ''Proxy-Authorization'' = ''Proxy-Authorization''"
    by (rule hop_canonical) (simp add: hopRequestHeaders_def)
  have u: "canonicalKey ''User-Agent'' = ''User-Agent''"
    by (simp add: canonicalKey_def isToken_def isAlnum_def upperChar_def lowerChar_def char_of_def Let_def)
  show ?thesis
    using hop_auth
    by (simp add: upstreamRequest_def Let_def hdrValues_set c u cloneForWrite_header proxyCredentials_def hdrValues_removeHop)
qed

text \<open>C9: with \<^verbatim>\<open>auth = ANYSAFE\<close> no password leaves the machine in clear: whatever the challenges of the proxy, neither a
  forwarded request nor a \<^verbatim>\<open>CONNECT\<close> carries a \<^verbatim>\<open>Basic\<close> header of px's own, and the client's own credentials are
  not passed on either.\<close>

theorem anysafe_never_basic:
  assumes "toUpper (trimSpace (pc_auth (cf_proxy (sv_cfg s)))) = ''ANYSAFE''" "run_acts st = []"
  shows "(\<forall>c q. Sent c q \<in> set (run_acts (snd (roundTripProxy env s r body addr st))) \<longrightarrow>
      (\<forall>v\<in>set (hdrValues (r_header q) ''Proxy-Authorization''). \<not> hasPrefix (toUpper v) ''BASIC'')) \<and>
    (\<forall>c t. SentText c t \<in> set (run_acts (snd (connectViaProxy env s r addr st))) \<longrightarrow>
      (\<exists>h. t = writeConnectRequest r h False \<and> \<not> hasPrefix (toUpper h) ''BASIC''))"
proof -
  let ?pref = "pc_auth (cf_proxy (sv_cfg s))"
  have na: "\<not> authNone s"
  proof
    assume "authNone s"
    then have "toUpper ?pref = toUpper ''NONE''" by (simp add: authNone_def equalFold_upper_iff)
    then have "trimSpace (toUpper ?pref) = ''NONE''" by (simp add: go_simps)
    then show False using assms(1) by (simp add: trimSpace_toUpper)
  qed
  obtain new where new: "run_acts (snd (roundTripProxy env s r body addr st)) = new" "attemptOk s r body new"
    using roundTrip_acts [of env s r body addr st "fst (roundTripProxy env s r body addr st)" "snd (roundTripProxy env s r body addr st)"] assms(2)
    by auto
  obtain c0 new2 where new2: "run_acts (snd (connectViaProxy env s r addr st)) = new2" "textOk s r c0 new2"
    using connectVia_acts [of env s r addr st "fst (connectViaProxy env s r addr st)" "snd (connectViaProxy env s r addr st)"] assms(2)
    by auto
  have "\<not> hasPrefix (toUpper v) ''BASIC''" if "Sent c q \<in> set new" "v \<in> set (hdrValues (r_header q) ''Proxy-Authorization'')" for c q v
  proof -
    obtain h where h: "q = upstreamRequest s r body h" "schemeAllowed ?pref h" using new(2) \<open>Sent c q \<in> set new\<close> by (auto simp: attemptOk_def)
    have "v \<in> set (proxyCredentials r h False)"
      using \<open>v \<in> set (hdrValues (r_header q) ''Proxy-Authorization'')\<close> h(1) na by (simp add: hdrValues_upstream)
    then have "v = h" by (simp add: proxyCredentials_def split: if_splits)
    then show ?thesis using anysafe_not_basic [OF assms(1) h(2)] by simp
  qed
  moreover have "\<exists>h. t = writeConnectRequest r h False \<and> \<not> hasPrefix (toUpper h) ''BASIC''" if "SentText c t \<in> set new2" for c t
  proof -
    obtain h where "t = writeConnectRequest r h False" "schemeAllowed ?pref h"
      using new2(2) \<open>SentText c t \<in> set new2\<close> na unfolding textOk_def by (metis (full_types))
    then show ?thesis using anysafe_not_basic [OF assms(1)] by blast
  qed
  ultimately show ?thesis using new(1) new2(1) by blast
qed

definition safeServer :: server where
  "safeServer = plainServer\<lparr>sv_cfg := setProxy (\<lambda>p. p\<lparr>pc_auth := ''anysafe''\<rparr>) Default, sv_creds := \<lparr>cr_username = ''joe'', cr_password = ''pw''\<rparr>\<rparr>"

theorem anysafe_never_basic_witness:
  "\<not> (\<exists>c q v. Sent c q \<in> set (run_acts (snd (roundTripProxy scripted safeServer getRequest [] ''p:1''
       \<lparr>run_world = [authResponse ''Basic realm=x'', okResponse], run_acts = []\<rparr>))) \<and>
     v \<in> set (hdrValues (r_header q) ''Proxy-Authorization'') \<and> hasPrefix (toUpper v) ''BASIC'')"
proof -
  have "toUpper (trimSpace (pc_auth (cf_proxy (sv_cfg safeServer)))) = ''ANYSAFE''"
    by (simp add: safeServer_def setProxy_def Default_def go_simps)
  from anysafe_never_basic [OF this, of "\<lparr>run_world = [authResponse ''Basic realm=x'', okResponse], run_acts = []\<rparr>" scripted getRequest "[]" "''p:1''"]
  show ?thesis by fastforce
qed

section \<open>The handlers\<close>

lemma connectVia_upstream: "connectViaProxy env s r addr st = (res, st') \<Longrightarrow> \<exists>new. run_acts st' = run_acts st @ new \<and> list_all upstreamAct new"
  using connectVia_acts [of env s r addr st res st'] by (auto simp: textOk_def)

lemma tryConnect_acts:
  "tryConnect env s r res0 addrs st = (res, st') \<Longrightarrow>
     \<exists>new. run_acts st' = run_acts st @ new \<and> list_all upstreamAct new \<and> (addrs \<noteq> [] \<longrightarrow> res \<noteq> None) \<and>
       (\<forall>p. res = Some (Panic p) \<longrightarrow> res0 = res) \<and>
       (\<forall>c. res = Some (Return c) \<and> res0 \<noteq> res \<longrightarrow> (\<exists>resp. Received c resp \<in> set new \<and> p_status resp = 200))"
proof (induction addrs arbitrary: res0 st)
  case (Cons addr addrs)
  obtain v st1 where v: "connectViaProxy env s r addr st = (v, st1)" by fastforce
  obtain d new where new: "run_acts st1 = run_acts st @ new" "list_all upstreamAct new"
    "\<forall>c. v = Return c \<longrightarrow> (\<exists>resp. Received c resp \<in> set new \<and> p_status resp = 200)" "\<not> is_panic v"
    using connectVia_acts [OF v] by (auto simp: textOk_def)
  show ?case
  proof (cases "is_return v")
    case True
    then obtain c where "v = Return c" by (cases v) simp_all
    then show ?thesis using Cons.prems v new by auto
  next
    case False
    then have "tryConnect env s r (Some v) addrs st1 = (res, st')" using Cons.prems v new(4) by (cases v) simp_all
    from Cons.IH [OF this] obtain new2 where n2: "run_acts st' = run_acts st1 @ new2" "list_all upstreamAct new2"
      "addrs \<noteq> [] \<longrightarrow> res \<noteq> None" "\<forall>c. res = Some (Return c) \<and> Some v \<noteq> res \<longrightarrow> (\<exists>resp. Received c resp \<in> set new2 \<and> p_status resp = 200)"
      "\<forall>p. res = Some (Panic p) \<longrightarrow> Some v = res" by auto
    have "addrs = [] \<Longrightarrow> res = Some v" using \<open>tryConnect env s r (Some v) addrs st1 = (res, st')\<close> by simp
    then have "res \<noteq> None" using n2(3) by auto
    then show ?thesis using new(1,2,4) n2 False by (intro exI [of _ "new @ new2"]) auto
  qed
qed simp

lemma openUpstream_acts:
  assumes "openUpstream env s rt r st = (res, st')"
  shows "\<exists>new. run_acts st' = run_acts st @ new \<and> list_all upstreamAct new \<and> (rt_direct rt \<or> rt_proxies rt \<noteq> [] \<longrightarrow> res \<noteq> None) \<and>
    (\<forall>p. res \<noteq> Some (Panic p))"
proof (cases "rt_direct rt")
  case True
  then show ?thesis using assms by (auto simp: openUpstream_def doDial_acts split: prod.splits option.splits)
next
  case False
  then have "tryConnect env s r None (rt_proxies rt) st = (res, st')" using assms by (simp add: openUpstream_def)
  from tryConnect_acts [OF this] False show ?thesis by auto
qed

lemma sem_upstream: "list_all upstreamAct new \<Longrightarrow> number (\<lambda>x. x = SemReleased) new = 0"
  by (auto simp: number_def filter_empty_conv list_all_iff)

lemma relay_upstream: "list_all upstreamAct new \<Longrightarrow> Relayed c \<notin> set new"
  by (auto simp: list_all_iff)

context routing_contract
begin

lemma connect_release:
  assumes "handleConnect env (routing r) r s st = (rep, s', st')"
  shows "\<exists>new. run_acts st' = run_acts st @ new \<and> number (\<lambda>x. x = SemReleased) new = 1 \<and>
    (\<forall>c. Relayed c \<in> set new \<longrightarrow> (\<exists>pre. new = pre @ [Relayed c] \<and> SemReleased \<in> set pre)) \<and> (\<forall>p. rep \<noteq> Panic p) \<or>
    (\<exists>p. routing r s = Panic p \<and> rep = Panic p \<and> run_acts st' = run_acts st @ [SemReleased])"
proof (cases "routing r s")
  case (Return rs)
  obtain rt s1 where rs: "rs = (rt, s1)" by fastforce
  have shape: "rt_direct rt \<longleftrightarrow> rt_proxies rt = []" using route_kind Return rs by blast
  obtain up st1 where o: "openUpstream env s1 rt r st = (up, st1)" by fastforce
  obtain new where new: "run_acts st1 = run_acts st @ new" "list_all upstreamAct new" "up \<noteq> None" "\<forall>p. up \<noteq> Some (Panic p)"
    using openUpstream_acts [OF o] shape by auto
  note z = sem_upstream [OF new(2)] relay_upstream [OF new(2)]
  from new(3,4) consider (e) e where "up = Some (Error e)" | (c) c where "up = Some (Return c)"
    by (metis go_result.exhaust not_None_eq)
  then show ?thesis
  proof cases
    case e
    then show ?thesis using assms Return rs o new(1) z
      by (intro disjI1 exI [of _ "new @ [SemReleased]"]) (auto simp: handleConnect_def connectBody_def releaseSem_def)
  next
    case c
    show ?thesis
    proof (cases "ue_hijacker env \<and> fst (ue_hijack env (run_world st1))")
      case True
      then show ?thesis using assms Return rs o c new(1) z
        by (intro disjI1 exI [of _ "new @ [Hijacked, Established, SemReleased, Relayed c]"])
          (auto simp: handleConnect_def connectBody_def releaseSem_def Let_def split: prod.splits)
    next
      case False
      then show ?thesis using assms Return rs o c new(1) z
        by (intro disjI1 exI [of _ "new @ [ClosedConn c, SemReleased]"])
          (auto simp: handleConnect_def connectBody_def releaseSem_def Let_def split: prod.splits if_splits)
    qed
  qed
qed (use assms in \<open>auto simp: handleConnect_def connectBody_def releaseSem_def\<close>)

lemma connect_server:
  assumes "handleConnect env (routing r) r s st = (rep, s', st')"
  shows "s'\<lparr>sv_pac := sv_pac s\<rparr> = s"
  using assms keeps_server [of r s]
  by (auto simp: handleConnect_def connectBody_def releaseSem_def Let_def
      split: go_result.splits prod.splits option.splits if_splits bool.splits)

lemma http_server:
  assumes "handleHTTP env readErr (routing r) r s st = Return (rep, s', st')"
  shows "s'\<lparr>sv_pac := sv_pac s\<rparr> = s"
  using assms keeps_server [of r s]
  by (auto simp: handleHTTP_def Let_def split: go_result.splits prod.splits option.splits if_splits)

end

text \<open>C18: the semaphore and a tunnel.  Whatever the outcome, a panic included, \<^verbatim>\<open>handleConnect\<close> gives back its slot exactly
  once, and before the long-lived relay starts.  The only panic is one of the route resolution, as the rule matcher can
  raise; authentication and dialling add none.\<close>

theorem connect_releases_once:
  assumes "handleConnect env (resolveRoute dns plat findProxy r) r s st = (rep, s', st')"
  shows "\<exists>new. run_acts st' = run_acts st @ new \<and> number (\<lambda>x. x = SemReleased) new = 1 \<and>
    (\<forall>c. Relayed c \<in> set new \<longrightarrow> (\<exists>pre. new = pre @ [Relayed c] \<and> SemReleased \<in> set pre)) \<and> (\<forall>p. rep \<noteq> Panic p) \<or>
    (\<exists>p. resolveRoute dns plat findProxy r s = Panic p \<and> rep = Panic p \<and> run_acts st' = run_acts st @ [SemReleased])"
  using rr.connect_release [OF assms] .

theorem connect_releases_once_witness:
  "\<exists>new. run_acts (snd (snd (handleConnect scripted (resolveRoute (\<lambda>_. None) unixLoadProxyInfo (\<lambda>_ _ _. []) getRequest) getRequest plainServer
       \<lparr>run_world = [], run_acts = []\<rparr>))) = new \<and> number (\<lambda>x. x = SemReleased) new = 1"
proof -
  let ?rt = "resolveRoute (\<lambda>_. None) unixLoadProxyInfo (\<lambda>_ _ _. []) getRequest"
  let ?x = "handleConnect scripted ?rt getRequest plainServer \<lparr>run_world = [], run_acts = []\<rparr>"
  have "?rt plainServer = Return (directRoute, plainServer)"
    by (simp add: resolveRoute_def Let_def plainServer_def matchHost_def unixLoadProxyInfo_def emptyInfo_def Default_def)
  then show ?thesis
    using connect_releases_once [of scripted "\<lambda>_. None" unixLoadProxyInfo "\<lambda>_ _ _. []" getRequest plainServer
        "\<lparr>run_world = [], run_acts = []\<rparr>" "fst ?x" "fst (snd ?x)" "snd (snd ?x)"] by auto
qed

section \<open>The connections of a request\<close>

text \<open>The connection to one proxy along a list of actions: dialled to that proxy and only while none is open, used only
  while it is open, and closed.  The result is the connection left open, if the list keeps to this.\<close>

fun connAfter :: "string \<Rightarrow> nat option \<Rightarrow> act list \<Rightarrow> nat option option" where
  "connAfter addr cur [] = Some cur"
| "connAfter addr cur (Dialled a c # acts) = (if cur = None \<and> a = addr then connAfter addr (Some c) acts else None)"
| "connAfter addr cur (Sent c q # acts) = (if cur = Some c then connAfter addr cur acts else None)"
| "connAfter addr cur (Received c p # acts) = (if cur = Some c then connAfter addr cur acts else None)"
| "connAfter addr cur (ClosedConn c # acts) = (if cur = Some c then connAfter addr None acts else None)"
| "connAfter addr cur (ClosedSession # acts) = connAfter addr cur acts"
| "connAfter addr cur (_ # acts) = None"

lemma connAfter_append: "connAfter addr cur (as @ bs) = (case connAfter addr cur as of None \<Rightarrow> None | Some cur' \<Rightarrow> connAfter addr cur' bs)"
  by (induction addr cur as rule: connAfter.induct) simp_all

lemma connAfter_dialPart:
  "at_conn a = None \<or> at_conn a = Some c \<Longrightarrow> connAfter (normalizeProxyAddr addr) (at_conn a) (dialPart addr a c) = Some (Some c)"
  by (auto simp: dialPart_def)

lemma attempts_conn:
  assumes "proxyAttempts env s r body addr n a st = (res, a', st')"
    and "sessionAllowed (pc_auth (cf_proxy (sv_cfg s))) (at_session a)"
  shows "\<exists>new. run_acts st' = run_acts st @ new \<and> number isSent new \<le> n \<and>
    connAfter (normalizeProxyAddr addr) (at_conn a) new = Some (at_conn a')"
  using assms
proof (induction n arbitrary: a st)
  case 0
  then show ?case using closeConn_acts [of a st a' st'] by fastforce
next
  case (Suc n)
  from Suc.prems show ?case
  proof (cases rule: attempt_cases)
    case dial
    then show ?thesis by simp
  next
    case (fail c e)
    then show ?thesis using connAfter_dialPart [OF fail(1), of addr] by (auto simp: connAfter_append)
  next
    case (respond c resp b)
    then show ?thesis using connAfter_dialPart [OF respond(1), of addr] by (auto simp: connAfter_append)
  next
    case (again c resp e h x rnd chs b st4)
    have "sessionAllowed (pc_auth (cf_proxy (sv_cfg s))) (at_session b)"
      using answer_allowed [OF Suc.prems(2) again(3)] again(4) by simp
    from Suc.IH [OF again(7) this] obtain new where "run_acts st' = run_acts st4 @ new" "number isSent new \<le> n"
      "connAfter (normalizeProxyAddr addr) (at_conn b) new = Some (at_conn a')" by blast
    then show ?thesis using again(2,6) connAfter_dialPart [OF again(1), of addr]
      by (auto simp: connAfter_append)
  qed
qed

text \<open>An attempt on an open connection sends the request with the current header.\<close>

lemma attempt_sends:
  assumes "proxyAttempts env s r body addr (Suc n) a st = (res, a', st')" "at_conn a = Some c"
    and "sessionAllowed (pc_auth (cf_proxy (sv_cfg s))) (at_session a)"
  shows "Sent c (upstreamRequest s r body (at_header a)) \<in> set (run_acts st')"
  using assms(1,3)
proof (cases rule: attempt_cases)
  case (again c' resp e h x rnd chs b st4)
  have "sessionAllowed (pc_auth (cf_proxy (sv_cfg s))) (at_session b)"
    using answer_allowed [OF assms(3) again(3)] again(4) by simp
  then show ?thesis using attempts_conn [OF again(7)] again(1,6) assms(2) by auto
qed (use assms(2) in auto)

text \<open>A proxy that accepts a first connection and request and asks for Basic authentication, keeping the connection.\<close>

definition asksBasic :: "('c, 'w) upEnv \<Rightarrow> server \<Rightarrow> request \<Rightarrow> string \<Rightarrow> string \<Rightarrow> 'w \<Rightarrow> nat \<Rightarrow> bool" where
  "asksBasic env s r body addr w c \<longleftrightarrow> \<not> authNone s \<and>
     (\<exists>w1 w2 w3 resp b ch. ue_dial env (normalizeProxyAddr addr) w = (Some c, w1) \<and>
        ue_send env c (upstreamRequest s r body []) w1 = (True, w2) \<and> ue_read env c w2 = (Some (resp, b), w3) \<and>
        p_status resp = 407 \<and> \<not> p_close resp \<and>
        ChooseScheme (pc_auth (cf_proxy (sv_cfg s))) (hdrValues (p_header resp) ''Proxy-Authenticate'') = Some (''BASIC'', ch))"

lemma basic_sent:
  assumes "asksBasic env s r body addr (run_world st) c" "cr_username (sv_creds s) \<noteq> []"
  shows "\<exists>q. Sent c q \<in> set (run_acts (snd (roundTripProxy env s r body addr st))) \<and>
    hdrValues (r_header q) ''Proxy-Authorization'' = [''Basic '' @ b64encode (cr_username (sv_creds s) @ '':'' @ cr_password (sv_creds s))]"
proof -
  let ?h = "''Basic '' @ b64encode (cr_username (sv_creds s) @ '':'' @ cr_password (sv_creds s))"
  let ?q = "upstreamRequest s r body ?h"
  let ?none = "\<lparr>at_conn = None, at_session = None, at_header = []\<rparr>"
  let ?a = "\<lparr>at_conn = Some c, at_session = Some (BasicSession (sv_creds s)), at_header = ?h\<rparr>"
  obtain w1 w2 w3 resp b ch where w: "\<not> authNone s" "ue_dial env (normalizeProxyAddr addr) (run_world st) = (Some c, w1)"
    "ue_send env c (upstreamRequest s r body []) w1 = (True, w2)" "ue_read env c w2 = (Some (resp, b), w3)"
    "p_status resp = 407" "\<not> p_close resp"
    "ChooseScheme (pc_auth (cf_proxy (sv_cfg s))) (hdrValues (p_header resp) ''Proxy-Authenticate'') = Some (''BASIC'', ch)"
    using assms(1) by (auto simp: asksBasic_def)
  have up: "toUpper (trimSpace ''BASIC'') = ''BASIC''" by (simp add: go_simps)
  have an: "answerChallenge env s addr rnd r (hdrValues (p_header resp) ''Proxy-Authenticate'') None =
      NextHeader ?h (BasicSession (sv_creds s))" for rnd
    using w(7) assms(2) by (simp add: answerChallenge_def NewSession_def up tokenResult_def basicToken_def)
  define st1 where "st1 = logAct (Received c resp) ((logAct (Sent c (upstreamRequest s r body []))
      ((logAct (Dialled (normalizeProxyAddr addr) c) (st\<lparr>run_world := w1\<rparr>))\<lparr>run_world := w2\<rparr>))\<lparr>run_world := w3\<rparr>)"
  have first: "proxyAttempts env s r body addr (Suc n) ?none st = proxyAttempts env s r body addr n ?a st1" for n
    by (subst proxyAttempts.simps(2)) (use w an in \<open>simp add: connFor_def doDial_def doSend_def doRead_def Let_def st1_def del: proxyAttempts.simps\<close>)
  obtain res a' st' where p: "proxyAttempts env s r body addr (Suc 2) ?a st1 = (res, a', st')" by (metis prod_cases3)
  have "sessionAllowed (pc_auth (cf_proxy (sv_cfg s))) (Some (BasicSession (sv_creds s)))"
    using answer_allowed [OF _ an] by (simp add: sessionAllowed_def)
  then have sent: "Sent c ?q \<in> set (run_acts st')" using attempt_sends [OF p, of c] by simp
  have "roundTripProxy env s r body addr st = (res, runDeferred a' st')"
    using first [of 3] p by (simp add: roundTripProxy_def eval_nat_numeral del: proxyAttempts.simps)
  then have "Sent c ?q \<in> set (run_acts (snd (roundTripProxy env s r body addr st)))"
    using sent by (simp add: runDeferred_def closeConn_def split: option.split)
  moreover have "hdrValues (r_header ?q) ''Proxy-Authorization'' = [?h]"
    unfolding hdrValues_upstream proxyCredentials_def by simp
  ultimately show ?thesis by blast
qed

lemma roundTrip_conn:
  assumes "roundTripProxy env s r body addr st = (res, st')"
  shows "\<exists>new. run_acts st' = run_acts st @ new \<and> number isSent new \<le> 4 \<and> connAfter (normalizeProxyAddr addr) None new = Some None"
proof -
  let ?a = "\<lparr>at_conn = None, at_session = None, at_header = []\<rparr>"
  obtain a' st1 where p: "proxyAttempts env s r body addr 4 ?a st = (res, a', st1)" and st': "st' = runDeferred a' st1"
    using assms by (auto simp: roundTripProxy_def split: prod.splits)
  from attempts_conn [OF p] obtain new where "run_acts st1 = run_acts st @ new" "number isSent new \<le> 4"
    "connAfter (normalizeProxyAddr addr) None new = Some (at_conn a')" by (auto simp: sessionAllowed_def)
  then show ?thesis
    by (cases "at_conn a'"; cases "at_session a'")
      (auto simp: st' runDeferred_def closeConn_def connAfter_append)
qed

lemma tryProxies_acts:
  "\<exists>segs tail. run_acts (snd (tryProxies env s r body e addrs st)) = run_acts st @ concat segs @ tail \<and> length segs \<le> length addrs \<and>
     (\<forall>i<length segs. number isSent (segs ! i) \<le> 4 \<and> connAfter (normalizeProxyAddr (addrs ! i)) None (segs ! i) = Some None) \<and>
     (tail = [] \<or> (\<exists>c. tail = [ClosedConn c] \<and> ClosedConn c \<in> set (concat segs)))"
proof (induction addrs arbitrary: e st)
  case (Cons addr addrs)
  obtain res st1 where rt: "roundTripProxy env s r body addr st = (res, st1)" by fastforce
  obtain new where new: "run_acts st1 = run_acts st @ new" "number isSent new \<le> 4" "connAfter (normalizeProxyAddr addr) None new = Some None"
    using roundTrip_conn [OF rt] by blast
  show ?case
  proof (cases res)
    case (Return x)
    obtain resp c b where x: "x = (resp, c, b)" by (metis prod_cases3)
    then have "ClosedConn c \<in> set new" using roundTrip_acts [OF rt] Return new(1) by auto
    then show ?thesis using Return rt new x by (intro exI [of _ "[new]"] exI [of _ "[ClosedConn c]"]) simp
  next
    case (Error e2)
    obtain segs tail where "run_acts (snd (tryProxies env s r body (Some e2) addrs st1)) = run_acts st1 @ concat segs @ tail"
      "length segs \<le> length addrs"
      "\<forall>i<length segs. number isSent (segs ! i) \<le> 4 \<and> connAfter (normalizeProxyAddr (addrs ! i)) None (segs ! i) = Some None"
      "tail = [] \<or> (\<exists>c. tail = [ClosedConn c] \<and> ClosedConn c \<in> set (concat segs))" using Cons.IH by blast
    then show ?thesis using Error rt new
      by (intro exI [of _ "new # segs"] exI [of _ tail]) (auto simp: nth_Cons split: nat.split)
  next
    case (Panic p)
    then show ?thesis using rt new by (intro exI [of _ "[new]"] exI [of _ "[]"]) simp
  qed
qed simp

text \<open>C33: the bounds of \<^verbatim>\<open>handleHTTP\<close>.  A request whose body cannot be read is answered with 400 and one with a body above
  64 MiB with 413, before anything is routed or dialled.  Otherwise the proxies of the route are tried in their order, each in a
  stretch of its own: at most four requests are sent to it, on connections dialled to it one after the other, each used only
  while it is open and closed before the next is dialled and before the handler goes on.  The only other action is that the
  connection of the response, closed already, is closed once more.\<close>

theorem http_handler_bounds:
  assumes "handleHTTP env readErr routing r s st = Return (rep, s', st')"
  shows "(readErr \<noteq> None \<longrightarrow> rp_status rep = 400 \<and> s' = s \<and> st' = st) \<and>
    (readErr = None \<and> maxRequestBody < length (r_body r) \<longrightarrow> rp_status rep = 413 \<and> s' = s \<and> st' = st) \<and>
    (\<exists>segs tail. run_acts st' = run_acts st @ concat segs @ tail \<and>
       (\<forall>rt s1. routing s = Return (rt, s1) \<longrightarrow> length segs \<le> length (rt_proxies rt) \<and>
          (\<forall>i<length segs. number isSent (segs ! i) \<le> 4 \<and>
             connAfter (normalizeProxyAddr (rt_proxies rt ! i)) None (segs ! i) = Some None)) \<and>
       (routing s \<notin> range Return \<longrightarrow> segs = []) \<and>
       (tail = [] \<or> (\<exists>c. tail = [ClosedConn c] \<and> ClosedConn c \<in> set (concat segs))))"
proof -
  let ?big = "maxRequestBody < length (r_body r)"
  have idle: ?thesis if "st' = st" "readErr \<noteq> None \<longrightarrow> rp_status rep = 400 \<and> s' = s" "readErr = None \<and> ?big \<longrightarrow> rp_status rep = 413 \<and> s' = s"
    using that by (intro conjI exI [of _ "[]"]) auto
  show ?thesis
  proof (cases "readErr \<noteq> None \<or> ?big")
    case True
    then show ?thesis using assms by (intro idle) (auto simp: handleHTTP_def httpError_def split: option.splits)
  next
    case False
    then have len: "readErr = None" "\<not> length (take (maxRequestBody + 1) (r_body r)) > maxRequestBody" "take (maxRequestBody + 1) (r_body r) = r_body r"
      by auto
    show ?thesis
    proof (cases "\<exists>rt s1. routing s = Return (rt, s1) \<and> \<not> rt_direct rt")
      case True
      then obtain rt s1 where rt: "routing s = Return (rt, s1)" "\<not> rt_direct rt" by blast
      have "st' = snd (tryProxies env s1 r (r_body r) None (rt_proxies rt) st)"
        using assms len rt by (auto simp: handleHTTP_def split: prod.splits go_result.splits)
      then show ?thesis using tryProxies_acts [of env s1 r "r_body r" None "rt_proxies rt" st] rt False by auto
    next
      case no: False
      have "run_acts st' = run_acts st"
        using assms len no
        by (cases "routing s") (auto simp: handleHTTP_def Let_def roundTripDirect_def split: prod.splits option.splits)
      then show ?thesis using False by (intro conjI exI [of _ "[]"]) auto
    qed
  qed
qed

theorem http_handler_bounds_witness:
  "\<exists>rep s' st' seg tail. handleHTTP scripted None (\<lambda>s. Return (proxyRoute [''p:1''], s)) getRequest plainServer \<lparr>run_world = [okResponse], run_acts = []\<rparr> =
       Return (rep, s', st') \<and> run_acts st' = seg @ tail \<and> number isSent seg \<le> 4 \<and>
       connAfter (normalizeProxyAddr ''p:1'') None seg = Some None"
proof -
  let ?rt = "\<lambda>s. Return (proxyRoute [''p:1''], s)" and ?st = "\<lparr>run_world = [okResponse], run_acts = []\<rparr>"
  have b: "r_body getRequest = []" by (simp add: getRequest_def)
  obtain rep st' where "tryProxies scripted plainServer getRequest [] None [''p:1''] ?st = (Return rep, st')"
    using roundTrip_ok [of "[]"] by simp
  then have h: "handleHTTP scripted None ?rt getRequest plainServer ?st = Return (rep, plainServer, st')"
    by (simp add: handleHTTP_def b proxyRoute_def)
  from http_handler_bounds [OF h] obtain segs tail where s: "run_acts st' = concat segs @ tail" "length segs \<le> 1"
    "\<forall>i<length segs. number isSent (segs ! i) \<le> 4 \<and> connAfter (normalizeProxyAddr ([''p:1''] ! i)) None (segs ! i) = Some None"
    by (auto simp: proxyRoute_def)
  have "\<exists>seg. concat segs = seg \<and> number isSent seg \<le> 4 \<and> connAfter (normalizeProxyAddr ''p:1'') None seg = Some None"
    using s(2,3) by (cases segs) auto
  then show ?thesis using h s(1) by blast
qed

end
