(* ===== verification/Proxy_Server_Props.thy ===== *)
theory Proxy_Server_Props
  imports Proxy_Server Proxy_Upstream_Props Network_Rules
begin

text \<open>
  Properties of the server: who is admitted, that the number of requests being handled never exceeds the configured
  one, that a connection counts as authenticated only after a proof on that very connection, and who can stop it.
\<close>

section \<open>Admission\<close>

lemma stateFor_conns: "stateFor conn px = (st, px') \<Longrightarrow> px_server px' = px_server px \<and> px_sem px' = px_sem px"
  by (auto simp: stateFor_def split: option.splits)

lemma keepState_frame [simp]: "px_server (keepState conn st px) = px_server px" "px_sem (keepState conn st px) = px_sem px"
  by (auto simp: keepState_def split: option.splits)

lemma clientCheck_frame: "clientCheck cenv tk conn r px = (ok, hs, px') \<Longrightarrow> px_server px' = px_server px \<and> px_sem px' = px_sem px"
  using stateFor_conns [of conn px] by (auto simp: clientCheck_def Let_def split: if_splits prod.splits)

lemma takeSem_frame: "takeSem px = Some px' \<Longrightarrow> px_server px' = px_server px \<and> px_conns px' = px_conns px \<and> px_sem px' = px_sem px + 1"
  by (auto simp: takeSem_def split: if_splits)

text \<open>The verdict on a connection: without authentication everyone passes; with it, an authenticated connection or
  credentials proven in this request.\<close>

lemma clientCheck_verdict:
  assumes "clientCheck cenv tk conn r px = (ok, hs, px')"
  shows "ok \<longleftrightarrow> \<not> enabled (sv_clientAuth (px_server px)) \<or> cs_authed (fst (stateFor conn px)) \<or>
    proven cenv (sv_clientAuth (px_server px)) tk r (fst (stateFor conn px))"
proof (cases "enabled (sv_clientAuth (px_server px))")
  case True
  obtain st px1 where s: "stateFor conn px = (st, px1)" by fastforce
  obtain ok2 hs2 err st2 where a: "Authenticate cenv (sv_clientAuth (px_server px)) tk r st = (ok2, hs2, err, st2)" by (metis prod_cases4)
  have "ok = ok2" using assms True s a by (simp add: clientCheck_def)
  moreover have "ok2" if "cs_authed st" using a that True by (simp add: Authenticate_def)
  moreover have "ok2 \<longleftrightarrow> proven cenv (sv_clientAuth (px_server px)) tk r st" if "\<not> cs_authed st"
    using Authenticate_verdict [OF True that a] by simp
  ultimately show ?thesis using True s by auto
qed (use assms in \<open>auto simp: clientCheck_def\<close>)

text \<open>The outcomes of \<^verbatim>\<open>ServeHTTP\<close>.\<close>

lemma serve_cases:
  assumes "serveHTTP cenv tk conn r px = Return (v, px')"
  obtains (early) rep where "v = Answered rep \<or> v = Quitting rep" "px' = px"
  | (refused) hs where "clientCheck cenv tk conn r px = (False, hs, px')"
      "v = Answered \<lparr>rp_status = 407, rp_header = addAll hs [], rp_body = []\<rparr>"
  | (busy) hs where "clientCheck cenv tk conn r px = (True, hs, px')" "takeSem px' = None" "v = Answered (httpError ''busy'' 503)"
  | (admitted) hs px1 where "clientCheck cenv tk conn r px = (True, hs, px1)" "takeSem px1 = Some px'"
      "v = (if r_method r = ''CONNECT'' then ToConnect else ToHTTP)" "isClientAllowed (px_server px) (r_remoteAddr r) = Return True"
      "u_path (r_url r) \<noteq> ''/PxQuit''"
proof -
  obtain ok hs px1 where c: "clientCheck cenv tk conn r px = (ok, hs, px1)" by (metis prod_cases3)
  show thesis using assms early refused [of hs] busy [of hs] admitted [of hs px1]
    by (cases ok) (auto simp: serveHTTP_def go_bind_Return_iff c handleQuit_def Let_def split: if_splits option.splits)
qed

section \<open>Who is a client\<close>

lemma remote_v4:
  assumes "CHR '':'' \<notin> set port" "CHR ''['' \<notin> set port" "CHR '']'' \<notin> set port"
  shows "parseRemoteIP (joinHostPort (string4 w) port) = V4 w"
proof -
  have "splitHostPort (joinHostPort (string4 w) port) = Some (string4 w, port)"
    by (rule splitHostPort_join) (use assms in auto)
  then show ?thesis by (simp add: parseRemoteIP_def parseAddr_string4)
qed

lemma newServer_fields:
  assumes "newServer aenv cenv ho cfg = Return px"
  shows "sv_cfg (px_server px) = cfg" "\<exists>m. Parse (pc_allow (cf_proxy cfg)) = Return m \<and> sv_allow (px_server px) = Some m"
    "sv_locals (px_server px) = addrString ` set (GetHostIPs (ho_ifaces ho))" "px_sem px = 0" "px_conns px = (\<lambda>_. None)"
    "0 \<le> st_threads (cf_settings cfg)"
    "sv_clientAuth (px_server px) = newHandler cenv (cc_username (cf_client cfg)) (cc_auth (cf_client cfg)) (cc_noSSPI (cf_client cfg))"
  using assms by (auto simp: newServer_def Let_def go_bind_Return_iff split: if_splits)

lemma client_allowed:
  assumes "newServer aenv cenv ho cfg = Return px" "pc_allow (cf_proxy cfg) = rules_text rs" "\<forall>r\<in>set rs. rule_wf r"
    and "CHR '':'' \<notin> set port" "CHR ''['' \<notin> set port" "CHR '']'' \<notin> set port"
  shows "isClientAllowed (px_server px) (joinHostPort (string4 w) port) = Return
    (if pc_hostOnly (cf_proxy cfg) \<and> \<not> pc_gateway (cf_proxy cfg) then V4 w \<in> set (GetHostIPs (ho_ifaces ho))
     else (\<exists>r\<in>set rs. rule_matches r w) \<or> \<not> pc_gateway (cf_proxy cfg) \<and> V4 w \<in> set (GetHostIPs (ho_ifaces ho)))"
proof -
  let ?m = "fold rule_effect rs emptyMatcher"
  note f = newServer_fields [OF assms(1)]
  have m: "sv_allow (px_server px) = Some ?m" using f(2) Parse_rules_returned(1) [OF assms(3)] assms(2) by auto
  have "ranges_v4 (m_ranges ?m)" by (simp add: ranges_v4_fold emptyMatcher_facts)
  then have "matchIP (Some ?m) (V4 w) = Return (w \<in> denote ?m)" by (rule nm.matches_V4)
  then have "matchIP (Some ?m) (V4 w) = Return (\<exists>r\<in>set rs. rule_matches r w)"
    using denote_fold [OF assms(3)] emptyMatcher_facts(2) by simp
  then show ?thesis
    using local_iff [of w "ho_ifaces ho"] f(1,3) m
    by (simp add: isClientAllowed_def Let_def remote_v4 [OF assms(4-6)])
qed

text \<open>C3: who is admitted, from the configuration to the decision.  A server built from a configuration whose \<^verbatim>\<open>allow\<close> text is a
  list of documented rules decides on every IPv4 client without a panic: with \<^verbatim>\<open>hostonly\<close> alone, exactly the addresses
  of the local interfaces and 127.0.0.1; otherwise the addresses that a rule covers and, unless \<^verbatim>\<open>gateway\<close> is on, the
  local ones too.\<close>

theorem deployed_admission:
  assumes "newServer aenv cenv ho cfg = Return px" "pc_allow (cf_proxy cfg) = rules_text rs" "\<forall>r\<in>set rs. rule_wf r"
    and "CHR '':'' \<notin> set port" "CHR ''['' \<notin> set port" "CHR '']'' \<notin> set port"
  shows "isClientAllowed (px_server px) (joinHostPort (string4 w) port) = Return
    (if pc_hostOnly (cf_proxy cfg) \<and> \<not> pc_gateway (cf_proxy cfg) then V4 w \<in> set (GetHostIPs (ho_ifaces ho))
     else (\<exists>r\<in>set rs. rule_matches r w) \<or> \<not> pc_gateway (cf_proxy cfg) \<and> V4 w \<in> set (GetHostIPs (ho_ifaces ho)))"
  using client_allowed [OF assms] .

text \<open>A server for the witnesses: open to 10.0.0.0/8, or any other list of rules, with a given number of threads.\<close>

definition gatewayConfig :: "rule list \<Rightarrow> config" where
  "gatewayConfig rs = setProxy (\<lambda>p. p\<lparr>pc_allow := rules_text rs, pc_gateway := True\<rparr>) Default"

definition bareHost :: host where
  "bareHost = \<lparr>ho_ifaces = None, ho_cacheDir = None, ho_mkdirOk = True, ho_pid = 1\<rparr>"

lemma gateway_server:
  assumes "\<forall>r\<in>set rs. rule_wf r" "\<not> (\<exists>r\<in>set rs. hyphenated r)"
  shows "\<exists>px. newServer aenv cenv bareHost (gatewayConfig rs) = Return px"
  using Parse_rules [OF assms] Parse_rules [of "[]"]
  by (simp add: newServer_def Let_def gatewayConfig_def setProxy_def Default_def rules_text_def)

theorem deployed_admission_witness:
  "\<exists>px. newServer bareAuthEnv bareEnv bareHost (gatewayConfig [RCidr (mk4 10 0 0 0) 8]) = Return px \<and>
     isClientAllowed (px_server px) (joinHostPort (string4 (mk4 10 1 2 3)) ''50000'') = Return True \<and>
     isClientAllowed (px_server px) (joinHostPort (string4 (mk4 127 0 0 1)) ''50000'') = Return False"
proof -
  let ?rs = "[RCidr (mk4 10 0 0 0) 8]"
  have wf: "\<forall>r\<in>set ?rs. rule_wf r" by simp
  from gateway_server [OF wf, of bareAuthEnv bareEnv] obtain px where
    px: "newServer bareAuthEnv bareEnv bareHost (gatewayConfig ?rs) = Return px" by auto
  have cfg: "pc_allow (cf_proxy (gatewayConfig ?rs)) = rules_text ?rs" "pc_gateway (cf_proxy (gatewayConfig ?rs))"
    by (simp_all add: gatewayConfig_def setProxy_def)
  have "isClientAllowed (px_server px) (joinHostPort (string4 w) ''50000'') = Return (rule_matches (RCidr (mk4 10 0 0 0) 8) w)" for w
    using deployed_admission [OF px cfg(1) wf, of "''50000''" w] cfg(2) by simp
  then show ?thesis using px by (simp add: unat_mk4)
qed

section \<open>Which requests are handled\<close>

text \<open>C11: the guards of \<^verbatim>\<open>ServeHTTP\<close>.  A request reaches a handler exactly when its client address is allowed, it is not one of the
  two control paths, the client is authenticated if authentication is on (the connection already is, or the
  credentials of this request are proven), and fewer requests than the configured number are being handled; it then
  holds a slot.  Every other request is answered at once and changes neither the slots nor the server.\<close>

theorem admission_control:
  assumes "serveHTTP cenv tk conn r px = Return (v, px')"
  shows "(v = ToConnect \<or> v = ToHTTP \<longleftrightarrow>
      isClientAllowed (px_server px) (r_remoteAddr r) = Return True \<and> u_path (r_url r) \<notin> {''/health'', ''/PxQuit''} \<and>
      (enabled (sv_clientAuth (px_server px)) \<longrightarrow> cs_authed (fst (stateFor conn px)) \<or>
         proven cenv (sv_clientAuth (px_server px)) tk r (fst (stateFor conn px))) \<and>
      int (px_sem px) < st_threads (cf_settings (sv_cfg (px_server px)))) \<and>
    px_sem px' = px_sem px + (if v = ToConnect \<or> v = ToHTTP then 1 else 0) \<and> px_server px' = px_server px"
proof -
  obtain ok hs px1 where c: "clientCheck cenv tk conn r px = (ok, hs, px1)" by (metis prod_cases3)
  have fr: "px_server px1 = px_server px" "px_sem px1 = px_sem px" using clientCheck_frame [OF c] by auto
  have "ok \<longleftrightarrow> (enabled (sv_clientAuth (px_server px)) \<longrightarrow> cs_authed (fst (stateFor conn px)) \<or>
      proven cenv (sv_clientAuth (px_server px)) tk r (fst (stateFor conn px)))"
    using clientCheck_verdict [OF c] by blast
  then show ?thesis using assms fr
    by (auto simp: serveHTTP_def go_bind_Return_iff c handleQuit_def takeSem_def Let_def split: if_splits)
qed

theorem admission_control_witness:
  "\<not> (\<exists>px'. serveHTTP bareEnv zeroTick None (getRequest\<lparr>r_remoteAddr := ''10.0.0.1:5''\<rparr>)
       \<lparr>px_server = plainServer\<lparr>sv_clientAuth := joeHandler [''BASIC'']\<rparr>, px_sem = 0, px_conns = (\<lambda>_. None), px_listening = [], px_stopped = False\<rparr> =
         Return (ToHTTP, px'))"
proof
  let ?s = "plainServer\<lparr>sv_clientAuth := joeHandler [''BASIC'']\<rparr>" and ?r = "getRequest\<lparr>r_remoteAddr := ''10.0.0.1:5''\<rparr>"
  assume "\<exists>px'. serveHTTP bareEnv zeroTick None ?r \<lparr>px_server = ?s, px_sem = 0, px_conns = (\<lambda>_. None), px_listening = [], px_stopped = False\<rparr> =
      Return (ToHTTP, px')"
  then obtain px' where a: "serveHTTP bareEnv zeroTick None ?r \<lparr>px_server = ?s, px_sem = 0, px_conns = (\<lambda>_. None), px_listening = [], px_stopped = False\<rparr> =
      Return (ToHTTP, px')" by blast
  have "hdrGet (r_header ?r) ''Proxy-Authorization'' = []" by (simp add: getRequest_def hdrGet_def hdrValues_def)
  then have "\<not> proven bareEnv (joeHandler [''BASIC'']) zeroTick ?r newState" by (rule empty_value_not_proven)
  then show False using admission_control [OF a] by (auto simp: stateFor_def newState_def enabled_def joeHandler_def)
qed

text \<open>C39: who can stop the server.  A shutdown is started exactly by a request for the path \<^verbatim>\<open>/PxQuit\<close>, on whatever host, from an
  allowed address that is a loopback or a local one.  Client authentication plays no part: no credentials are asked
  for, and what the connection proved does not matter.\<close>

theorem quit_needs_local_address:
  assumes "serveHTTP cenv tk conn r px = Return (v, px')"
  shows "(\<exists>rep. v = Quitting rep) \<longleftrightarrow>
    isClientAllowed (px_server px) (r_remoteAddr r) = Return True \<and> u_path (r_url r) = ''/PxQuit'' \<and>
    (isLoopback (parseRemoteIP (r_remoteAddr r)) \<or> addrString (parseRemoteIP (r_remoteAddr r)) \<in> sv_locals (px_server px))"
proof -
  obtain ok hs px1 where c: "clientCheck cenv tk conn r px = (ok, hs, px1)" by (metis prod_cases3)
  show ?thesis using assms
    by (auto simp: serveHTTP_def go_bind_Return_iff c handleQuit_def Let_def split: if_splits option.splits)
qed

theorem quit_needs_local_address_witness:
  "\<exists>px' rep. serveHTTP bareEnv zeroTick None
       (getRequest\<lparr>r_url := emptyURL\<lparr>u_scheme := ''http'', u_host := ''example.com'', u_path := ''/PxQuit''\<rparr>, r_remoteAddr := ''127.0.0.1:5''\<rparr>)
       \<lparr>px_server = plainServer\<lparr>sv_clientAuth := joeHandler [''BASIC'']\<rparr>, px_sem = 0, px_conns = (\<lambda>_. None), px_listening = [], px_stopped = False\<rparr> =
     Return (Quitting rep, px')"
proof -
  let ?r = "getRequest\<lparr>r_url := emptyURL\<lparr>u_scheme := ''http'', u_host := ''example.com'', u_path := ''/PxQuit''\<rparr>, r_remoteAddr := ''127.0.0.1:5''\<rparr>"
  let ?px = "\<lparr>px_server = plainServer\<lparr>sv_clientAuth := joeHandler [''BASIC'']\<rparr>, px_sem = 0, px_conns = (\<lambda>_. None), px_listening = [], px_stopped = False\<rparr>"
  have ip: "parseRemoteIP ''127.0.0.1:5'' = V4 (mk4 127 0 0 1)" by (simp add: parseRemoteIP_def go_simps)
  have lo: "isLoopback (V4 (mk4 127 0 0 1))" by (simp add: mk4_def)
  have al: "isClientAllowed (px_server ?px) (r_remoteAddr ?r) = Return True"
    by (simp add: isClientAllowed_def ip plainServer_def Default_def)
  obtain v px' where s: "serveHTTP bareEnv zeroTick None ?r ?px = Return (v, px')"
    using al by (simp add: serveHTTP_def)
  have "u_path (r_url ?r) = ''/PxQuit''" "r_remoteAddr ?r = ''127.0.0.1:5''" by simp_all
  then obtain rep where "v = Quitting rep" using quit_needs_local_address [OF s] al ip lo by fastforce
  then show ?thesis using s by blast
qed

section \<open>The semaphore\<close>

definition handling :: "job list \<Rightarrow> nat" where
  "handling jobs = length (filter (\<lambda>j. jb_phase j = Handling) jobs)"

lemma handling_append [simp]: "handling (xs @ ys) = handling xs + handling ys"
  by (simp add: handling_def)

lemma handling_update:
  assumes "i < length jobs" "ph \<noteq> Handling"
  shows "handling (setPhase i ph jobs) = handling jobs - (if jb_phase (jobs ! i) = Handling then 1 else 0)"
proof -
  let ?a = "take i jobs" and ?z = "drop (Suc i) jobs"
  have "handling jobs = handling (?a @ jobs ! i # ?z)" using id_take_nth_drop [OF assms(1)] by simp
  moreover have "setPhase i ph jobs = ?a @ (jobs ! i)\<lparr>jb_phase := ph\<rparr> # ?z"
    using assms(1) by (simp add: setPhase_def upd_conv_take_nth_drop)
  ultimately show ?thesis using assms(2) by (simp add: handling_def)
qed

lemma handling_positive: "i < length jobs \<Longrightarrow> jb_phase (jobs ! i) = Handling \<Longrightarrow> 0 < handling jobs"
  by (auto simp: handling_def filter_empty_conv)

lemma relayOf_not_handling: "relayOf as \<noteq> Handling"
  by (simp add: relayOf_def split: list.split act.split)

lemma handling_newJob: "handling (newJob v conn r) = (if v = ToConnect \<or> v = ToHTTP then 1 else 0)"
  by (simp add: newJob_def handling_def split: served.split)

definition slotInv :: "int \<Rightarrow> ('n, 's, 'w) load \<Rightarrow> bool" where
  "slotInv n y \<longleftrightarrow> st_threads (cf_settings (sv_cfg (px_server (ld_px y)))) = n \<and>
     px_sem (ld_px y) = handling (ld_jobs y) \<and> int (px_sem (ld_px y)) \<le> n"

lemma slot_serve:
  assumes "serveHTTP cenv tk conn r px = Return (v, px')" "int (px_sem px) \<le> st_threads (cf_settings (sv_cfg (px_server px)))"
  shows "px_server px' = px_server px \<and> px_sem px' = px_sem px + handling (newJob v conn r) \<and>
    int (px_sem px') \<le> st_threads (cf_settings (sv_cfg (px_server px)))"
  using assms(1)
proof (cases rule: serve_cases)
  case (admitted hs px1)
  then show ?thesis using clientCheck_frame [OF admitted(1)] takeSem_frame [OF admitted(2)]
    by (auto simp: handling_newJob takeSem_def split: if_splits)
qed (use assms(2) clientCheck_frame in \<open>fastforce simp: handling_newJob\<close>)+

context routing_contract
begin

lemma connect_one_slot:
  assumes "handleConnect env (routing r) r s st = (rep, s', st')"
  shows "releases (newActs st st') = 1 \<and> sv_cfg s' = sv_cfg s"
  using connect_release [OF assms] arg_cong [OF connect_server [OF assms], of sv_cfg]
  by (auto simp: releases_def newActs_def number_def)

lemma httpRun_server:
  assumes "httpRun env readErr (routing r) r s st = (s', st')"
  shows "s'\<lparr>sv_pac := sv_pac s\<rparr> = s"
proof (cases "handleHTTP env readErr (routing r) r s st")
  case (Return x)
  obtain rep s1 st1 where x: "x = (rep, s1, st1)" by (metis prod_cases3)
  then show ?thesis using assms http_server [OF Return [unfolded x]] Return by (simp add: httpRun_def)
qed (use assms in \<open>simp_all add: httpRun_def\<close>)

lemma httpRun_cfg: "httpRun env readErr (routing r) r s st = (s', st') \<Longrightarrow> sv_cfg s' = sv_cfg s"
  using arg_cong [OF httpRun_server, of env readErr r s st s' st' sv_cfg] by simp

lemma slot_step:
  assumes "loadStep env cenv routing y y'" "slotInv n y"
  shows "slotInv n y'"
  using assms
proof (cases rule: loadStep.cases)
  case (serve tk conn r v px')
  then show ?thesis using slot_serve [OF serve(2)] assms(2) by (simp add: slotInv_def)
next
  case (http i r readErr s' st')
  then show ?thesis using handling_update [of i "ld_jobs y" Finished] httpRun_cfg [OF http(7)] assms(2)
    by (simp add: slotInv_def giveBack_def)
next
  case (connect i r rep s' st' new)
  then show ?thesis using handling_update [of i "ld_jobs y" "relayOf new"] relayOf_not_handling [of new] connect_one_slot [OF connect(6)] assms(2)
    by (simp add: slotInv_def giveBack_def)
next
  case (relayed i c)
  then show ?thesis using handling_update [of i "ld_jobs y" Finished] assms(2) by (simp add: slotInv_def)
next
  case (gone c)
  then show ?thesis using assms(2) by (simp add: slotInv_def connGone_def)
next
  case (stop errs)
  then show ?thesis using assms(2) by (simp add: slotInv_def shutdown_def)
qed

lemma slot_reach: "underLoad env cenv routing y0 y \<Longrightarrow> slotInv n y0 \<Longrightarrow> slotInv n y"
  by (induction rule: underLoad.induct) (auto intro: slot_step)

lemma can_finish:
  assumes "slotInv n y" "i < length (ld_jobs y)" "jb_phase (ld_jobs y ! i) = Handling"
  shows "\<exists>y'. loadStep env cenv routing y y' \<and> jb_phase (ld_jobs y' ! i) \<noteq> Handling"
proof -
  let ?r = "jb_request (ld_jobs y ! i)"
  have pos: "0 < px_sem (ld_px y)" using assms handling_positive by (simp add: slotInv_def)
  show ?thesis
  proof (cases "r_method ?r = ''CONNECT''")
    case True
    obtain rep s' st' where h: "handleConnect env (routing ?r) ?r (px_server (ld_px y)) (ld_run y) = (rep, s', st')" by (metis prod_cases3)
    have "releases (newActs (ld_run y) st') \<le> px_sem (ld_px y)" using connect_one_slot [OF h] pos by simp
    from loadStep.connect [where routing = routing and cenv = cenv, OF assms(2,3) refl True h refl this] relayOf_not_handling assms(2)
    show ?thesis by (fastforce simp: setPhase_def)
  next
    case False
    obtain s' st' where h: "httpRun env None (routing ?r) ?r (px_server (ld_px y)) (ld_run y) = (s', st')" by fastforce
    from loadStep.http [where routing = routing and cenv = cenv, OF assms(2,3) refl False pos h] assms(2) show ?thesis by (fastforce simp: setPhase_def)
  qed
qed

end

lemma busy_full:
  assumes "serveHTTP cenv tk conn r px = Return (Answered (httpError ''busy'' 503), px')"
  shows "st_threads (cf_settings (sv_cfg (px_server px))) \<le> int (px_sem px)"
proof -
  obtain ok hs px1 where c: "clientCheck cenv tk conn r px = (ok, hs, px1)" by (metis prod_cases3)
  then show ?thesis using assms clientCheck_frame [OF c]
    by (auto simp: serveHTTP_def go_bind_Return_iff handleQuit_def httpError_def takeSem_def Let_def split: if_splits)
qed

text \<open>C4: the limit on concurrent requests.  From the start of a server, through every interleaving of admissions, handlers, relays,
  closed connections and shutdown, the semaphore counts exactly the requests being handled and these never exceed
  the configured number of threads; established tunnels do not count.  No handler is ever stuck giving its slot back,
  and a client is told \<^verbatim>\<open>busy\<close> only when all slots are in use.\<close>

theorem slots_bounded:
  assumes "newServer aenv cenv ho cfg = Return px" "underLoad env cenv (resolveRoute dns plat findProxy) (idle px w) y"
  shows "int (handling (ld_jobs y)) \<le> st_threads (cf_settings cfg) \<and> px_sem (ld_px y) = handling (ld_jobs y) \<and>
    (\<forall>i<length (ld_jobs y). jb_phase (ld_jobs y ! i) = Handling \<longrightarrow>
       (\<exists>y'. loadStep env cenv (resolveRoute dns plat findProxy) y y' \<and> jb_phase (ld_jobs y' ! i) \<noteq> Handling)) \<and>
    (\<forall>tk conn r px'. serveHTTP cenv tk conn r (ld_px y) = Return (Answered (httpError ''busy'' 503), px') \<longrightarrow>
       int (handling (ld_jobs y)) = st_threads (cf_settings cfg))"
proof -
  let ?n = "st_threads (cf_settings cfg)"
  have "slotInv ?n (idle px w)"
    using newServer_fields [OF assms(1)] by (simp add: slotInv_def idle_def handling_def)
  then have inv: "slotInv ?n y" by (rule rr.slot_reach [OF assms(2)])
  then show ?thesis using rr.can_finish [OF inv] busy_full by (fastforce simp: slotInv_def)
qed

theorem slots_bounded_witness:
  "\<exists>px y. newServer bareAuthEnv bareEnv bareHost (gatewayConfig [RAll]) = Return px \<and>
     underLoad scripted bareEnv (resolveRoute (\<lambda>_. None) unixLoadProxyInfo (\<lambda>_ _ _. [])) (idle px []) y \<and>
     int (handling (ld_jobs y)) \<le> 128"
proof -
  obtain px where px: "newServer bareAuthEnv bareEnv bareHost (gatewayConfig [RAll]) = Return px"
    using gateway_server [of "[RAll]"] by auto
  let ?rt = "resolveRoute (\<lambda>_. None) unixLoadProxyInfo (\<lambda>_ _ _. [])"
  have "underLoad scripted bareEnv ?rt (idle px []) (idle px [])" by (rule begin_load)
  from slots_bounded [OF px this] this px show ?thesis
    by (auto simp: gatewayConfig_def setProxy_def Default_def)
qed

section \<open>Authenticated connections\<close>

lemma stateFor_fst: "stateFor (Some c) px = (st, px1) \<Longrightarrow> st = (case px_conns px c of None \<Rightarrow> newState | Some x \<Rightarrow> x) \<and>
    (\<forall>d. d \<noteq> c \<longrightarrow> px_conns px1 d = px_conns px d)"
  by (auto simp: stateFor_def split: option.splits)

lemma Authenticate_authed:
  assumes "Authenticate env h tk r st = (ok, hs, err, st')" "enabled h" "cs_authed st'"
  shows "cs_authed st \<or> proven env h tk r st"
  using Authenticate_verdict [OF assms(2) _ assms(1)] assms(3) by auto

lemma clientCheck_authed:
  assumes "clientCheck cenv tk conn r px = (ok, hs, px')" "px_conns px' c = Some st" "cs_authed st"
  shows "(\<exists>st0. px_conns px c = Some st0 \<and> cs_authed st0) \<or>
    conn = Some c \<and> proven cenv (sv_clientAuth (px_server px)) tk r (fst (stateFor conn px))"
proof (cases "enabled (sv_clientAuth (px_server px)) \<and> conn = Some c")
  case True
  obtain st0 px1 where s: "stateFor conn px = (st0, px1)" by fastforce
  obtain ok2 hs2 err st2 where a: "Authenticate cenv (sv_clientAuth (px_server px)) tk r st0 = (ok2, hs2, err, st2)" by (metis prod_cases4)
  have "st = st2" using assms(1,2) True s a by (auto simp: clientCheck_def Let_def keepState_def)
  then have "cs_authed st0 \<or> proven cenv (sv_clientAuth (px_server px)) tk r st0"
    using Authenticate_authed [OF a] True assms(3) by blast
  moreover have "st0 = (case px_conns px c of None \<Rightarrow> newState | Some x \<Rightarrow> x)" using stateFor_fst s True by blast
  ultimately show ?thesis using s True by (cases "px_conns px c") (auto simp: newState_def)
next
  case False
  obtain st0 px1 where s: "stateFor conn px = (st0, px1)" by fastforce
  obtain ok2 hs2 err st2 where a: "Authenticate cenv (sv_clientAuth (px_server px)) tk r st0 = (ok2, hs2, err, st2)" by (metis prod_cases4)
  have "px_conns px' c = px_conns px c"
  proof (cases conn)
    case None
    then show ?thesis using assms(1) s a by (auto simp: clientCheck_def Let_def keepState_def stateFor_def split: if_splits)
  next
    case (Some d)
    then show ?thesis using assms(1) s a False stateFor_fst [of d px st0 px1]
      by (auto simp: clientCheck_def Let_def keepState_def split: if_splits)
  qed
  then show ?thesis using assms(2,3) by auto
qed

lemma serve_authed:
  assumes "serveHTTP cenv tk conn r px = Return (v, px')" "px_conns px' c = Some st" "cs_authed st"
  shows "(\<exists>st0. px_conns px c = Some st0 \<and> cs_authed st0) \<or>
    conn = Some c \<and> proven cenv (sv_clientAuth (px_server px)) tk r (fst (stateFor conn px))"
  using assms(1)
proof (cases rule: serve_cases)
  case (admitted hs px1)
  then show ?thesis using clientCheck_authed [OF admitted(1)] takeSem_frame [OF admitted(2)] assms(2,3) by auto
qed (use assms clientCheck_authed in blast)+

definition provedSince :: "('n, 's) clientEnv \<Rightarrow> handler \<Rightarrow> nat \<Rightarrow> ('n, 's) event list \<Rightarrow> bool" where
  "provedSince cenv h c evs \<longleftrightarrow>
     (\<exists>pre tk r st0 post. evs = pre @ Asked c tk r st0 # post \<and> Gone c \<notin> set post \<and> proven cenv h tk r st0)"

lemma provedSince_append: "provedSince cenv h c evs \<Longrightarrow> Gone c \<notin> set evs2 \<Longrightarrow> provedSince cenv h c (evs @ evs2)"
  unfolding provedSince_def by (metis Un_iff append.assoc append_Cons set_append)

definition authInv :: "('n, 's) clientEnv \<Rightarrow> handler \<Rightarrow> ('n, 's, 'w) load \<Rightarrow> bool" where
  "authInv cenv h y \<longleftrightarrow> sv_clientAuth (px_server (ld_px y)) = h \<and>
     (\<forall>c st. px_conns (ld_px y) c = Some st \<and> cs_authed st \<longrightarrow> provedSince cenv h c (ld_log y))"

lemma auth_serve:
  assumes "authInv cenv h y" "serveHTTP cenv tk conn r (ld_px y) = Return (v, px')"
  shows "authInv cenv h (y\<lparr>ld_px := px', ld_jobs := jobs, ld_log := ld_log y @ asked conn tk r (ld_px y)\<rparr>)"
proof -
  have srv: "px_server px' = px_server (ld_px y)"
    using assms(2) by (cases rule: serve_cases) (fastforce dest: clientCheck_frame takeSem_frame)+
  have "provedSince cenv h c (ld_log y @ asked conn tk r (ld_px y))" if "px_conns px' c = Some st" "cs_authed st" for c st
    using serve_authed [OF assms(2) that]
  proof
    assume "\<exists>st0. px_conns (ld_px y) c = Some st0 \<and> cs_authed st0"
    then have "provedSince cenv h c (ld_log y)" using assms(1) by (auto simp: authInv_def)
    then show ?thesis by (rule provedSince_append) (simp add: asked_def split: option.split)
  next
    assume "conn = Some c \<and> proven cenv (sv_clientAuth (px_server (ld_px y))) tk r (fst (stateFor conn (ld_px y)))"
    then show ?thesis using assms(1) by (force simp: provedSince_def asked_def authInv_def)
  qed
  then show ?thesis using assms(1) srv by (simp add: authInv_def)
qed

context routing_contract
begin

lemma auth_step:
  assumes "loadStep env cenv routing y y'" "authInv cenv h y"
  shows "authInv cenv h y'"
  using assms
proof (cases rule: loadStep.cases)
  case (serve tk conn r v px')
  then show ?thesis using auth_serve [OF assms(2) serve(2)] by simp
next
  case (http i r readErr s' st')
  then have "sv_clientAuth s' = sv_clientAuth (px_server (ld_px y))"
    using arg_cong [OF httpRun_server [OF http(7)], of sv_clientAuth] by simp
  then show ?thesis using http(1) assms(2) by (simp add: authInv_def giveBack_def)
next
  case (connect i r rep s' st' new)
  then have "sv_clientAuth s' = sv_clientAuth (px_server (ld_px y))"
    using arg_cong [OF connect_server [OF connect(6)], of sv_clientAuth] by simp
  then show ?thesis using connect(1) assms(2) by (simp add: authInv_def giveBack_def)
next
  case (relayed i c)
  then show ?thesis using assms(2) by (simp add: authInv_def)
next
  case (gone c)
  have "provedSince cenv h d (ld_log y @ [Gone c])" if "d \<noteq> c" "provedSince cenv h d (ld_log y)" for d
    using provedSince_append [OF that(2), of "[Gone c]"] that(1) by simp
  then show ?thesis using gone assms(2) by (auto simp: authInv_def connGone_def split: if_splits)
next
  case (stop errs)
  then show ?thesis using assms(2) by (simp add: authInv_def shutdown_def)
qed

lemma auth_reach: "underLoad env cenv routing y0 y \<Longrightarrow> authInv cenv h y0 \<Longrightarrow> authInv cenv h y"
  by (induction rule: underLoad.induct) (auto intro: auth_step)

end

text \<open>C5: a proof on one connection is good for that connection only, and for no longer than it lives.  In every state of a server under
  load, a connection that counts as authenticated carried a request whose credentials were proven, with the
  connection's own state at that moment, and has not been closed or hijacked since; and while authentication is on,
  a request is handled only on such a connection or with proven credentials of its own.\<close>

theorem authenticated_connections:
  assumes "newServer aenv cenv ho cfg = Return px" "underLoad env cenv (resolveRoute dns plat findProxy) (idle px w) y"
    and "h = sv_clientAuth (px_server px)"
  shows "(\<forall>c st. px_conns (ld_px y) c = Some st \<and> cs_authed st \<longrightarrow>
      (\<exists>pre tk r st0 post. ld_log y = pre @ Asked c tk r st0 # post \<and> Gone c \<notin> set post \<and> proven cenv h tk r st0)) \<and>
    (\<forall>tk c r v px'. serveHTTP cenv tk (Some c) r (ld_px y) = Return (v, px') \<and> (v = ToConnect \<or> v = ToHTTP) \<and> enabled h \<longrightarrow>
      proven cenv h tk r (fst (stateFor (Some c) (ld_px y))) \<or>
      (\<exists>pre tk' r' st0 post. ld_log y = pre @ Asked c tk' r' st0 # post \<and> Gone c \<notin> set post \<and> proven cenv h tk' r' st0))"
proof -
  have "authInv cenv h (idle px w)"
    using newServer_fields(5) [OF assms(1)] assms(3) by (simp add: authInv_def idle_def)
  then have inv: "authInv cenv h y" by (rule rr.auth_reach [OF assms(2)])
  have "proven cenv h tk r (fst (stateFor (Some c) (ld_px y))) \<or> provedSince cenv h c (ld_log y)"
    if "serveHTTP cenv tk (Some c) r (ld_px y) = Return (v, px')" "v = ToConnect \<or> v = ToHTTP" "enabled h" for tk c r v px'
  proof -
    note given = that
    obtain hs px1 where ck: "clientCheck cenv tk (Some c) r (ld_px y) = (True, hs, px1)"
      using given(1,2) by (cases rule: serve_cases) auto
    have "cs_authed (fst (stateFor (Some c) (ld_px y))) \<or> proven cenv h tk r (fst (stateFor (Some c) (ld_px y)))"
      using clientCheck_verdict [OF ck] given(3) inv by (simp add: authInv_def)
    moreover have "provedSince cenv h c (ld_log y)" if "cs_authed (fst (stateFor (Some c) (ld_px y)))"
      using that inv by (cases "px_conns (ld_px y) c") (auto simp: stateFor_def newState_def authInv_def)
    ultimately show ?thesis by blast
  qed
  then show ?thesis using inv unfolding authInv_def provedSince_def by blast
qed

definition joeConfig :: config where
  "joeConfig = (gatewayConfig [RAll])\<lparr>cf_client := \<lparr>cc_username = ''joe'', cc_auth = ''BASIC'', cc_noSSPI = True\<rparr>\<rparr>"

definition joeEnv :: "(unit, unit) clientEnv" where
  "joeEnv = bareEnv\<lparr>ce_getenv := (\<lambda>_. ''pw'')\<rparr>"

theorem authenticated_connections_witness:
  "\<exists>px. newServer bareAuthEnv joeEnv bareHost joeConfig = Return px \<and>
     (\<forall>tk r v px'. serveHTTP joeEnv tk (Some 3) r px = Return (v, px') \<and> (v = ToConnect \<or> v = ToHTTP) \<longrightarrow>
        proven joeEnv (joeHandler [''BASIC'']) tk r newState)"
proof -
  obtain px where px: "newServer bareAuthEnv joeEnv bareHost joeConfig = Return px"
    using Parse_rules [of "[RAll]"] Parse_rules [of "[]"]
    by (simp add: newServer_def Let_def joeConfig_def gatewayConfig_def setProxy_def Default_def rules_text_def)
  have "newHandler joeEnv ''joe'' ''BASIC'' True = joeHandler [''BASIC'']"
    by (simp add: newHandler_def joeEnv_def bareEnv_def joeHandler_def expandMethods_def Let_def go_simps)
  then have h: "joeHandler [''BASIC''] = sv_clientAuth (px_server px)"
    using newServer_fields(7) [OF px] by (simp add: joeConfig_def)
  have "stateFor (Some 3) px = (newState, px\<lparr>px_conns := (px_conns px)(3 \<mapsto> newState)\<rparr>)"
    using newServer_fields(5) [OF px] by (simp add: stateFor_def)
  moreover have "enabled (joeHandler [''BASIC''])" by (simp add: enabled_def joeHandler_def)
  ultimately show ?thesis
    using authenticated_connections [of bareAuthEnv joeEnv bareHost joeConfig px scripted "\<lambda>_. None" unixLoadProxyInfo "\<lambda>_ _ _. []"
        "[]" "idle px []", OF px begin_load h] px
    by (fastforce simp: idle_def)
qed

end
