(* ===== verification/Relay.thy ===== *)
theory Relay
  imports Px_Prelude "HOL-Library.Sublist"
begin

text \<open>
  \<^verbatim>\<open>internal/proxy/tunnel.go\<close>: the two goroutines that copy the bytes of a tunnel, and the final close.
  An endpoint holds what its reads will return: bytes and perhaps an error, and the error of the idle deadline
  when the peer stays silent; \<open>arrive\<close> is a peer that sends more.  A write fails when the endpoint has been closed, and may
  fail at any other time.
\<close>

section \<open>Connections\<close>

datatype side = LeftConn | RightConn

fun peer :: "side \<Rightarrow> side" where
  "peer LeftConn = RightConn"
| "peer RightConn = LeftConn"

datatype readErr = EOF | OtherErr

record endpoint =
  en_reads :: "(string \<times> readErr option) list"
  en_got :: string
  en_out :: string
  en_tcp :: bool
  en_shut :: bool
  en_closed :: bool

definition relayBufferSize :: nat where
  "relayBufferSize = 32 * 1024"

definition nextRead :: "endpoint \<Rightarrow> (string \<times> readErr option) \<times> endpoint" where
  "nextRead e =
     (case en_reads e of
        [] \<Rightarrow> (([], Some OtherErr), e)
      | (bs, err) # rest \<Rightarrow>
          if length bs \<le> relayBufferSize then ((bs, err), e\<lparr>en_reads := rest, en_got := en_got e @ bs\<rparr>)
          else ((take relayBufferSize bs, None),
                e\<lparr>en_reads := (drop relayBufferSize bs, err) # rest, en_got := en_got e @ take relayBufferSize bs\<rparr>))"

definition closeWrite :: "endpoint \<Rightarrow> endpoint" where
  "closeWrite e = (if en_tcp e then e\<lparr>en_shut := True\<rparr> else e)"

section \<open>The pumps\<close>

text \<open>Where a pump is: before a read, about to write what it read, about to half-close, done.  The flag tells whether every
  write so far succeeded.\<close>

datatype pump = PRead | PWrite string "readErr option" | PShut bool | PDone bool

record relay =
  rl_pump :: "side \<Rightarrow> pump"
  rl_conn :: "side \<Rightarrow> endpoint"
  rl_over :: bool

text \<open>What follows a read whose bytes, if any, have been written: on an error other than end of file the source is closed.\<close>

definition afterWrite :: "readErr option \<Rightarrow> endpoint \<Rightarrow> pump \<times> endpoint" where
  "afterWrite err src =
     (case err of None \<Rightarrow> (PRead, src) | Some EOF \<Rightarrow> (PShut True, src) | Some OtherErr \<Rightarrow> (PShut True, src\<lparr>en_closed := True\<rparr>))"

definition startRelay :: "endpoint \<Rightarrow> endpoint \<Rightarrow> relay" where
  "startRelay l r =
     \<lparr>rl_pump = (\<lambda>_. PRead), rl_conn = (\<lambda>s. case s of LeftConn \<Rightarrow> l | RightConn \<Rightarrow> r), rl_over = False\<rparr>"

text \<open>The pump of side \<open>s\<close> reads from \<open>s\<close> and writes to its peer.  A failed write may have written a part.\<close>

inductive relayStep :: "relay \<Rightarrow> relay \<Rightarrow> bool" where
  read_data: "\<lbrakk>rl_pump y s = PRead; nextRead (rl_conn y s) = ((bs, err), src); bs \<noteq> []\<rbrakk> \<Longrightarrow>
    relayStep y (y\<lparr>rl_pump := (rl_pump y)(s := PWrite bs err), rl_conn := (rl_conn y)(s := src)\<rparr>)"
| read_empty: "\<lbrakk>rl_pump y s = PRead; nextRead (rl_conn y s) = (([], err), src); afterWrite err src = (p, src')\<rbrakk> \<Longrightarrow>
    relayStep y (y\<lparr>rl_pump := (rl_pump y)(s := p), rl_conn := (rl_conn y)(s := src')\<rparr>)"
| write_ok: "\<lbrakk>rl_pump y s = PWrite bs err; \<not> en_closed (rl_conn y (peer s)); afterWrite err (rl_conn y s) = (p, src)\<rbrakk> \<Longrightarrow>
    relayStep y (y\<lparr>rl_pump := (rl_pump y)(s := p),
      rl_conn := (rl_conn y)(s := src, peer s := (rl_conn y (peer s))\<lparr>en_out := en_out (rl_conn y (peer s)) @ bs\<rparr>)\<rparr>)"
| write_fail: "\<lbrakk>rl_pump y s = PWrite bs err; k < length bs; en_closed (rl_conn y (peer s)) \<Longrightarrow> k = 0\<rbrakk> \<Longrightarrow>
    relayStep y (y\<lparr>rl_pump := (rl_pump y)(s := PShut False),
      rl_conn := (rl_conn y)(peer s := (rl_conn y (peer s))\<lparr>en_out := en_out (rl_conn y (peer s)) @ take k bs\<rparr>)\<rparr>)"
| shut: "rl_pump y s = PShut ok \<Longrightarrow>
    relayStep y (y\<lparr>rl_pump := (rl_pump y)(s := PDone ok), rl_conn := (rl_conn y)(peer s := closeWrite (rl_conn y (peer s)))\<rparr>)"
| over: "\<lbrakk>rl_pump y LeftConn = PDone a; rl_pump y RightConn = PDone b; \<not> rl_over y\<rbrakk> \<Longrightarrow>
    relayStep y (y\<lparr>rl_conn := (\<lambda>s. (rl_conn y s)\<lparr>en_closed := True\<rparr>), rl_over := True\<rparr>)"

text \<open>The world outside: the peer of \<open>s\<close> sends more, or ends or resets its side, as long as it has done neither.  Each
  read re-arms the idle deadline, so what a peer sends next may arrive at any time.\<close>

inductive arrive :: "relay \<Rightarrow> relay \<Rightarrow> bool" where
  arrives: "\<lbrakk>list_all (\<lambda>(bs, err). err = None) (en_reads (rl_conn y s)); bs \<noteq> [] \<or> err \<noteq> None\<rbrakk> \<Longrightarrow>
    arrive y (y\<lparr>rl_conn := (rl_conn y)(s := (rl_conn y s)\<lparr>en_reads := en_reads (rl_conn y s) @ [(bs, err)]\<rparr>)\<rparr>)"

inductive open_to :: "relay \<Rightarrow> relay \<Rightarrow> bool" for y0 where
  open_start: "open_to y0 y0"
| open_relay: "open_to y0 y \<Longrightarrow> relayStep y y' \<Longrightarrow> open_to y0 y'"
| open_arrive: "open_to y0 y \<Longrightarrow> arrive y y' \<Longrightarrow> open_to y0 y'"

inductive relayed_to :: "relay \<Rightarrow> relay \<Rightarrow> bool" for y0 where
  relay_start: "relayed_to y0 y0"
| relay_more: "relayed_to y0 y \<Longrightarrow> relayStep y y' \<Longrightarrow> relayed_to y0 y'"

end
