(* ===== verification/Relay_Props.thy ===== *)
theory Relay_Props
  imports Relay
begin

text \<open>
  Properties of the relay: in each direction it delivers a prefix of what was read, all of it unless a write failed; it
  closes nothing early but the source of a failed read; and it ends unless a peer keeps sending for ever.
\<close>

lemma peer_simps [simp]: "peer (peer s) = s" "peer s \<noteq> s" "s \<noteq> peer s"
  by (cases s; simp)+

lemma peer_upd [simp]: "g(s := x, peer s := g (peer s)) = g(s := x)"
  by auto

lemma all_sides: "(\<forall>s. P s) \<longleftrightarrow> P LeftConn \<and> P RightConn"
  by (metis side.exhaust)

lemma side_cases: "t = s \<or> t = peer s"
  by (cases s; cases t) simp_all

definition allBytes :: "endpoint \<Rightarrow> string" where
  "allBytes e = en_got e @ concat (map fst (en_reads e))"

lemma nextRead_facts:
  assumes "nextRead e = ((bs, err), e')"
  shows "en_got e' = en_got e @ bs" "allBytes e' = allBytes e" "en_out e' = en_out e" "en_shut e' = en_shut e"
    "en_closed e' = en_closed e" "length bs \<le> relayBufferSize" "err = Some EOF \<Longrightarrow> en_reads e \<noteq> []"
  using assms
  by (auto simp: nextRead_def allBytes_def split: list.splits if_splits)

lemma afterWrite_facts:
  assumes "afterWrite err e = (p, e')"
  shows "en_got e' = en_got e" "allBytes e' = allBytes e" "en_out e' = en_out e" "en_shut e' = en_shut e" "en_reads e' = en_reads e"
    "p = PRead \<or> p = PShut True" "en_closed e' \<longleftrightarrow> en_closed e \<or> err = Some OtherErr" "p = PRead \<longleftrightarrow> err = None"
  using assms by (auto simp: afterWrite_def allBytes_def split: option.splits readErr.splits)

text \<open>The state of one direction: what has been written to the peer against what has been read.\<close>

definition sent :: "pump \<Rightarrow> string \<Rightarrow> string \<Rightarrow> bool" where
  "sent p got out \<longleftrightarrow>
     (case p of
        PRead \<Rightarrow> out = got
      | PWrite bs err \<Rightarrow> bs \<noteq> [] \<and> out @ bs = got
      | PShut ok \<Rightarrow> prefix out got \<and> (ok \<longrightarrow> out = got)
      | PDone ok \<Rightarrow> prefix out got \<and> (ok \<longrightarrow> out = got))"

definition ended :: "pump \<Rightarrow> bool" where
  "ended p \<longleftrightarrow> (\<exists>ok. p = PDone ok)"

text \<open>The invariant of the direction from \<open>s\<close> to its peer, in terms of the parts only the pump of \<open>s\<close> changes.\<close>

definition dirInv :: "string \<Rightarrow> bool \<Rightarrow> pump \<Rightarrow> endpoint \<Rightarrow> endpoint \<Rightarrow> bool" where
  "dirInv input over p src dst \<longleftrightarrow>
     allBytes src = input \<and> sent p (en_got src) (en_out dst) \<and> (en_shut dst \<longrightarrow> ended p) \<and>
     (en_closed src \<longrightarrow> over \<or> p = PShut True \<or> p = PDone True) \<and> (over \<longrightarrow> ended p \<and> en_closed src)"

definition relayInv :: "(side \<Rightarrow> string) \<Rightarrow> relay \<Rightarrow> bool" where
  "relayInv input y \<longleftrightarrow> (\<forall>s. dirInv (input s) (rl_over y) (rl_pump y s) (rl_conn y s) (rl_conn y (peer s)))"

lemma dirInv_frame:
  "dirInv input over p (e\<lparr>en_out := x\<rparr>) d = dirInv input over p e d"
  "dirInv input over p (e\<lparr>en_shut := b\<rparr>) d = dirInv input over p e d"
  "dirInv input over p (closeWrite e) d = dirInv input over p e d"
  by (simp_all add: dirInv_def allBytes_def closeWrite_def)

lemma dirInv_dst: "dirInv input over p e d \<Longrightarrow> en_out d' = en_out d \<Longrightarrow> en_shut d' = en_shut d \<Longrightarrow> dirInv input over p e d'"
  by (simp add: dirInv_def)

text \<open>The steps of one pump on its own direction.\<close>

lemma dir_read:
  assumes "dirInv i ov PRead e d" "nextRead e = ((bs, err), e')" "bs \<noteq> []"
  shows "dirInv i ov (PWrite bs err) e' d"
  using assms(1,3) nextRead_facts [OF assms(2)] by (auto simp: dirInv_def sent_def ended_def)

lemma dir_after:
  assumes "dirInv i ov p0 e d" "p0 = PRead \<or> p0 = PWrite bs err" "afterWrite err e = (p, e')" "en_out d' = en_got e" "en_shut d' = en_shut d"
  shows "dirInv i ov p e' d'"
proof -
  have o: "allBytes e = i" "\<not> en_shut d" "\<not> en_closed e" "\<not> ov" using assms(1,2) by (auto simp: dirInv_def ended_def)
  note f = afterWrite_facts [OF assms(3)]
  from f(6) show ?thesis
  proof
    assume "p = PRead"
    then show ?thesis using o f(1,2,7,8) assms(4,5) by (simp add: dirInv_def sent_def)
  next
    assume "p = PShut True"
    then show ?thesis using o f(1,2) assms(4,5) by (simp add: dirInv_def sent_def)
  qed
qed

lemma dir_empty:
  assumes "dirInv i ov PRead e d" "nextRead e = (([], err), e1)" "afterWrite err e1 = (p, e')"
  shows "dirInv i ov p e' d"
proof -
  have "dirInv i ov PRead e1 d" "en_out d = en_got e1"
    using assms(1) nextRead_facts [OF assms(2)] by (auto simp: dirInv_def sent_def ended_def)
  then show ?thesis using dir_after [OF _ _ assms(3)] by blast
qed

lemma dir_write:
  assumes "dirInv i ov (PWrite bs err) e d" "afterWrite err e = (p, e')"
  shows "dirInv i ov p e' (d\<lparr>en_out := en_out d @ bs\<rparr>)"
proof -
  have "en_out d @ bs = en_got e" using assms(1) by (simp add: dirInv_def sent_def)
  then show ?thesis by (intro dir_after [OF assms(1) _ assms(2)]) simp_all
qed

lemma dir_fail:
  assumes "dirInv i ov (PWrite bs err) e d"
  shows "dirInv i ov (PShut False) e (d\<lparr>en_out := en_out d @ take k bs\<rparr>)"
proof -
  have e: "en_out d @ bs = en_got e" using assms by (simp add: dirInv_def sent_def)
  have "prefix (en_out d @ take k bs) (en_got e)" unfolding e [symmetric] by (simp add: take_is_prefix)
  then show ?thesis using assms by (auto simp: dirInv_def sent_def ended_def)
qed

lemma dir_shut: "dirInv i ov (PShut ok) e d \<Longrightarrow> dirInv i ov (PDone ok) e (closeWrite d)"
  by (auto simp: dirInv_def sent_def ended_def closeWrite_def)

lemma dir_over: "dirInv i ov (PDone ok) e d \<Longrightarrow> dirInv i True (PDone ok) (e\<lparr>en_closed := True\<rparr>) (d\<lparr>en_closed := True\<rparr>)"
  by (auto simp: dirInv_def sent_def ended_def allBytes_def)

lemma relayInv_upd:
  assumes "relayInv input y" "dirInv (input s) (rl_over y) p src dst"
    and "\<And>x. dirInv (input (peer s)) (rl_over y) (rl_pump y (peer s)) dst x = dirInv (input (peer s)) (rl_over y) (rl_pump y (peer s)) (rl_conn y (peer s)) x"
    and "en_out src = en_out (rl_conn y s)" "en_shut src = en_shut (rl_conn y s)"
  shows "relayInv input (y\<lparr>rl_pump := (rl_pump y)(s := p), rl_conn := (rl_conn y)(s := src, peer s := dst)\<rparr>)"
  unfolding relayInv_def
proof
  fix t
  have old: "dirInv (input (peer s)) (rl_over y) (rl_pump y (peer s)) (rl_conn y (peer s)) (rl_conn y s)"
    using assms(1) peer_simps(1) [of s] unfolding relayInv_def by metis
  consider "t = s" | "t = peer s" using side_cases by blast
  then show "dirInv (input t) (rl_over (y\<lparr>rl_pump := (rl_pump y)(s := p), rl_conn := (rl_conn y)(s := src, peer s := dst)\<rparr>))
      (rl_pump (y\<lparr>rl_pump := (rl_pump y)(s := p), rl_conn := (rl_conn y)(s := src, peer s := dst)\<rparr>) t)
      (rl_conn (y\<lparr>rl_pump := (rl_pump y)(s := p), rl_conn := (rl_conn y)(s := src, peer s := dst)\<rparr>) t)
      (rl_conn (y\<lparr>rl_pump := (rl_pump y)(s := p), rl_conn := (rl_conn y)(s := src, peer s := dst)\<rparr>) (peer t))"
  proof cases
    case 1
    then show ?thesis using assms(2) by simp
  next
    case 2
    then show ?thesis using assms(3) dirInv_dst [OF old assms(4,5)] by simp
  qed
qed

lemma relay_step_inv:
  assumes "relayStep y y'" "relayInv input y"
  shows "relayInv input y'"
proof -
  have d: "dirInv (input s) (rl_over y) (rl_pump y s) (rl_conn y s) (rl_conn y (peer s))" for s
    using assms(2) by (simp add: relayInv_def)
  note upd = relayInv_upd [OF assms(2)]
  from assms(1) show ?thesis
  proof (cases rule: relayStep.cases)
    case (read_data s bs err src)
    have "dirInv (input s) (rl_over y) (PWrite bs err) src (rl_conn y (peer s))"
      using dir_read [OF _ read_data(3,4)] d [of s] read_data(2) by simp
    from upd [OF this] show ?thesis using read_data(1) nextRead_facts [OF read_data(3)] by simp
  next
    case (read_empty s err src p src')
    have "dirInv (input s) (rl_over y) p src' (rl_conn y (peer s))"
      using dir_empty [OF _ read_empty(3,4)] d [of s] read_empty(2) by simp
    from upd [OF this] show ?thesis
      using read_empty(1) nextRead_facts [OF read_empty(3)] afterWrite_facts [OF read_empty(4)] by simp
  next
    case (write_ok s bs err p src)
    have "dirInv (input s) (rl_over y) p src ((rl_conn y (peer s))\<lparr>en_out := en_out (rl_conn y (peer s)) @ bs\<rparr>)"
      using dir_write [OF _ write_ok(4)] d [of s] write_ok(2) by simp
    from upd [OF this] show ?thesis using write_ok(1) afterWrite_facts [OF write_ok(4)] by (simp add: dirInv_frame)
  next
    case (write_fail s bs err k)
    have "dirInv (input s) (rl_over y) (PShut False) (rl_conn y s) ((rl_conn y (peer s))\<lparr>en_out := en_out (rl_conn y (peer s)) @ take k bs\<rparr>)"
      using dir_fail d [of s] write_fail(2) by metis
    from upd [OF this] show ?thesis using write_fail(1) by (simp add: dirInv_frame)
  next
    case (shut s ok)
    have "dirInv (input s) (rl_over y) (PDone ok) (rl_conn y s) (closeWrite (rl_conn y (peer s)))"
      using dir_shut d [of s] shut(2) by metis
    from upd [OF this] show ?thesis using shut(1) by (simp add: dirInv_frame)
  next
    case (over a b)
    have "dirInv (input s) True (rl_pump y s) ((rl_conn y s)\<lparr>en_closed := True\<rparr>) ((rl_conn y (peer s))\<lparr>en_closed := True\<rparr>)" for s
      using dir_over d [of s] over(2,3) by (cases s) metis+
    then show ?thesis using over(1) by (simp add: relayInv_def)
  qed
qed

lemma relay_reach_inv: "relayed_to y0 y \<Longrightarrow> relayInv input y0 \<Longrightarrow> relayInv input y"
  by (induction rule: relayed_to.induct) (auto intro: relay_step_inv)

definition fresh :: "endpoint \<Rightarrow> bool" where
  "fresh e \<longleftrightarrow> en_got e = [] \<and> en_out e = [] \<and> \<not> en_shut e \<and> \<not> en_closed e"

lemma start_inv:
  assumes "fresh l" "fresh r"
  shows "relayInv (\<lambda>s. allBytes (rl_conn (startRelay l r) s)) (startRelay l r)"
  using assms by (auto simp: relayInv_def dirInv_def startRelay_def fresh_def sent_def split: side.split)

section \<open>Delivery\<close>

text \<open>C17: what a tunnel delivers.  At every moment and in both directions, the bytes written to a connection are a prefix of the bytes read
  from the other one, themselves a prefix of what its peer sends; they are all of them once the direction is done,
  unless a write failed.  A connection is half-closed only after the pump that writes to it is done, so
  nothing is written after it; and before both are done a connection is closed only by the pump that reads from
  it, after a failed read whose bytes were all delivered.  A failed write closes neither connection.\<close>

theorem relay_delivers:
  assumes "fresh l" "fresh r" "relayed_to (startRelay l r) y"
  shows "prefix (en_out (rl_conn y (peer s))) (en_got (rl_conn y s)) \<and>
    en_got (rl_conn y s) @ concat (map fst (en_reads (rl_conn y s))) = allBytes (rl_conn (startRelay l r) s) \<and>
    (rl_pump y s = PDone True \<longrightarrow> en_out (rl_conn y (peer s)) = en_got (rl_conn y s)) \<and>
    (en_shut (rl_conn y (peer s)) \<longrightarrow> (\<exists>ok. rl_pump y s = PDone ok)) \<and>
    (en_closed (rl_conn y s) \<and> \<not> rl_over y \<longrightarrow> rl_pump y s \<in> {PShut True, PDone True})"
proof -
  have "relayInv (\<lambda>s. allBytes (rl_conn (startRelay l r) s)) y"
    by (rule relay_reach_inv [OF assms(3) start_inv [OF assms(1,2)]])
  then have i: "dirInv (allBytes (rl_conn (startRelay l r) s)) (rl_over y) (rl_pump y s) (rl_conn y s) (rl_conn y (peer s))"
    by (simp add: relayInv_def)
  then have "prefix (en_out (rl_conn y (peer s))) (en_got (rl_conn y s))"
    by (auto simp: dirInv_def sent_def split: pump.splits) (metis prefixI)+
  then show ?thesis using i by (auto simp: dirInv_def ended_def sent_def allBytes_def)
qed

text \<open>A client that sends one request and closes its side, and a server that answers.\<close>

definition askingEnd :: endpoint where
  "askingEnd = \<lparr>en_reads = [(''ask'', Some EOF)], en_got = [], en_out = [], en_tcp = True, en_shut = False, en_closed = False\<rparr>"

lemma fresh_asking: "fresh askingEnd"
  by (simp add: fresh_def askingEnd_def)

lemma asking_delivered:
  "\<exists>y. relayed_to (startRelay askingEnd askingEnd) y \<and> rl_pump y LeftConn = PDone True \<and> en_got (rl_conn y LeftConn) = ''ask''"
proof -
  let ?y0 = "startRelay askingEnd askingEnd"
  let ?src = "askingEnd\<lparr>en_reads := [], en_got := ''ask''\<rparr>"
  let ?y1 = "?y0\<lparr>rl_pump := (rl_pump ?y0)(LeftConn := PWrite ''ask'' (Some EOF)), rl_conn := (rl_conn ?y0)(LeftConn := ?src)\<rparr>"
  let ?y2 = "?y1\<lparr>rl_pump := (rl_pump ?y1)(LeftConn := PShut True), rl_conn := (rl_conn ?y1)(LeftConn := ?src,
      peer LeftConn := (rl_conn ?y1 (peer LeftConn))\<lparr>en_out := en_out (rl_conn ?y1 (peer LeftConn)) @ ''ask''\<rparr>)\<rparr>"
  let ?y3 = "?y2\<lparr>rl_pump := (rl_pump ?y2)(LeftConn := PDone True), rl_conn := (rl_conn ?y2)(peer LeftConn := closeWrite (rl_conn ?y2 (peer LeftConn)))\<rparr>"
  have "relayStep ?y0 ?y1"
    by (rule read_data) (simp_all add: startRelay_def nextRead_def askingEnd_def relayBufferSize_def)
  moreover have "relayStep ?y1 ?y2"
    by (rule write_ok [where err = "Some EOF"]) (simp_all add: startRelay_def afterWrite_def askingEnd_def)
  moreover have "relayStep ?y2 ?y3" by (rule shut) simp
  ultimately have "relayed_to ?y0 ?y3" by (meson relay_start relay_more)
  then show ?thesis by (intro exI [of _ ?y3]) simp
qed

theorem relay_delivers_witness:
  "\<exists>y. relayed_to (startRelay askingEnd askingEnd) y \<and> en_out (rl_conn y RightConn) = ''ask''"
proof -
  obtain y where y: "relayed_to (startRelay askingEnd askingEnd) y" "rl_pump y LeftConn = PDone True" "en_got (rl_conn y LeftConn) = ''ask''"
    using asking_delivered by blast
  then show ?thesis using relay_delivers [OF fresh_asking fresh_asking y(1), of LeftConn] by auto
qed

section \<open>Termination\<close>

definition todo :: "endpoint \<Rightarrow> nat" where
  "todo e = sum_list (map (\<lambda>(bs, err). length bs + 1) (en_reads e))"

fun pumpWork :: "pump \<Rightarrow> nat" where
  "pumpWork (PWrite bs err) = 4" | "pumpWork PRead = 3" | "pumpWork (PShut ok) = 2" | "pumpWork (PDone ok) = 1"

definition dirWork :: "relay \<Rightarrow> side \<Rightarrow> nat" where
  "dirWork y s = 3 * todo (rl_conn y s) + pumpWork (rl_pump y s)"

definition relayWork :: "relay \<Rightarrow> nat" where
  "relayWork y = dirWork y LeftConn + dirWork y RightConn + (if rl_over y then 0 else 1)"

lemma todo_nextRead:
  assumes "nextRead e = ((bs, err), e')"
  shows "todo e' < todo e \<or> en_reads e = [] \<and> e' = e \<and> bs = [] \<and> err = Some OtherErr"
  using assms by (auto simp: nextRead_def todo_def relayBufferSize_def split: list.splits if_splits)

lemma todo_simps [simp]: "todo (e\<lparr>en_out := x\<rparr>) = todo e" "todo (e\<lparr>en_closed := b\<rparr>) = todo e" "todo (closeWrite e) = todo e"
  by (simp_all add: todo_def closeWrite_def)

lemma todo_afterWrite: "afterWrite err e = (p, e') \<Longrightarrow> todo e' = todo e \<and> (p = PRead \<or> p = PShut True)"
  using afterWrite_facts [of err e p e'] by (auto simp: todo_def)

lemma work_upd:
  assumes "dirWork y' s < dirWork y s" "dirWork y' (peer s) \<le> dirWork y (peer s)" "rl_over y' = rl_over y"
  shows "relayWork y' < relayWork y"
  using assms by (cases s) (auto simp: relayWork_def)

lemma relay_step_work: "relayStep y y' \<Longrightarrow> relayWork y' < relayWork y"
proof (induction rule: relayStep.induct)
  case (read_data y s bs err src)
  then show ?case using todo_nextRead [OF read_data(2)] by (intro work_upd [of _ s]) (auto simp: dirWork_def)
next
  case (read_empty y s err src p src')
  then show ?case using todo_nextRead [OF read_empty(2)] todo_afterWrite [OF read_empty(3)]
    by (intro work_upd [of _ s]) (auto simp: dirWork_def afterWrite_def)
next
  case (write_ok y s bs err p src)
  then show ?case using todo_afterWrite [OF write_ok(3)] by (intro work_upd [of _ s]) (auto simp: dirWork_def)
next
  case (write_fail y s bs err k)
  then show ?case by (intro work_upd [of _ s]) (auto simp: dirWork_def)
next
  case (shut y s ok)
  then show ?case by (intro work_upd [of _ s]) (auto simp: dirWork_def)
next
  case (over y a b)
  then show ?case by (simp add: relayWork_def dirWork_def)
qed

lemma pump_progress:
  assumes "dirInv i ov (rl_pump y s) (rl_conn y s) (rl_conn y (peer s))" "\<not> ended (rl_pump y s)"
  shows "\<exists>y'. relayStep y y'"
proof (cases "rl_pump y s")
  case PRead
  obtain bs err src where n: "nextRead (rl_conn y s) = ((bs, err), src)" by (metis surj_pair)
  obtain p src' where a: "afterWrite err src = (p, src')" by fastforce
  show ?thesis
  proof (cases "bs = []")
    case True
    then show ?thesis using relayStep.read_empty [OF PRead _ a] n by blast
  next
    case False
    then show ?thesis using relayStep.read_data [OF PRead n] by blast
  qed
next
  case (PWrite bs err)
  have "0 < length bs" using assms(1) PWrite by (simp add: dirInv_def sent_def)
  then show ?thesis using relayStep.write_fail [OF PWrite] by blast
next
  case (PShut ok)
  then show ?thesis using relayStep.shut by blast
qed (use assms(2) in \<open>simp add: ended_def\<close>)

lemma relay_final: "rl_over y \<Longrightarrow> ended (rl_pump y LeftConn) \<Longrightarrow> ended (rl_pump y RightConn) \<Longrightarrow> \<not> relayStep y y'"
  by (auto simp: ended_def elim!: relayStep.cases) (metis pump.distinct side.exhaust)+

lemma arrive_inv: "arrive y y' \<Longrightarrow> relayInv input y \<Longrightarrow> \<exists>input'. relayInv input' y'"
proof (induction rule: arrive.induct)
  case (arrives y s bs err)
  have d: "dirInv (input t) (rl_over y) (rl_pump y t) (rl_conn y t) (rl_conn y (peer t))" for t
    using arrives(3) by (simp add: relayInv_def)
  let ?e = "(rl_conn y s)\<lparr>en_reads := en_reads (rl_conn y s) @ [(bs, err)]\<rparr>"
  let ?y = "y\<lparr>rl_conn := (rl_conn y)(s := ?e)\<rparr>"
  have "dirInv (input s @ bs) (rl_over y) (rl_pump y s) ?e (rl_conn y (peer s))"
    using d [of s] by (auto simp: dirInv_def allBytes_def)
  moreover have "dirInv (input (peer s)) (rl_over y) (rl_pump y (peer s)) (rl_conn y (peer s)) ?e"
    using d [of "peer s"] by (simp add: dirInv_def)
  ultimately have "dirInv ((input(s := input s @ bs)) t) (rl_over ?y) (rl_pump ?y t) (rl_conn ?y t) (rl_conn ?y (peer t))" for t
    using side_cases [of t s] by auto
  then have "relayInv (input(s := input s @ bs)) ?y" by (simp add: relayInv_def)
  then show ?case by blast
qed

lemma open_inv: "open_to y0 y \<Longrightarrow> relayInv input y0 \<Longrightarrow> \<exists>input'. relayInv input' y"
  by (induction rule: open_to.induct) (use relay_step_inv arrive_inv in blast)+

lemma relay_wf: "wf {(y2, y1). relayStep y1 y2}"
  by (rule wf_subset [OF wf_measure [of relayWork]]) (use relay_step_work in auto)

lemma relay_progress:
  assumes "relayInv input y" "\<not> rl_over y"
  shows "\<exists>y'. relayStep y y'"
proof (cases "ended (rl_pump y LeftConn) \<and> ended (rl_pump y RightConn)")
  case True
  then obtain a b where "rl_pump y LeftConn = PDone a" "rl_pump y RightConn = PDone b" by (auto simp: ended_def)
  then show ?thesis using relayStep.over assms(2) by blast
next
  case False
  have "dirInv (input s) (rl_over y) (rl_pump y s) (rl_conn y s) (rl_conn y (peer s))" for s
    using assms(1) by (simp add: relayInv_def)
  then show ?thesis using pump_progress False by blast
qed

lemma endless_needs_arrivals:
  assumes "\<forall>n. relayStep (f n) (f (Suc n)) \<or> arrive (f n) (f (Suc n))"
  shows "infinite {n. arrive (f n) (f (Suc n))}"
proof
  assume "finite {n. arrive (f n) (f (Suc n))}"
  then obtain N where "\<forall>n\<in>{n. arrive (f n) (f (Suc n))}. n \<le> N" by (meson finite_nat_set_iff_bounded_le)
  then have "\<forall>n. relayStep (f (Suc N + n)) (f (Suc N + Suc n))" using assms by fastforce
  then have "\<exists>g. \<forall>n. (g (Suc n), g n) \<in> {(y2, y1). relayStep y1 y2}"
    by (intro exI [of _ "\<lambda>n. f (Suc N + n)"]) simp
  then show False using relay_wf wf_iff_no_infinite_down_chain by blast
qed

text \<open>C30: a tunnel ends, unless a peer keeps sending for ever.  In the relay together with its peers, every endless run has
  infinitely many arrivals of bytes, ends or resets from the peers: between two of them, and after the last, the relay takes only
  finitely many steps.  It is never stuck: as long as it is not over some step of its own is possible, the idle deadline being the
  answer of a silent peer; and when it is over both connections are closed and nothing of it moves any more.\<close>

theorem relay_ends:
  assumes "fresh l" "fresh r"
  shows "(\<forall>f. f 0 = startRelay l r \<and> (\<forall>n. relayStep (f n) (f (Suc n)) \<or> arrive (f n) (f (Suc n))) \<longrightarrow>
      infinite {n. arrive (f n) (f (Suc n))}) \<and>
    (\<forall>y. open_to (startRelay l r) y \<longrightarrow>
      (if rl_over y then en_closed (rl_conn y LeftConn) \<and> en_closed (rl_conn y RightConn) \<and> (\<forall>y'. \<not> relayStep y y')
       else \<exists>y'. relayStep y y'))"
proof -
  have "if rl_over y then en_closed (rl_conn y LeftConn) \<and> en_closed (rl_conn y RightConn) \<and> (\<forall>y'. \<not> relayStep y y')
       else \<exists>y'. relayStep y y'" if yo: "open_to (startRelay l r) y" for y
  proof -
    obtain input where i: "relayInv input y" using open_inv [OF yo start_inv [OF assms]] by blast
    then have "ended (rl_pump y s)" "en_closed (rl_conn y s)" if "rl_over y" for s
      using that by (simp_all add: relayInv_def dirInv_def)
    then show ?thesis using relay_progress [OF i] relay_final by simp
  qed
  then show ?thesis using endless_needs_arrivals by simp
qed

theorem relay_ends_witness:
  "(\<exists>y'. relayStep (startRelay askingEnd askingEnd) y') \<and>
   \<not> (\<exists>f. f 0 = startRelay askingEnd askingEnd \<and> (\<forall>n. relayStep (f n) (f (Suc n)) \<or> arrive (f n) (f (Suc n))) \<and>
       finite {n. arrive (f n) (f (Suc n))})"
proof -
  have "\<not> rl_over (startRelay askingEnd askingEnd)" by (simp add: startRelay_def)
  then show ?thesis using relay_ends [OF fresh_asking fresh_asking] open_start by metis
qed

text \<open>The condition is needed: a peer that sends a byte before each deadline keeps the relay running for ever.\<close>

definition busy :: "nat \<Rightarrow> string \<Rightarrow> relay" where
  "busy k pending =
     \<lparr>rl_pump = (\<lambda>_. PRead), rl_conn = (\<lambda>s. case s of
        LeftConn \<Rightarrow> \<lparr>en_reads = map (\<lambda>c. ([c], None)) pending, en_got = replicate k CHR ''x'', en_out = [], en_tcp = True, en_shut = False, en_closed = False\<rparr>
      | RightConn \<Rightarrow> \<lparr>en_reads = [], en_got = [], en_out = replicate k CHR ''x'', en_tcp = True, en_shut = False, en_closed = False\<rparr>), rl_over = False\<rparr>"

definition writing :: "nat \<Rightarrow> relay" where
  "writing k = (busy k [])\<lparr>rl_pump := (\<lambda>_. PRead)(LeftConn := PWrite ''x'' None), rl_conn := (rl_conn (busy k []))(LeftConn :=
     (rl_conn (busy k []) LeftConn)\<lparr>en_got := replicate k CHR ''x'' @ ''x''\<rparr>)\<rparr>"

lemma busy_cycle: "arrive (busy k []) (busy k ''x'')" "relayStep (busy k ''x'') (writing k)" "relayStep (writing k) (busy (Suc k) [])"
proof -
  have r: "replicate k CHR ''x'' @ ''x'' = CHR ''x'' # replicate k CHR ''x''" using replicate_append_same by fastforce
  have "arrive (busy k []) ((busy k [])\<lparr>rl_conn := (rl_conn (busy k []))(LeftConn :=
      (rl_conn (busy k []) LeftConn)\<lparr>en_reads := en_reads (rl_conn (busy k []) LeftConn) @ [(''x'', None)]\<rparr>)\<rparr>)"
    by (rule arrive.arrives) (simp_all add: busy_def)
  also have "(busy k [])\<lparr>rl_conn := (rl_conn (busy k []))(LeftConn :=
      (rl_conn (busy k []) LeftConn)\<lparr>en_reads := en_reads (rl_conn (busy k []) LeftConn) @ [(''x'', None)]\<rparr>)\<rparr> = busy k ''x''"
    by (auto simp: busy_def fun_eq_iff split: side.split)
  finally show "arrive (busy k []) (busy k ''x'')" .
  have n: "nextRead (rl_conn (busy k ''x'') LeftConn) = ((''x'', None), rl_conn (writing k) LeftConn)"
    by (simp add: nextRead_def busy_def writing_def relayBufferSize_def)
  have "relayStep (busy k ''x'') ((busy k ''x'')\<lparr>rl_pump := (rl_pump (busy k ''x''))(LeftConn := PWrite ''x'' None),
      rl_conn := (rl_conn (busy k ''x''))(LeftConn := rl_conn (writing k) LeftConn)\<rparr>)"
    by (rule relayStep.read_data [OF _ n]) (simp_all add: busy_def)
  also have "(busy k ''x'')\<lparr>rl_pump := (rl_pump (busy k ''x''))(LeftConn := PWrite ''x'' None),
      rl_conn := (rl_conn (busy k ''x''))(LeftConn := rl_conn (writing k) LeftConn)\<rparr> = writing k"
    by (auto simp: busy_def writing_def fun_eq_iff split: side.split)
  finally show "relayStep (busy k ''x'') (writing k)" .
  have "relayStep (writing k) ((writing k)\<lparr>rl_pump := (rl_pump (writing k))(LeftConn := PRead), rl_conn := (rl_conn (writing k))(
      LeftConn := rl_conn (writing k) LeftConn, peer LeftConn := (rl_conn (writing k) (peer LeftConn))\<lparr>en_out := en_out (rl_conn (writing k) (peer LeftConn)) @ ''x''\<rparr>)\<rparr>)"
    by (rule relayStep.write_ok [where err = None]) (simp_all add: writing_def busy_def afterWrite_def)
  also have "(writing k)\<lparr>rl_pump := (rl_pump (writing k))(LeftConn := PRead), rl_conn := (rl_conn (writing k))(
      LeftConn := rl_conn (writing k) LeftConn, peer LeftConn := (rl_conn (writing k) (peer LeftConn))\<lparr>en_out := en_out (rl_conn (writing k) (peer LeftConn)) @ ''x''\<rparr>)\<rparr> = busy (Suc k) []"
    by (auto simp: busy_def writing_def fun_eq_iff r split: side.split)
  finally show "relayStep (writing k) (busy (Suc k) [])" .
qed

lemma relay_endless:
  "\<exists>f. f 0 = busy 0 [] \<and> (\<forall>n. relayStep (f n) (f (Suc n)) \<or> arrive (f n) (f (Suc n))) \<and> (\<forall>n. \<not> rl_over (f n))"
proof -
  define f where "f n = (if n mod 3 = 0 then busy (n div 3) [] else if n mod 3 = 1 then busy (n div 3) ''x'' else writing (n div 3))" for n
  have "relayStep (f n) (f (Suc n)) \<or> arrive (f n) (f (Suc n))" for n
  proof -
    consider "n mod 3 = 0" | "n mod 3 = 1" | "n mod 3 = 2" by linarith
    then show ?thesis
      by cases (use busy_cycle [of "n div 3"] in \<open>simp_all add: f_def mod_Suc div_Suc\<close>)
  qed
  moreover have "\<not> rl_over (f n)" "f 0 = busy 0 []" for n by (simp_all add: f_def busy_def writing_def)
  ultimately show ?thesis by blast
qed

end
