(* ===== verification/Px_Main.thy ===== *)
theory Px_Main
  imports Proxy_Server
begin

text \<open>
  \<^verbatim>\<open>cmd/px/main.go\<close> and the operations of \<^verbatim>\<open>config.go\<close> that only it calls: saving, the health check and opening the log.
  What the process changes outside is the record \<open>mainWorld\<close>; what it is told by the file system, the terminal,
  the key ring package, other processes and the server it runs is \<open>mainEnv\<close>.
\<close>

section \<open>The outside\<close>

datatype savedConfig = SavedTOML tomlConfig | SavedINI "(string \<times> string \<times> string) list"

datatype logOutput = Discard | Stdout | LogFile string

text \<open>A log record: its message and its attributes.\<close>

datatype attr = AStr string | AInt int | ABool bool | ADuration int | ALevel logLevel

type_synonym logRecord = "string \<times> (string \<times> attr) list"

text \<open>What test mode does to its server: start it, cancel its context, shut it down.\<close>

datatype testAct = TestStart | TestCancel | TestShutdown

record mainWorld =
  mw_keyring :: "string \<Rightarrow> string \<Rightarrow> string option"
  mw_saved :: "string \<Rightarrow> savedConfig option"
  mw_fetched :: "string list"
  mw_printed :: "string list"
  mw_log :: "logOutput option"
  mw_logged :: "logRecord list"
  mw_started :: bool
  mw_test :: "testAct list"

text \<open>The reply to a request of the process itself: status, status text and body.\<close>

record getReply =
  gr_status :: int
  gr_text :: string
  gr_body :: string

text \<open>\<open>me_ready\<close> is what the i-th health check of test mode is answered while the server starts, and \<open>me_startDone\<close> what \<^verbatim>\<open>Start\<close> has
  returned within two seconds of the shutdown, if it has.\<close>

record 'p mainEnv =
  me_os :: osEnv
  me_nanos :: int
  me_get :: "string \<Rightarrow> getReply option"
  me_mkdir :: "string \<Rightarrow> bool"
  me_create :: "string \<Rightarrow> bool"
  me_password :: "string option"
  me_keyringOk :: bool
  me_install :: "string \<Rightarrow> string option"
  me_uninstall :: "string option"
  me_new :: "config \<Rightarrow> 'p go_result"
  me_start :: "'p \<Rightarrow> string option"
  me_testGet :: "'p \<Rightarrow> string \<Rightarrow> getReply option"
  me_ready :: "nat \<Rightarrow> string \<Rightarrow> getReply option"
  me_shutdownErr :: "'p \<Rightarrow> string option"
  me_startDone :: "'p \<Rightarrow> string option option"
  me_version :: string
  me_commit :: string
  me_date :: string

definition failed :: "string option \<Rightarrow> unit go_result" where
  "failed e = (case e of None \<Rightarrow> Return () | Some err \<Rightarrow> Error err)"

section \<open>Operations of the configuration package\<close>

text \<open>\<open>createOk\<close> stands for creating the file and writing it: a failure of the TOML encoder or of \<^verbatim>\<open>SaveTo\<close> on a file that could be
  opened is not told apart from one of the creation.\<close>

definition saveConfig :: "(string \<Rightarrow> bool) \<Rightarrow> (string \<Rightarrow> bool) \<Rightarrow> string \<Rightarrow> config \<Rightarrow> savedConfig go_result" where
  "saveConfig mkdirOk createOk path c =
     (if \<not> mkdirOk (dirPath path) then Error ''mkdir''
      else if \<not> createOk path then Error ''create''
      else Return (if equalFold (extPath path) ''.toml'' then SavedTOML (saveTOML c) else SavedINI (saveINI c)))"

definition healthCheck :: "(string \<Rightarrow> getReply option) \<Rightarrow> int \<Rightarrow> unit go_result" where
  "healthCheck get port =
     (case get (''http://127.0.0.1:'' @ itoa port @ ''/health'') of
        None \<Rightarrow> Error ''get''
      | Some resp \<Rightarrow> if gr_status resp \<noteq> 200 then Error (''health check returned '' @ gr_text resp) else Return ())"

definition newLogger :: "osEnv \<Rightarrow> int \<Rightarrow> (string \<Rightarrow> bool) \<Rightarrow> (string \<Rightarrow> bool) \<Rightarrow> config \<Rightarrow> (logOutput \<times> logLevel) go_result" where
  "newLogger w nanos mkdirOk createOk c =
     (let s = cf_settings c; path = resolveLogPath w nanos c
      in if st_log s = 0 then Return (Discard, st_logLevel s)
         else if st_log s = 4 then Return (Stdout, st_logLevel s)
         else if path = [] then Return (Discard, st_logLevel s)
         else if \<not> mkdirOk (dirPath path) then Error ''create log directory: mkdir''
         else if \<not> createOk path then Error (''open log file '' @ path @ '': open'')
         else Return (LogFile path, st_logLevel s))"

section \<open>The command line\<close>

definition quitRunning :: "(string \<Rightarrow> getReply option) \<Rightarrow> int \<Rightarrow> unit go_result" where
  "quitRunning get port =
     (case get (''http://127.0.0.1:'' @ itoa port @ ''/PxQuit'') of
        None \<Rightarrow> Error ''get''
      | Some resp \<Rightarrow> if gr_status resp \<noteq> 200 then Error (''quit failed: '' @ gr_text resp @ '' '' @ gr_body resp) else Return ())"

text \<open>\<^verbatim>\<open>setPassword\<close> and \<^verbatim>\<open>setClientPassword\<close> after their user name: what is printed, read and stored.\<close>

definition storePassword :: "'p mainEnv \<Rightarrow> string \<Rightarrow> string \<Rightarrow> string \<Rightarrow> mainWorld \<Rightarrow> unit go_result \<times> mainWorld" where
  "storePassword env service what username w0 =
     (let w = w0\<lparr>mw_printed := mw_printed w0 @ [''Setting '' @ what @ '' for '' @ [CHR 0x27] @ username @ [CHR 0x27], ''Enter password: '', []]\<rparr>
      in case me_password env of
           None \<Rightarrow> (Error ''read password'', w)
         | Some pwd \<Rightarrow>
             if pwd = [] then (Error ''password cannot be empty'', w)
             else if \<not> me_keyringOk env then (Error ''keyring'', w)
             else (Return (), w\<lparr>mw_keyring := (mw_keyring w)(service := (mw_keyring w service)(username \<mapsto> pwd)),
                     mw_printed := mw_printed w @ [''Saved successfully'']\<rparr>))"

definition setPassword :: "'p mainEnv \<Rightarrow> config \<Rightarrow> mainWorld \<Rightarrow> unit go_result \<times> mainWorld" where
  "setPassword env cfg w =
     (let username = pc_username (cf_proxy cfg)
      in if username = [] then (Error ''--username is required to set password'', w)
         else storePassword env ''Px'' ''password'' username w)"

definition setClientPassword :: "'p mainEnv \<Rightarrow> config \<Rightarrow> mainWorld \<Rightarrow> unit go_result \<times> mainWorld" where
  "setClientPassword env cfg w =
     (let username = cc_username (cf_client cfg)
      in if username = [] then (Error ''--client-username is required to set client password'', w)
         else storePassword env ''PxClient'' ''client password'' username w)"

text \<open>\<^verbatim>\<open>runTestMode\<close>.  The deferred \<^verbatim>\<open>cancel\<close> is the one of a request that failed with a status.  An error that is a cancelled context
  does not count.\<close>

fun healthAttempts :: "(nat \<Rightarrow> string \<Rightarrow> getReply option) \<Rightarrow> int \<Rightarrow> nat \<Rightarrow> nat \<Rightarrow> nat" where
  "healthAttempts get port i 0 = i"
| "healthAttempts get port i (Suc n) = (if healthCheck (get i) port = Return () then Suc i else healthAttempts get port (Suc i) n)"

definition realError :: "string option \<Rightarrow> string option" where
  "realError e = (if e = Some ''context canceled'' then None else e)"

definition testTarget :: "config \<Rightarrow> string" where
  "testTarget cfg =
     (let target = sp_testURL (cf_special cfg)
      in if target = ''all'' \<or> target = ''1'' \<or> target = ''true'' then ''http://httpbin.org/get'' else target)"

definition runTestMode :: "'p mainEnv \<Rightarrow> config \<Rightarrow> 'p \<Rightarrow> mainWorld \<Rightarrow> unit go_result \<times> mainWorld" where
  "runTestMode env cfg srv w =
     (let port = pc_port (cf_proxy cfg);
          checks = replicate (healthAttempts (me_ready env) port 0 25) (''http://127.0.0.1:'' @ itoa port @ ''/health'');
          w1 = w\<lparr>mw_fetched := mw_fetched w @ checks @ [testTarget cfg], mw_started := True, mw_test := mw_test w @ [TestStart]\<rparr>
      in case me_testGet env srv (testTarget cfg) of
           None \<Rightarrow> (Error ''get'', w1\<lparr>mw_test := mw_test w1 @ [TestCancel, TestShutdown]\<rparr>)
         | Some resp \<Rightarrow>
             if gr_status resp \<ge> 400 then (Error (''test request failed: '' @ gr_text resp), w1\<lparr>mw_test := mw_test w1 @ [TestCancel]\<rparr>)
             else
               (let w2 = w1\<lparr>mw_test := mw_test w1 @ [TestCancel, TestShutdown]\<rparr>
                in case realError (me_shutdownErr env srv) of
                     Some e \<Rightarrow> (Error e, w2)
                   | None \<Rightarrow> (case me_startDone env srv of Some err \<Rightarrow> (failed (realError err), w2) | None \<Rightarrow> (Return (), w2))))"

definition restartFirst :: "'p mainEnv \<Rightarrow> config \<Rightarrow> mainWorld \<Rightarrow> mainWorld" where
  "restartFirst env cfg w =
     (if sp_restart (cf_special cfg)
      then w\<lparr>mw_fetched := mw_fetched w @ [''http://127.0.0.1:'' @ itoa (pc_port (cf_proxy cfg)) @ ''/PxQuit'']\<rparr> else w)"

definition startupInfo :: "string \<Rightarrow> config \<Rightarrow> logRecord list" where
  "startupInfo version cfg =
     (let p = cf_proxy cfg; s = cf_settings cfg
      in [(''starting px'', [(''version'', AStr version), (''port'', AInt (pc_port p)), (''config'', AStr (sp_configPath (cf_special cfg)))]),
          (''listen configuration'', [(''listen'', AStr (joinStr '', '' (ListenAddresses cfg))), (''gateway'', ABool (pc_gateway p)),
             (''hostonly'', ABool (pc_hostOnly p))])] @
         (if pc_server p \<noteq> [] then [(''upstream proxy'', [(''servers'', AStr (joinStr '', '' (pc_server p)))])] else []) @
         (if pc_pac p \<noteq> [] then [(''PAC file configured'', [(''pac'', AStr (pc_pac p))])] else []) @
         (if pc_server p = [] \<and> pc_pac p = [] then [(''no upstream configured, will use platform proxy discovery'', [])] else []) @
         (if pc_noProxy p \<noteq> [] then [(''noproxy (direct connect)'', [(''rules'', AStr (pc_noProxy p))])] else []) @
         (if pc_allow p \<noteq> [] \<and> pc_allow p \<noteq> ''*.*.*.*'' then [(''client allow rules'', [(''allow'', AStr (pc_allow p))])] else []) @
         (if pc_username p \<noteq> [] then [(''upstream auth'', [(''username'', AStr (pc_username p)), (''auth'', AStr (pc_auth p))])]
          else [(''upstream auth'', [(''method'', AStr (pc_auth p)), (''credentials'', AStr ''SSPI/system'')])]) @
         [(''settings'', [(''threads'', AInt (st_threads s)), (''idle'', ADuration (st_idle s)), (''socktimeout'', ADuration (st_sockTimeout s)),
             (''log_level'', ALevel (st_logLevel s))])])"

text \<open>The part of \<^verbatim>\<open>run\<close> that has a log.\<close>

definition runLogged :: "'p mainEnv \<Rightarrow> config \<Rightarrow> mainWorld \<Rightarrow> unit go_result \<times> mainWorld" where
  "runLogged env cfg w0 =
     (let sp = cf_special cfg; w = restartFirst env cfg w0; port = pc_port (cf_proxy cfg)
      in if sp_quit sp then
           (quitRunning (me_get env) port, w\<lparr>mw_fetched := mw_fetched w @ [''http://127.0.0.1:'' @ itoa port @ ''/PxQuit'']\<rparr>)
         else if sp_install sp then (failed (me_install env (sp_configPath sp)), w)
         else if sp_uninstall sp then (failed (me_uninstall env), w)
         else
           (let w1 = (if st_quiet (cf_settings cfg) then w else w\<lparr>mw_logged := mw_logged w @ startupInfo (me_version env) cfg\<rparr>)
            in case me_new env cfg of
                 Error e \<Rightarrow> (Error e, w1)
               | Panic p \<Rightarrow> (Panic p, w1)
               | Return srv \<Rightarrow>
                   if sp_testURL sp \<noteq> [] then runTestMode env cfg srv w1
                   else (failed (me_start env srv), w1\<lparr>mw_started := True\<rparr>)))"

definition run :: "'p mainEnv \<Rightarrow> string list \<Rightarrow> mainWorld \<Rightarrow> unit go_result \<times> mainWorld" where
  "run env args w =
     (case Load (me_os env) args of
        (cfg, Some e) \<Rightarrow> (Error e, w)
      | (cfg, None) \<Rightarrow>
          (let sp = cf_special cfg; port = pc_port (cf_proxy cfg)
           in if sp_version sp then (Return (), w\<lparr>mw_printed := mw_printed w @ [''px '' @ me_version env @ '' '' @ me_commit env @ '' '' @ me_date env]\<rparr>)
              else if sp_healthCheck sp then
                (healthCheck (me_get env) port, w\<lparr>mw_fetched := mw_fetched w @ [''http://127.0.0.1:'' @ itoa port @ ''/health'']\<rparr>)
              else if sp_save sp then
                (let path = (if sp_configPath sp = [] then joinPath [''.'', ''px.toml''] else sp_configPath sp)
                 in case saveConfig (me_mkdir env) (me_create env) path cfg of
                      Return f \<Rightarrow> (Return (), w\<lparr>mw_saved := (mw_saved w)(path \<mapsto> f)\<rparr>)
                    | Error e \<Rightarrow> (Error e, w)
                    | Panic p \<Rightarrow> (Panic p, w))
              else if sp_password sp then setPassword env cfg w
              else if sp_clientPassword sp then setClientPassword env cfg w
              else
                (case newLogger (me_os env) (me_nanos env) (me_mkdir env) (me_create env) cfg of
                   Error e \<Rightarrow> (Error e, w)
                 | Panic p \<Rightarrow> (Panic p, w)
                 | Return (out, level) \<Rightarrow> runLogged env cfg (w\<lparr>mw_log := Some out\<rparr>))))"

text \<open>\<^verbatim>\<open>main\<close>: the exit status and what goes to the standard error.\<close>

definition mainExit :: "unit go_result \<Rightarrow> int \<times> string list" where
  "mainExit res = (case res of Return u \<Rightarrow> (0, []) | Error e \<Rightarrow> (1, [e]) | Panic p \<Rightarrow> (2, [p]))"

section \<open>Asking the running server\<close>

text \<open>The request of \<^verbatim>\<open>healthCheck\<close> and \<^verbatim>\<open>quitRunning\<close> as the server on the same machine sees it.\<close>

definition localRequest :: "string \<Rightarrow> string \<Rightarrow> request" where
  "localRequest path port =
     \<lparr>r_method = ''GET'', r_url = emptyURL\<lparr>u_path := path\<rparr>, r_host = ''127.0.0.1'', r_header = [], r_close = False, r_tls = False,
      r_remoteAddr = joinHostPort (string4 (mk4 127 0 0 1)) port, r_body = []\<rparr>"

definition servedReply :: "(served \<times> ('n, 's) proxyServer) go_result \<Rightarrow> reply option" where
  "servedReply res =
     (case res of Return (Answered rep, px) \<Rightarrow> Some rep | Return (Quitting rep, px) \<Rightarrow> Some rep | _ \<Rightarrow> None)"

definition askServer ::
    "('n, 's) clientEnv \<Rightarrow> tick \<Rightarrow> nat option \<Rightarrow> string \<Rightarrow> ('n, 's) proxyServer \<Rightarrow> string \<Rightarrow> getReply option" where
  "askServer cenv tk conn port px path =
     map_option (\<lambda>rep. \<lparr>gr_status = rp_status rep, gr_text = itoa (rp_status rep), gr_body = rp_body rep\<rparr>)
       (servedReply (serveHTTP cenv tk conn (localRequest path port) px))"

end
