(* ===== verification/Px_Main_Props.thy ===== *)
theory Px_Main_Props
  imports Px_Main Proxy_Server_Props Config_Thms
begin

text \<open>
  Properties of the command line program: which mode does what, that a stored password is the one a server uses, and what the
  health check says about a server.
\<close>

section \<open>Modes\<close>

lemma storePassword_effect:
  assumes "storePassword env service what username w = (res, w')"
  shows "mw_saved w' = mw_saved w" "mw_started w' = mw_started w" "mw_log w' = mw_log w" "mw_fetched w' = mw_fetched w"
    "res = Return () \<Longrightarrow> \<exists>pwd. me_password env = Some pwd \<and> pwd \<noteq> [] \<and>
       mw_keyring w' = (mw_keyring w)(service := (mw_keyring w service)(username \<mapsto> pwd))"
    "res \<noteq> Return () \<Longrightarrow> mw_keyring w' = mw_keyring w" "\<not> is_panic res"
  using assms by (auto simp: storePassword_def Let_def split: option.splits if_splits)

text \<open>Test mode asks for at most 25 health checks and one page, and never leaves its server with a live context.\<close>

lemma healthAttempts_bound: "i \<le> healthAttempts get port i n \<and> healthAttempts get port i n \<le> i + n"
  by (induction n arbitrary: i) (simp, metis Suc_leD Suc_le_mono add_Suc_right add_Suc healthAttempts.simps(2) le_add1 le_refl order_trans)

lemma runTestMode_effect:
  assumes "runTestMode env cfg srv w = (res, w')"
  shows "w'\<lparr>mw_fetched := mw_fetched w, mw_started := mw_started w, mw_test := mw_test w\<rparr> = w"
    "\<exists>n \<le> 25. mw_fetched w' = mw_fetched w @ replicate n (''http://127.0.0.1:'' @ itoa (pc_port (cf_proxy cfg)) @ ''/health'') @ [testTarget cfg]"
    "\<exists>acts. mw_test w' = mw_test w @ TestStart # TestCancel # acts \<and> (res = Return () \<longrightarrow> acts = [TestShutdown])"
  using assms healthAttempts_bound [of 0 "me_ready env" "pc_port (cf_proxy cfg)" 25]
  by (auto simp: runTestMode_def Let_def split: option.splits if_splits)

lemma runLogged_effect:
  assumes "runLogged env cfg w = (res, w')"
  shows "mw_saved w' = mw_saved w \<and> mw_keyring w' = mw_keyring w \<and>
    (mw_started w' \<and> \<not> mw_started w \<longrightarrow> \<not> sp_quit (cf_special cfg) \<and> \<not> sp_install (cf_special cfg) \<and> \<not> sp_uninstall (cf_special cfg))"
proof -
  have "mw_saved w2 = mw_saved w1 \<and> mw_keyring w2 = mw_keyring w1" if "runTestMode env cfg srv w1 = (r, w2)" for srv w1 r w2
    using arg_cong [OF runTestMode_effect(1) [OF that], of mw_saved] arg_cong [OF runTestMode_effect(1) [OF that], of mw_keyring] by simp
  then show ?thesis
    using assms by (auto simp: runLogged_def restartFirst_def Let_def split: if_splits go_result.splits)
qed

definition passwordMode :: "config \<Rightarrow> bool" where
  "passwordMode cfg \<longleftrightarrow> \<not> sp_version (cf_special cfg) \<and> \<not> sp_healthCheck (cf_special cfg) \<and> \<not> sp_save (cf_special cfg) \<and>
     (sp_password (cf_special cfg) \<or> sp_clientPassword (cf_special cfg))"

text \<open>C35.  What a run may change.  A configuration that does not load changes nothing.  Otherwise a file is written only by
  \<^verbatim>\<open>--save\<close>, the key ring only by the password modes and then only for the configured user, with the non-empty password
  that was typed, and a server is started only when no special mode was asked for.\<close>

theorem run_modes:
  assumes "run env args w = (res, w')" "Load (me_os env) args = (cfg, err)"
  shows "(err \<noteq> None \<longrightarrow> w' = w \<and> (\<exists>e. res = Error e)) \<and>
    (mw_saved w' \<noteq> mw_saved w \<longrightarrow> sp_save (cf_special cfg)) \<and>
    (mw_keyring w' \<noteq> mw_keyring w \<longrightarrow> passwordMode cfg \<and>
       (\<exists>pwd. me_password env = Some pwd \<and> pwd \<noteq> [] \<and>
          mw_keyring w' = (if sp_password (cf_special cfg)
            then (mw_keyring w)(''Px'' := (mw_keyring w ''Px'')(pc_username (cf_proxy cfg) \<mapsto> pwd))
            else (mw_keyring w)(''PxClient'' := (mw_keyring w ''PxClient'')(cc_username (cf_client cfg) \<mapsto> pwd))))) \<and>
    (mw_started w' \<and> \<not> mw_started w \<longrightarrow>
       \<not> (sp_version (cf_special cfg) \<or> sp_healthCheck (cf_special cfg) \<or> sp_save (cf_special cfg) \<or> sp_password (cf_special cfg) \<or>
          sp_clientPassword (cf_special cfg) \<or> sp_quit (cf_special cfg) \<or> sp_install (cf_special cfg) \<or> sp_uninstall (cf_special cfg)))"
proof (cases err)
  case (Some e)
  then show ?thesis using assms by (auto simp: run_def)
next
  case None
  let ?sp = "cf_special cfg"
  consider (early) "sp_version ?sp \<or> sp_healthCheck ?sp \<or> sp_save ?sp" | (pw) "passwordMode cfg"
    | (logged) "\<not> (sp_version ?sp \<or> sp_healthCheck ?sp \<or> sp_save ?sp \<or> sp_password ?sp \<or> sp_clientPassword ?sp)"
    by (auto simp: passwordMode_def)
  then show ?thesis
  proof cases
    case early
    then show ?thesis using assms None by (auto simp: run_def Let_def saveConfig_def split: if_splits)
  next
    case pw
    let ?srv = "if sp_password ?sp then ''Px'' else ''PxClient''" and ?u = "if sp_password ?sp then pc_username (cf_proxy cfg) else cc_username (cf_client cfg)"
    consider "w' = w" "res \<noteq> Return ()"
      | what where "storePassword env ?srv what ?u w = (res, w')"
      using assms None pw by (auto simp: run_def passwordMode_def setPassword_def setClientPassword_def Let_def split: if_splits)
    then show ?thesis
    proof cases
      case 2
      note s = storePassword_effect [OF this]
      show ?thesis using s(1,2) s(5,6) pw None by (cases "res = Return ()") (auto split: if_splits)
    qed (simp add: None)
  next
    case logged
    show ?thesis
    proof (cases "newLogger (me_os env) (me_nanos env) (me_mkdir env) (me_create env) cfg")
      case (Return ol)
      obtain out level where "ol = (out, level)" by fastforce
      then have "runLogged env cfg (w\<lparr>mw_log := Some out\<rparr>) = (res, w')" using assms None logged Return by (simp add: run_def Let_def)
      from runLogged_effect [OF this] show ?thesis using logged None by auto
    qed (use assms None logged in \<open>simp_all add: run_def Let_def\<close>)
  qed
qed

section \<open>Passwords\<close>

lemma run_password:
  assumes "run env args w = (Return (), w')" "Load (me_os env) args = (cfg, None)" "passwordMode cfg"
  obtains pwd where "me_password env = Some pwd" "pwd \<noteq> []"
    "if sp_password (cf_special cfg) then pc_username (cf_proxy cfg) \<noteq> [] \<and> mw_keyring w' ''Px'' (pc_username (cf_proxy cfg)) = Some pwd
     else cc_username (cf_client cfg) \<noteq> [] \<and> mw_keyring w' ''PxClient'' (cc_username (cf_client cfg)) = Some pwd"
proof (cases "sp_password (cf_special cfg)")
  case True
  then have s: "storePassword env ''Px'' ''password'' (pc_username (cf_proxy cfg)) w = (Return (), w')" "pc_username (cf_proxy cfg) \<noteq> []"
    using assms by (auto simp: run_def passwordMode_def setPassword_def Let_def split: if_splits)
  from storePassword_effect(5) [OF s(1)] s(2) True that show ?thesis by auto
next
  case False
  then have s: "storePassword env ''PxClient'' ''client password'' (cc_username (cf_client cfg)) w = (Return (), w')" "cc_username (cf_client cfg) \<noteq> []"
    using assms by (auto simp: run_def passwordMode_def setClientPassword_def Let_def split: if_splits)
  from storePassword_effect(5) [OF s(1)] s(2) False that show ?thesis by auto
qed


section \<open>The health check\<close>

text \<open>A request of another process on the same machine.  It reaches the server when one of its listeners accepts connections to
  127.0.0.1 and the port of the URL; a listener accepts on all addresses when its host is empty or an unspecified address
  (\<^verbatim>\<open>net.Listen\<close>).  \<open>bound\<close> is the address the resolver gives for a listen name, and \<open>elsewhere\<close> what the network answers for every other
  URL, nothing when nobody listens there.\<close>

definition listenAddr :: "(string \<Rightarrow> addr option) \<Rightarrow> string \<Rightarrow> addr option" where
  "listenAddr bound host = (case parseAddr host of Some a \<Rightarrow> Some a | None \<Rightarrow> bound host)"

definition acceptsAt :: "(string \<Rightarrow> addr option) \<Rightarrow> addr \<Rightarrow> string \<Rightarrow> string \<Rightarrow> bool" where
  "acceptsAt bound dest port listener =
     (case splitHostPort listener of
        None \<Rightarrow> False
      | Some (host, p) \<Rightarrow> p = port \<and> (host = [] \<or> listenAddr bound host \<in> {Some dest, Some (V4 0), Some (V6 0 [])}))"

definition urlTarget :: "string \<Rightarrow> (string \<times> string \<times> string) option" where
  "urlTarget url =
     (if \<not> hasPrefix url ''http://'' then None
      else (case cutChar CHR ''/'' (drop 7 url) of (authority, path, ok) \<Rightarrow>
        map_option (\<lambda>(host, port). (host, port, CHR ''/'' # path)) (splitHostPort authority)))"

definition getFrom ::
    "('n, 's) clientEnv \<Rightarrow> tick \<Rightarrow> nat option \<Rightarrow> string \<Rightarrow> (string \<Rightarrow> addr option) \<Rightarrow> (string \<Rightarrow> getReply option) \<Rightarrow> ('n, 's) proxyServer \<Rightarrow> string \<Rightarrow> getReply option" where
  "getFrom cenv tk conn eph bound elsewhere px url =
     (case urlTarget url of
        None \<Rightarrow> elsewhere url
      | Some (host, port, path) \<Rightarrow>
          if parseAddr host = Some (V4 (mk4 127 0 0 1)) \<and> list_ex (acceptsAt bound (V4 (mk4 127 0 0 1)) port) (px_listening px)
          then askServer cenv tk conn eph px path else elsewhere url)"

lemma listenAll_ok: "listenAll bindOk addrs px = (True, px') \<Longrightarrow> px' = px\<lparr>px_listening := px_listening px @ addrs\<rparr>"
proof (induction addrs arbitrary: px)
  case (Cons a addrs)
  then show ?case using Cons.IH [of "px\<lparr>px_listening := px_listening px @ [a]\<rparr>"] by (simp split: if_splits)
qed simp

lemma itoa_port:
  assumes "1 \<le> p" "p \<le> (65535 :: int)"
  shows "CHR '':'' \<notin> set (itoa p)" "CHR ''['' \<notin> set (itoa p)" "CHR '']'' \<notin> set (itoa p)" "CHR ''/'' \<notin> set (itoa p)"
    and "1 \<le> q \<Longrightarrow> q \<le> 65535 \<Longrightarrow> itoa p = itoa q \<longleftrightarrow> p = q"
proof -
  have i: "itoa p = itoaNat (nat p)" using assms by (simp add: itoa_def)
  show "CHR '':'' \<notin> set (itoa p)" "CHR ''['' \<notin> set (itoa p)" "CHR '']'' \<notin> set (itoa p)" "CHR ''/'' \<notin> set (itoa p)"
    unfolding i using itoaNat_chars by fastforce+
  show "itoa p = itoa q \<longleftrightarrow> p = q" if "1 \<le> q" "q \<le> 65535"
  proof
    assume "itoa p = itoa q"
    moreover have "atoi (itoa p) = Some p" "atoi (itoa q) = Some q" using assms that by (simp_all add: atoi_itoa)
    ultimately show "p = q" by (metis option.inject)
  qed simp
qed

text \<open>Which configurations a request to 127.0.0.1 and a port reaches.\<close>

definition reachable :: "(string \<Rightarrow> addr option) \<Rightarrow> config \<Rightarrow> int \<Rightarrow> bool" where
  "reachable bound cfg port \<longleftrightarrow> port = pc_port (cf_proxy cfg) \<and>
     (pc_gateway (cf_proxy cfg) \<or> pc_hostOnly (cf_proxy cfg) \<or>
      (\<exists>l\<in>set (pc_listen (cf_proxy cfg)). l = [] \<or> listenAddr bound l \<in> {Some (V4 (mk4 127 0 0 1)), Some (V4 0), Some (V6 0 [])}))"

lemma listening_reachable:
  assumes "1 \<le> pc_port (cf_proxy cfg)" "pc_port (cf_proxy cfg) \<le> 65535" "1 \<le> port" "port \<le> 65535"
    and "\<forall>l\<in>set (pc_listen (cf_proxy cfg)). CHR ''['' \<notin> set l \<and> CHR '']'' \<notin> set l"
  shows "list_ex (acceptsAt bound (V4 (mk4 127 0 0 1)) (itoa port)) (ListenAddresses cfg) \<longleftrightarrow> reachable bound cfg port"
proof -
  let ?p = "pc_port (cf_proxy cfg)"
  note c = itoa_port [OF assms(1,2)]
  have join: "splitHostPort (joinHostPort l (itoa ?p)) = Some (l, itoa ?p)" if "CHR ''['' \<notin> set l" "CHR '']'' \<notin> set l" for l
    by (rule splitHostPort_join) (use that c in auto)
  have all: "splitHostPort ('':'' @ itoa ?p) = Some ([], itoa ?p)"
    using join [of "[]"] by (simp add: joinHostPort_def)
  have eq: "itoa ?p = itoa port \<longleftrightarrow> port = ?p" using c(5) [OF assms(3,4)] by auto
  show ?thesis
  proof (cases "pc_gateway (cf_proxy cfg) \<or> pc_hostOnly (cf_proxy cfg)")
    case True
    then show ?thesis using all eq by (auto simp: ListenAddresses_def acceptsAt_def reachable_def)
  next
    case False
    then show ?thesis using join assms(5) eq by (auto simp: ListenAddresses_def acceptsAt_def reachable_def list_ex_iff)
  qed
qed

lemma urlTarget_local:
  assumes "1 \<le> port" "port \<le> 65535"
  shows "urlTarget (''http://127.0.0.1:'' @ itoa port @ CHR ''/'' # path) = Some (''127.0.0.1'', itoa port, CHR ''/'' # path)"
proof -
  note c = itoa_port [OF assms]
  have "cutChar CHR ''/'' ((''127.0.0.1:'' @ itoa port) @ CHR ''/'' # path) = (''127.0.0.1:'' @ itoa port, path, True)"
    by (rule cutChar_append) (use c in auto)
  moreover have "splitHostPort (joinHostPort ''127.0.0.1'' (itoa port)) = Some (''127.0.0.1'', itoa port)"
    by (rule splitHostPort_join) (use c in auto)
  ultimately show ?thesis by (simp add: urlTarget_def joinHostPort_def)
qed

text \<open>C36.  The health check and \<^verbatim>\<open>--quit\<close> against a server that has bound its listen addresses.  Both ask 127.0.0.1 at the configured
  port.  When a listener of the server accepts there (same port, and \<^verbatim>\<open>gateway\<close>, \<^verbatim>\<open>hostonly\<close> or a listen address that is 127.0.0.1 or
  unspecified), both succeed exactly when the server admits that address: always without \<^verbatim>\<open>gateway\<close>, but with \<^verbatim>\<open>gateway\<close> only when one of the
  \<^verbatim>\<open>allow\<close> rules covers it.  Otherwise they do not reach it and report what else answers there.  So a gateway restricted to the private
  ranges, as the documentation recommends, reports itself as unhealthy and cannot be stopped by the command, and so does a server that
  listens on another address only.\<close>

theorem health_check_gateway:
  assumes "newServer aenv cenv ho cfg = Return px0" "listenAll bindOk (ListenAddresses cfg) px0 = (True, px)"
    and "pc_allow (cf_proxy cfg) = rules_text rs" "\<forall>r\<in>set rs. rule_wf r"
    and "CHR '':'' \<notin> set eph" "CHR ''['' \<notin> set eph" "CHR '']'' \<notin> set eph"
    and "1 \<le> pc_port (cf_proxy cfg)" "pc_port (cf_proxy cfg) \<le> 65535" "1 \<le> port" "port \<le> 65535"
    and "\<forall>l\<in>set (pc_listen (cf_proxy cfg)). CHR ''['' \<notin> set l \<and> CHR '']'' \<notin> set l"
    and "get = getFrom cenv tk conn eph bound elsewhere px"
    and "admitted = (\<not> pc_gateway (cf_proxy cfg) \<or> (\<exists>r\<in>set rs. rule_matches r (mk4 127 0 0 1)))"
  shows "if reachable bound cfg port
    then (healthCheck get port = Return () \<longleftrightarrow> admitted) \<and> (quitRunning get port = Return () \<longleftrightarrow> admitted)
    else healthCheck get port = healthCheck elsewhere port \<and> quitRunning get port = quitRunning elsewhere port"
proof -
  note f = newServer_fields [OF assms(1)]
  have px: "px = px0\<lparr>px_listening := ListenAddresses cfg\<rparr>"
    using listenAll_ok [OF assms(2)] assms(1) by (auto simp: newServer_def Let_def go_bind_Return_iff split: if_splits)
  have al: "isClientAllowed (px_server px) (joinHostPort (string4 (mk4 127 0 0 1)) eph) = Return admitted"
    unfolding px using client_allowed [OF assms(1,3-7), of "mk4 127 0 0 1"] GetHostIPs_ok [of "ho_ifaces ho"] assms(14) by auto
  have lo: "isLoopback (parseRemoteIP (joinHostPort (string4 (mk4 127 0 0 1)) eph))"
    unfolding remote_v4 [OF assms(5-7)] by (simp add: mk4_def)
  have h: "askServer cenv tk conn eph px ''/health'' = Some \<lparr>gr_status = if admitted then 200 else 403, gr_text = itoa (if admitted then 200 else 403),
      gr_body = if admitted then ''ok'' else ''forbidden'' @ [CHR 0x0A]\<rparr>"
    using al by (auto simp: askServer_def serveHTTP_def localRequest_def servedReply_def httpError_def)
  have q: "askServer cenv tk conn eph px ''/PxQuit'' = Some \<lparr>gr_status = if admitted then 200 else 403, gr_text = itoa (if admitted then 200 else 403),
      gr_body = if admitted then ''shutting down'' else ''forbidden'' @ [CHR 0x0A]\<rparr>"
    using al lo by (auto simp: askServer_def serveHTTP_def localRequest_def servedReply_def httpError_def handleQuit_def)
  have lb: "parseAddr ''127.0.0.1'' = Some (V4 (mk4 127 0 0 1))" by (simp add: go_simps)
  have get: "get (''http://127.0.0.1:'' @ itoa port @ CHR ''/'' # path) =
      (if reachable bound cfg port then askServer cenv tk conn eph px (CHR ''/'' # path)
       else elsewhere (''http://127.0.0.1:'' @ itoa port @ CHR ''/'' # path))" for path
    unfolding assms(13) getFrom_def urlTarget_local [OF assms(10,11)]
    using listening_reachable [OF assms(8-12), of bound] lb by (simp add: px)
  show ?thesis using get [of "''health''"] get [of "''PxQuit''"] h q by (simp add: healthCheck_def quitRunning_def)
qed

section \<open>Witnesses\<close>

definition joeSpecial :: config where
  "joeSpecial = Default\<lparr>cf_client := (cf_client Default)\<lparr>cc_username := ''joe''\<rparr>, cf_special := (cf_special Default)\<lparr>sp_clientPassword := True\<rparr>\<rparr>"

lemma joeLoad:
  "\<exists>cfg. Load (bareOS Map.empty) [''--client-username=joe'', ''--client-password''] = (cfg, None) \<and> cf_special cfg = cf_special joeSpecial \<and>
     cc_username (cf_client cfg) = ''joe'' \<and> pc_username (cf_proxy cfg) = []"
proof -
  let ?w = "bareOS Map.empty" and ?args = "[''--client-username=joe'', ''--client-password'']"
  let ?cli = "[(''client_password'', ''true''), (''client_username'', ''joe'')]"
  have env: "envValues ?w = []" by (simp add: envValues_def envKeys_def bareOS_def List.map_filter_simps)
  have cli: "parseArgs ?args = Return ?cli" by (simp add: parseArgs_def argKey_def putSetting_def go_simps)
  have av: "applyValues ?cli Default = (joeSpecial, None)"
    by (simp add: applyValues_def applyValue_def less_char_def Let_def emptyKeys_def setClient_def setSpecial_def parseBool_def joeSpecial_def go_simps)
  have sc: "setConfigPath [] Default = Default" by (simp add: setConfigPath_def setSpecial_def Default_def)
  obtain c2 c3 where l: "applyValues (envValues ?w) (setConfigPath [] Default) = (c2, None)" "applyValues ?cli c2 = (c3, None)"
    "Load ?w ?args = (normalize ?w (setConfigPath [] c3), validate (normalize ?w (setConfigPath [] c3)))"
    by (rule Load_bare [OF cli, of Map.empty]) (simp_all add: env av, simp add: applyValues_def)
  have "c2 = Default" using l(1) by (simp add: env applyValues_def sc)
  then have c3: "c3 = joeSpecial" using l(2) av by simp
  have "validate joeSpecial = None" by (simp add: validate_def joeSpecial_def Default_def)
  then have "Load ?w ?args = (normalize ?w (setConfigPath [] joeSpecial), None)" using l(3) by (simp add: c3 validate_normalize)
  then show ?thesis by (simp add: normalize_def Let_def setConfigPath_def setSpecial_def joeSpecial_def Default_def)
qed

definition typing :: "string \<Rightarrow> unit mainEnv" where
  "typing pwd = \<lparr>me_os = bareOS Map.empty, me_nanos = 0, me_get = (\<lambda>_. None), me_mkdir = (\<lambda>_. True), me_create = (\<lambda>_. True),
     me_password = Some pwd, me_keyringOk = True, me_install = (\<lambda>_. None), me_uninstall = None, me_new = (\<lambda>_. Return ()),
     me_start = (\<lambda>_. None), me_testGet = (\<lambda>_ _. None), me_ready = (\<lambda>_ _. None), me_shutdownErr = (\<lambda>_. None), me_startDone = (\<lambda>_. None),
     me_version = ''dev'', me_commit = ''none'', me_date = ''unknown''\<rparr>"

definition cleanWorld :: mainWorld where
  "cleanWorld = \<lparr>mw_keyring = (\<lambda>_ _. None), mw_saved = Map.empty, mw_fetched = [], mw_printed = [], mw_log = None, mw_logged = [], mw_started = False, mw_test = []\<rparr>"

lemma joeRun:
  "\<exists>cfg w'. Load (me_os (typing ''pw'')) [''--client-username=joe'', ''--client-password''] = (cfg, None) \<and>
     run (typing ''pw'') [''--client-username=joe'', ''--client-password''] cleanWorld = (Return (), w') \<and>
     passwordMode cfg \<and> \<not> sp_password (cf_special cfg) \<and> cc_username (cf_client cfg) = ''joe'' \<and> pc_username (cf_proxy cfg) = []"
proof -
  obtain cfg where c: "Load (bareOS Map.empty) [''--client-username=joe'', ''--client-password''] = (cfg, None)"
    "cf_special cfg = cf_special joeSpecial" "cc_username (cf_client cfg) = ''joe''" "pc_username (cf_proxy cfg) = []" using joeLoad by blast
  then show ?thesis
    by (simp add: run_def typing_def passwordMode_def setClientPassword_def storePassword_def joeSpecial_def Default_def Let_def)
qed

theorem run_modes_witness:
  "\<exists>cfg w'. run (typing ''pw'') [''--client-username=joe'', ''--client-password''] cleanWorld = (Return (), w') \<and>
     mw_saved w' = mw_saved cleanWorld \<and> \<not> mw_started w' \<and> Load (me_os (typing ''pw'')) [''--client-username=joe'', ''--client-password''] = (cfg, None)"
proof -
  obtain cfg w' where r: "Load (me_os (typing ''pw'')) [''--client-username=joe'', ''--client-password''] = (cfg, None)"
    "run (typing ''pw'') [''--client-username=joe'', ''--client-password''] cleanWorld = (Return (), w')" "passwordMode cfg"
    using joeRun by blast
  then show ?thesis using run_modes [OF r(2,1)] by (auto simp: cleanWorld_def passwordMode_def)
qed


text \<open>The ranges the documentation recommends for a gateway.\<close>

definition privateRanges :: "rule list" where
  "privateRanges = [RCidr (mk4 10 0 0 0) 8, RCidr (mk4 172 16 0 0) 12, RCidr (mk4 192 168 0 0) 16]"

theorem health_check_gateway_witness:
  "\<exists>px0 px. newServer bareAuthEnv bareEnv bareHost (gatewayConfig privateRanges) = Return px0 \<and>
     listenAll (\<lambda>_. True) (ListenAddresses (gatewayConfig privateRanges)) px0 = (True, px) \<and>
     healthCheck (getFrom bareEnv zeroTick None ''50000'' (\<lambda>_. None) (\<lambda>_. None) px) 3128 \<noteq> Return ()"
proof -
  let ?cfg = "gatewayConfig privateRanges"
  have wf: "\<forall>r\<in>set privateRanges. rule_wf r" "\<not> (\<exists>r\<in>set privateRanges. hyphenated r)" by (simp_all add: privateRanges_def)
  from gateway_server [OF wf, of bareAuthEnv bareEnv] obtain px0 where
    px0: "newServer bareAuthEnv bareEnv bareHost ?cfg = Return px0" by blast
  have "\<exists>px. listenAll (\<lambda>_. True) addrs px1 = (True, px)" for addrs and px1 :: "(unit, unit) proxyServer"
    by (induction addrs arbitrary: px1) simp_all
  then obtain px where px: "listenAll (\<lambda>_. True) (ListenAddresses ?cfg) px0 = (True, px)" by blast
  have cfg: "pc_allow (cf_proxy ?cfg) = rules_text privateRanges" "pc_gateway (cf_proxy ?cfg)" "pc_port (cf_proxy ?cfg) = 3128"
    "pc_listen (cf_proxy ?cfg) = [''127.0.0.1'']"
    by (simp_all add: gatewayConfig_def setProxy_def Default_def)
  have out: "\<not> (\<exists>r\<in>set privateRanges. rule_matches r (mk4 127 0 0 1))" by (simp add: privateRanges_def unat_mk4)
  have "reachable (\<lambda>_. None) ?cfg 3128" using cfg by (simp add: reachable_def)
  then have "healthCheck (getFrom bareEnv zeroTick None ''50000'' (\<lambda>_. None) (\<lambda>_. None) px) 3128 \<noteq> Return ()"
    using health_check_gateway [OF px0 px cfg(1) wf(1), of "''50000''" 3128 _ zeroTick None "\<lambda>_. None" "\<lambda>_. None", OF _ _ _ _ _ _ _ _ refl refl] out cfg
    by simp
  then show ?thesis using px0 px by blast
qed

end
