(* ===== verification/Sspi.thy ===== *)
theory Sspi
  imports Client_Auth
begin

text \<open>
  The Windows files \<^verbatim>\<open>internal/auth/sspi_windows.go\<close> and \<^verbatim>\<open>internal/clientauth/sspi_windows.go\<close>.  The calls into
  \<^verbatim>\<open>secur32.dll\<close> and the UTF-16 conversion are the fields of \<open>secur32\<close>; a handle is a pair of words, a null
  pointer is \<^const>\<open>None\<close>.  The layout of the structures in memory is not modelled.
\<close>

section \<open>System calls\<close>

record secHandle =
  sh_lower :: nat
  sh_upper :: nat

definition zeroHandle :: secHandle where
  "zeroHandle = \<lparr>sh_lower = 0, sh_upper = 0\<rparr>"

record secWinntAuthIdentity =
  id_user :: "16 word list option"
  id_userLength :: "32 word"
  id_domain :: "16 word list option"
  id_domainLength :: "32 word"
  id_password :: "16 word list option"
  id_passwordLength :: "32 word"
  id_flags :: "32 word"

text \<open>\<^verbatim>\<open>SecBuffer\<close>s of type token: on return the buffer and the number of bytes used.  \<open>sc_utf16\<close> gives the code units with
  their terminating zero, or nothing for a string with a zero byte.\<close>

record secur32 =
  sc_utf16 :: "string \<Rightarrow> 16 word list option"
  sc_acquire :: "16 word list \<Rightarrow> 32 word \<Rightarrow> secWinntAuthIdentity option \<Rightarrow> 32 word \<times> secHandle"
  sc_initialize :: "secHandle \<Rightarrow> secHandle option \<Rightarrow> 16 word list option \<Rightarrow> string option \<Rightarrow> 32 word \<times> secHandle \<times> 32 word \<times> string"
  sc_accept :: "secHandle \<Rightarrow> secHandle option \<Rightarrow> string \<Rightarrow> 32 word \<times> secHandle \<times> 32 word \<times> string"

definition secEOk :: "32 word" where
  "secEOk = 0"

definition secIContinueNeeded :: "32 word" where
  "secIContinueNeeded = 0x00090312"

definition maxTokenBuffer :: nat where
  "maxTokenBuffer = 12288"

text \<open>\<^verbatim>\<open>outBuf[:outSec.cbBuffer]\<close>: the bytes the call wrote; a count beyond the buffer panics.\<close>

definition sliceOut :: "32 word \<Rightarrow> string \<Rightarrow> string go_result" where
  "sliceOut cb buf =
     (if unat cb > maxTokenBuffer then Panic ''slice bounds out of range''
      else Return (take (unat cb) (buf @ replicate (maxTokenBuffer - length buf) (CHR 0x00))))"

datatype secRelease = DeleteContext secHandle | FreeCredentials secHandle

section \<open>The client\<close>

record sspiClient =
  cl_cred :: secHandle
  cl_ctx :: secHandle
  cl_target :: "16 word list option"
  cl_started :: bool

definition winIdentity :: "secur32 \<Rightarrow> credentials \<Rightarrow> secWinntAuthIdentity option" where
  "winIdentity sys creds =
     (if cr_username creds = [] then None
      else
        (case parseUser (cr_username creds) of (user, domain, _) \<Rightarrow>
           if user = [] then None
           else Some \<lparr>id_user = sc_utf16 sys user, id_userLength = of_nat (length user),
             id_domain = (if domain \<noteq> [] then sc_utf16 sys domain else None),
             id_domainLength = (if domain \<noteq> [] then of_nat (length domain) else 0),
             id_password = sc_utf16 sys (cr_password creds), id_passwordLength = of_nat (length (cr_password creds)),
             id_flags = 2\<rparr>))"

definition winTarget :: "secur32 \<Rightarrow> string \<Rightarrow> 16 word list option" where
  "winTarget sys targetHost =
     (if targetHost = [] then None
      else sc_utf16 sys (''HTTP/'' @ (case splitHostPort targetHost of Some (h, p) \<Rightarrow> h | None \<Rightarrow> targetHost)))"

definition winNewTokenClient :: "secur32 \<Rightarrow> string \<Rightarrow> credentials \<Rightarrow> string \<Rightarrow> sspiClient go_result" where
  "winNewTokenClient sys pkg creds targetHost =
     (case sc_utf16 sys pkg of
        None \<Rightarrow> Error ''invalid argument''
      | Some packageName \<Rightarrow>
          (case sc_acquire sys packageName 2 (winIdentity sys creds) of (ret, cred) \<Rightarrow>
             if ret \<noteq> secEOk then Error ''AcquireCredentialsHandleW failed''
             else Return \<lparr>cl_cred = cred, cl_ctx = zeroHandle, cl_target = winTarget sys targetHost, cl_started = False\<rparr>))"

definition winNext :: "secur32 \<Rightarrow> string \<Rightarrow> sspiClient \<Rightarrow> (string \<times> bool) go_result \<times> sspiClient" where
  "winNext sys inp c =
     (case sc_initialize sys (cl_cred c) (if cl_started c then Some (cl_ctx c) else None) (cl_target c)
             (if inp = [] then None else Some inp) of (ret, newCtx, cb, buf) \<Rightarrow>
        if ret = secEOk \<or> ret = secIContinueNeeded then
          (go_bind (sliceOut cb buf) (\<lambda>out. Return (out, ret = secEOk)), c\<lparr>cl_ctx := newCtx, cl_started := True\<rparr>)
        else (Error ''InitializeSecurityContextW failed'', c))"

definition winCloseClient :: "sspiClient \<Rightarrow> secRelease list" where
  "winCloseClient c = (if cl_started c then [DeleteContext (cl_ctx c)] else []) @ [FreeCredentials (cl_cred c)]"

section \<open>The server\<close>

record sspiServer =
  sr_cred :: secHandle
  sr_ctx :: secHandle
  sr_started :: bool

definition winNewNegotiateServer :: "secur32 \<Rightarrow> sspiServer go_result" where
  "winNewNegotiateServer sys =
     (case sc_utf16 sys ''Negotiate'' of
        None \<Rightarrow> Error ''invalid argument''
      | Some packageName \<Rightarrow>
          (case sc_acquire sys packageName 1 None of (ret, cred) \<Rightarrow>
             if ret \<noteq> secEOk then Error ''AcquireCredentialsHandleW failed''
             else Return \<lparr>sr_cred = cred, sr_ctx = zeroHandle, sr_started = False\<rparr>))"

text \<open>\<^verbatim>\<open>Accept\<close>; the user name it returns is always empty.\<close>

definition winAccept :: "secur32 \<Rightarrow> string \<Rightarrow> sspiServer \<Rightarrow> (string \<times> string \<times> bool) go_result \<times> sspiServer" where
  "winAccept sys inp s =
     (if inp = [] then (Error ''AcceptSecurityContext: empty input token'', s)
      else
        (case sc_accept sys (sr_cred s) (if sr_started s then Some (sr_ctx s) else None) inp of (ret, newCtx, cb, buf) \<Rightarrow>
           if ret = secEOk \<or> ret = secIContinueNeeded then
             (go_bind (sliceOut cb buf) (\<lambda>out. Return (out, [], ret = secEOk)), s\<lparr>sr_ctx := newCtx, sr_started := True\<rparr>)
           else (Error ''AcceptSecurityContext failed'', s)))"

definition winCloseServer :: "sspiServer \<Rightarrow> secRelease list" where
  "winCloseServer s = (if sr_started s then [DeleteContext (sr_ctx s)] else []) @ [FreeCredentials (sr_cred s)]"

section \<open>As the authentication packages use them\<close>

text \<open>The interfaces of the packages have one kind of failure: a byte count beyond the buffer, which the system call excludes, is an
  error there.\<close>

definition resultOption :: "'a go_result \<Rightarrow> 'a option" where
  "resultOption r = (case r of Return a \<Rightarrow> Some a | _ \<Rightarrow> None)"

definition windowsAuthEnv :: "secur32 \<Rightarrow> 'c authEnv \<Rightarrow> sspiClient authEnv" where
  "windowsAuthEnv sys env =
     \<lparr>ae_getenv = ae_getenv env, ae_keyring = ae_keyring env, ae_hostname = ae_hostname env, ae_windows = True,
      ae_fileExists = ae_fileExists env, ae_ntlmNegotiate = ae_ntlmNegotiate env, ae_ntlmAuthenticate = ae_ntlmAuthenticate env,
      ae_krbLoad = ae_krbLoad env, ae_krbLogin = ae_krbLogin env, ae_spnego = ae_spnego env,
      ae_newTokenClient = (\<lambda>pkg creds target. resultOption (winNewTokenClient sys pkg creds target)),
      ae_next = (\<lambda>c inp. case winNext sys inp c of (r, c') \<Rightarrow> (resultOption r, c'))\<rparr>"

text \<open>\<^verbatim>\<open>Close\<close> of a session: only a Negotiate session with an SSPI client has anything to release.\<close>

definition winCloseSession :: "sspiClient session \<Rightarrow> secRelease list" where
  "winCloseSession s =
     (case s of
        NegotiateSession n \<Rightarrow> (case n_sspi n of Some c \<Rightarrow> winCloseClient c | None \<Rightarrow> [])
      | _ \<Rightarrow> [])"

definition windowsClientEnv :: "secur32 \<Rightarrow> ('n, 's) clientEnv \<Rightarrow> ('n, sspiServer) clientEnv" where
  "windowsClientEnv sys env =
     \<lparr>ce_getenv = ce_getenv env, ce_keyring = ce_keyring env, ce_ntlmCreate = ce_ntlmCreate env, ce_ntlmSetUser = ce_ntlmSetUser env,
      ce_ntlmNegotiate = ce_ntlmNegotiate env, ce_ntlmChallenge = ce_ntlmChallenge env, ce_ntlmParse = ce_ntlmParse env,
      ce_ntlmAuthenticate = ce_ntlmAuthenticate env, ce_newSSPI = resultOption (winNewNegotiateServer sys),
      ce_accept = (\<lambda>s inp. case winAccept sys inp s of (r, s') \<Rightarrow> (map_option (\<lambda>(out, user, done'). (out, done')) (resultOption r), s'))\<rparr>"

end
