(* ===== verification/Sspi_Props.thy ===== *)
theory Sspi_Props
  imports Sspi Auth_Props
begin

text \<open>
  Properties of the SSPI files: which context a call continues and what is released, and the lengths in the identity passed
  to Windows.
\<close>

section \<open>Contexts\<close>

text \<open>A sequence of calls of \<^verbatim>\<open>Next\<close>, with the context each one passed.\<close>

fun nexts :: "secur32 \<Rightarrow> string list \<Rightarrow> sspiClient \<Rightarrow> (secHandle option \<times> (string \<times> bool) go_result) list \<times> sspiClient" where
  "nexts sys [] c = ([], c)"
| "nexts sys (inp # inps) c =
     (case winNext sys inp c of (r, c1) \<Rightarrow>
        (case nexts sys inps c1 of (rs, c2) \<Rightarrow> (((if cl_started c then Some (cl_ctx c) else None), r) # rs, c2)))"

definition continues :: "(secHandle option \<times> (string \<times> bool) go_result) list \<Rightarrow> bool" where
  "continues rs \<longleftrightarrow> (\<forall>i < length rs. fst (rs ! i) = None \<longleftrightarrow> (\<forall>j < i. \<exists>e. snd (rs ! j) = Error e))"

lemma winNext_facts:
  assumes "winNext sys inp c = (r, c')"
  shows "cl_cred c' = cl_cred c" "cl_started c' \<longleftrightarrow> cl_started c \<or> (\<forall>e. r \<noteq> Error e)" "(\<exists>e. r = Error e) \<Longrightarrow> c' = c"
  using assms by (auto simp: winNext_def sliceOut_def split: prod.splits if_splits)

lemma nexts_facts:
  assumes "nexts sys inps c = (rs, c')"
  shows "cl_cred c' = cl_cred c \<and> (cl_started c' \<longleftrightarrow> cl_started c \<or> (\<exists>r\<in>set rs. \<forall>e. snd r \<noteq> Error e)) \<and>
    (\<forall>i < length rs. fst (rs ! i) = None \<longleftrightarrow> \<not> cl_started c \<and> (\<forall>j < i. \<exists>e. snd (rs ! j) = Error e))"
  using assms
proof (induction inps arbitrary: c rs)
  case (Cons inp inps)
  obtain r c1 where n: "winNext sys inp c = (r, c1)" by fastforce
  obtain rs1 c2 where m: "nexts sys inps c1 = (rs1, c2)" by fastforce
  have rs: "rs = (if cl_started c then Some (cl_ctx c) else None, r) # rs1" "c' = c2" using Cons.prems n m by auto
  note f = winNext_facts [OF n] and ih = Cons.IH [OF m [folded rs(2)]]
  have "fst (rs ! i) = None \<longleftrightarrow> \<not> cl_started c \<and> (\<forall>j < i. \<exists>e. snd (rs ! j) = Error e)" if "i < length rs" for i
  proof (cases i)
    case 0
    then show ?thesis by (simp add: rs)
  next
    case (Suc k)
    then have "fst (rs ! i) = None \<longleftrightarrow> \<not> cl_started c1 \<and> (\<forall>j < k. \<exists>e. snd (rs1 ! j) = Error e)" using ih that by (simp add: rs)
    then show ?thesis using f(2) by (auto simp: Suc rs All_less_Suc2)
  qed
  then show ?case using f ih by (auto simp: rs)
qed simp

text \<open>An SSPI client passes a context exactly from the first successful call on, and closing it deletes the context exactly when
  there is one and always frees the credentials.\<close>

lemma sspi_contexts:
  assumes "winNewTokenClient sys pkg creds target = Return c" "nexts sys inps c = (rs, c')"
  shows "continues rs \<and> FreeCredentials (cl_cred c) \<in> set (winCloseClient c') \<and>
    ((\<exists>h. DeleteContext h \<in> set (winCloseClient c')) \<longleftrightarrow> (\<exists>r\<in>set rs. \<forall>e. snd r \<noteq> Error e))"
proof -
  have "\<not> cl_started c" using assms(1) by (auto simp: winNewTokenClient_def split: option.splits prod.splits if_splits)
  then show ?thesis using nexts_facts [OF assms(2)] by (auto simp: continues_def winCloseClient_def)
qed

section \<open>Sessions\<close>

text \<open>Calls of \<^verbatim>\<open>Token\<close> on one session, each with a client nonce, a request and the challenge it answers.\<close>

definition tokens :: "'c authEnv \<Rightarrow> (string \<times> request \<times> string) list \<Rightarrow> 'c session \<Rightarrow> 'c session" where
  "tokens env calls s = fold (\<lambda>(rnd, req, ch) s. snd (token env rnd req ch s)) calls s"

text \<open>The context that an exchange holds by the answers of \<^verbatim>\<open>InitializeSecurityContextW\<close>, for the challenges it answers in turn: each call
  continues the context of the last call that succeeded, with no context before the first one; a challenge that is not
  Base64 makes no call, a call that fails changes nothing, and after the call that completes the exchange there is no
  further one.\<close>

definition challengeBytes :: "string \<Rightarrow> string option" where
  "challengeBytes ch = resultOption (if trimSpace ch \<noteq> [] then decodeChallenge ch else Return [])"

fun contextHeld :: "secur32 \<Rightarrow> secHandle \<Rightarrow> 16 word list option \<Rightarrow> string list \<Rightarrow> secHandle option \<Rightarrow> secHandle option" where
  "contextHeld sys cred target [] ctx = ctx"
| "contextHeld sys cred target (ch # chs) ctx =
     (case challengeBytes ch of
        None \<Rightarrow> contextHeld sys cred target chs ctx
      | Some input \<Rightarrow>
          (case sc_initialize sys cred ctx target (if input = [] then None else Some input) of (ret, new, cb, buf) \<Rightarrow>
             if ret = secEOk \<and> unat cb \<le> maxTokenBuffer then Some new
             else if ret = secEOk \<or> ret = secIContinueNeeded then contextHeld sys cred target chs (Some new)
             else contextHeld sys cred target chs ctx))"

definition releases :: "secHandle \<Rightarrow> secHandle option \<Rightarrow> secRelease list" where
  "releases cred ctx = (case ctx of None \<Rightarrow> [] | Some h \<Rightarrow> [DeleteContext h]) @ [FreeCredentials cred]"

definition clientContext :: "sspiClient \<Rightarrow> secHandle option" where
  "clientContext c = (if cl_started c then Some (cl_ctx c) else None)"

lemma close_client: "winCloseClient c = releases (cl_cred c) (clientContext c)"
  by (simp add: winCloseClient_def releases_def clientContext_def)

text \<open>One call of \<^verbatim>\<open>Token\<close> on a session with an SSPI client, by the answer of the system.\<close>

definition sspiSession :: "credentials \<Rightarrow> sspiClient \<Rightarrow> bool \<Rightarrow> sspiClient session" where
  "sspiSession cr c fin = NegotiateSession \<lparr>n_creds = cr, n_sspi = Some c, n_usedSSPI = True, n_done = fin\<rparr>"

lemma token_done: "snd (token env rnd req ch (sspiSession cr c True)) = sspiSession cr c True"
  by (simp add: sspiSession_def negotiateToken_def)

lemma token_undecoded: "challengeBytes ch = None \<Longrightarrow> snd (token env rnd req ch (sspiSession cr c fin)) = sspiSession cr c fin"
  by (auto simp: sspiSession_def negotiateToken_def challengeBytes_def resultOption_def split: go_result.splits if_splits)

lemma token_call:
  assumes "challengeBytes ch = Some input"
    and "sc_initialize sys (cl_cred c) (clientContext c) (cl_target c) (if input = [] then None else Some input) = (ret, new, cb, buf)"
  shows "snd (token (windowsAuthEnv sys env) rnd req ch (sspiSession cr c False)) =
    (if ret = secEOk \<or> ret = secIContinueNeeded
     then sspiSession cr (c\<lparr>cl_ctx := new, cl_started := True\<rparr>) (ret = secEOk \<and> unat cb \<le> maxTokenBuffer) else sspiSession cr c False)"
proof -
  have d: "(if trimSpace ch \<noteq> [] then decodeChallenge ch else Return []) = Return input"
    using assms(1) by (auto simp: challengeBytes_def resultOption_def split: go_result.splits)
  show ?thesis
    using assms(2) unfolding clientContext_def
    by (auto simp: sspiSession_def negotiateToken_def d windowsAuthEnv_def winNext_def sliceOut_def resultOption_def simp del: not_None_eq)
qed

lemma close_sspi:
  "winCloseSession (tokens (windowsAuthEnv sys env) calls (sspiSession cr c fin)) =
     releases (cl_cred c) (if fin then clientContext c else contextHeld sys (cl_cred c) (cl_target c) (map (snd \<circ> snd) calls) (clientContext c))"
proof (induction calls arbitrary: c fin)
  case Nil
  show ?case by (simp add: tokens_def winCloseSession_def sspiSession_def close_client)
next
  case (Cons call calls)
  obtain rnd req ch where call: "call = (rnd, req, ch)" by (cases call)
  let ?next = "snd (token (windowsAuthEnv sys env) rnd req ch (sspiSession cr c fin))"
  have step: "tokens (windowsAuthEnv sys env) (call # calls) (sspiSession cr c fin) = tokens (windowsAuthEnv sys env) calls ?next"
    by (simp add: tokens_def call)
  consider "fin" | "\<not> fin" "challengeBytes ch = None"
    | input ret new cb buf where "\<not> fin" "challengeBytes ch = Some input"
        "sc_initialize sys (cl_cred c) (clientContext c) (cl_target c) (if input = [] then None else Some input) = (ret, new, cb, buf)"
    by (metis option.exhaust prod_cases4)
  then show ?case
  proof cases
    case 1
    then show ?thesis unfolding step by (simp add: token_done Cons.IH del: token.simps)
  next
    case 2
    then show ?thesis unfolding step by (simp add: token_undecoded Cons.IH call del: token.simps)
  next
    case 3
    have "?next = (if ret = secEOk \<or> ret = secIContinueNeeded
        then sspiSession cr (c\<lparr>cl_ctx := new, cl_started := True\<rparr>) (ret = secEOk \<and> unat cb \<le> maxTokenBuffer) else sspiSession cr c False)"
      using 3(1) by (simp only: token_call [OF 3(2,3)] simp_thms)
    then show ?thesis unfolding step using 3 by (simp add: Cons.IH call clientContext_def del: token.simps)
  qed
qed

text \<open>A session without an SSPI client never gets one.\<close>

lemma bare_token:
  "n_sspi n = None \<Longrightarrow> \<exists>n'. snd (token env rnd req ch (NegotiateSession n)) = NegotiateSession n' \<and> n_sspi n' = None"
  by (auto simp: negotiateToken_def split: go_result.splits)

lemma bare_tokens: "n_sspi n = None \<Longrightarrow> \<exists>n'. tokens env calls (NegotiateSession n) = NegotiateSession n' \<and> n_sspi n' = None"
proof (induction calls arbitrary: n)
  case (Cons call calls)
  obtain rnd req ch where call: "call = (rnd, req, ch)" by (cases call)
  then obtain n' where "snd (token env rnd req ch (NegotiateSession n)) = NegotiateSession n'" "n_sspi n' = None"
    using bare_token [OF Cons.prems] by blast
  then show ?case using Cons.IH [of n'] by (simp add: tokens_def call)
qed (simp add: tokens_def)

lemma close_bare: "n_sspi n = None \<Longrightarrow> winCloseSession (tokens env calls (NegotiateSession n)) = []"
  using bare_tokens [of n env calls] by (auto simp: winCloseSession_def)

text \<open>C37.  On Windows a Negotiate session gives back exactly what it acquired.  Whatever tokens are asked of it, its \<^verbatim>\<open>Close\<close> deletes
  the context that the last successful call of \<^verbatim>\<open>InitializeSecurityContextW\<close> returned, none when no call succeeded, and
  then frees, once, the credentials handle that its creation acquired; every call continues the context of the last
  successful one.  A session whose handle could not be acquired, which uses Kerberos instead, releases nothing.\<close>

theorem negotiate_releases:
  assumes "NewSession (windowsAuthEnv sys env) creds ''NEGOTIATE'' target = Return s"
  shows "winCloseSession (tokens (windowsAuthEnv sys env) calls s) =
    (case winNewTokenClient sys ''Negotiate'' creds target of
       Return c \<Rightarrow>
         (case contextHeld sys (cl_cred c) (cl_target c) (map (snd \<circ> snd) calls) None of
            Some h \<Rightarrow> [DeleteContext h, FreeCredentials (cl_cred c)]
          | None \<Rightarrow> [FreeCredentials (cl_cred c)])
     | _ \<Rightarrow> [])"
proof -
  let ?env = "windowsAuthEnv sys env"
  have "toUpper (trimSpace ''NEGOTIATE'') = ''NEGOTIATE''" by code_simp
  then have s: "s = newNegotiateSession ?env creds target" using assms by (simp add: NewSession_def Let_def)
  show ?thesis
  proof (cases "winNewTokenClient sys ''Negotiate'' creds target")
    case (Return c)
    then have "\<not> cl_started c" by (auto simp: winNewTokenClient_def split: option.splits prod.splits if_splits)
    moreover have "s = sspiSession creds c False"
      by (simp add: s Return newNegotiateSession_def windowsAuthEnv_def resultOption_def sspiSession_def)
    ultimately show ?thesis by (simp add: close_sspi Return clientContext_def releases_def split: option.splits)
  qed (simp_all add: s newNegotiateSession_def windowsAuthEnv_def resultOption_def close_bare)
qed

definition demoSys :: secur32 where
  "demoSys =
     \<lparr>sc_utf16 = (\<lambda>s. Some (map (\<lambda>c. of_nat (of_char c)) s @ [0])), sc_acquire = (\<lambda>_ _ _. (0, \<lparr>sh_lower = 7, sh_upper = 0\<rparr>)),
      sc_initialize = (\<lambda>_ _ _ _. (secIContinueNeeded, \<lparr>sh_lower = 8, sh_upper = 0\<rparr>, 1, ''x'')),
      sc_accept = (\<lambda>_ _ _. (0, \<lparr>sh_lower = 9, sh_upper = 0\<rparr>, 1, ''y''))\<rparr>"

definition demoRequest :: request where
  "demoRequest = \<lparr>r_method = ''GET'', r_url = emptyURL\<lparr>u_scheme := ''http'', u_host := ''a''\<rparr>, r_host = ''a'',
     r_header = [], r_close = False, r_tls = False, r_remoteAddr = ''127.0.0.1:5000'', r_body = []\<rparr>"

theorem negotiate_releases_witness:
  "\<exists>s. NewSession (windowsAuthEnv demoSys bareAuthEnv) \<lparr>cr_username = [], cr_password = []\<rparr> ''NEGOTIATE'' ''proxy:80'' = Return s \<and>
     winCloseSession (tokens (windowsAuthEnv demoSys bareAuthEnv) [([], demoRequest, [])] s) =
       [DeleteContext \<lparr>sh_lower = 8, sh_upper = 0\<rparr>, FreeCredentials \<lparr>sh_lower = 7, sh_upper = 0\<rparr>] \<and>
     winCloseSession (tokens (windowsAuthEnv demoSys bareAuthEnv) [] s) = [FreeCredentials \<lparr>sh_lower = 7, sh_upper = 0\<rparr>]"
proof -
  let ?env = "windowsAuthEnv demoSys bareAuthEnv"
  have "toUpper (trimSpace ''NEGOTIATE'') = ''NEGOTIATE''" by code_simp
  then have s: "NewSession ?env \<lparr>cr_username = [], cr_password = []\<rparr> ''NEGOTIATE'' ''proxy:80'' =
      Return (newNegotiateSession ?env \<lparr>cr_username = [], cr_password = []\<rparr> ''proxy:80'')" by (simp add: NewSession_def)
  obtain c where c: "winNewTokenClient demoSys ''Negotiate'' \<lparr>cr_username = [], cr_password = []\<rparr> ''proxy:80'' = Return c"
      "cl_cred c = \<lparr>sh_lower = 7, sh_upper = 0\<rparr>" by (simp add: winNewTokenClient_def demoSys_def winIdentity_def secEOk_def)
  have "challengeBytes [] = Some []" by code_simp
  then have "contextHeld demoSys \<lparr>sh_lower = 7, sh_upper = 0\<rparr> (cl_target c) [[]] None = Some \<lparr>sh_lower = 8, sh_upper = 0\<rparr>"
    by (simp add: demoSys_def)
  then show ?thesis using negotiate_releases [OF s, of "[([], demoRequest, [])]"] negotiate_releases [OF s, of "[]"] s c by simp
qed

section \<open>The identity\<close>

definition contByte :: "char \<Rightarrow> bool" where
  "contByte c \<longleftrightarrow> 128 \<le> (of_char c :: nat) \<and> (of_char c :: nat) < 192"

text \<open>The number of UTF-16 code units of a string in UTF-8: a sequence of up to three bytes is one unit, one of four bytes is two.
  The value for other byte strings does not matter.\<close>

fun utf16Units :: "string \<Rightarrow> nat option" where
  "utf16Units [] = Some 0"
| "utf16Units (a # s) =
     (let n = (of_char a :: nat)
      in if n < 128 then map_option Suc (utf16Units s)
         else if 192 \<le> n \<and> n < 224 then
           (case s of b # t \<Rightarrow> if contByte b then map_option Suc (utf16Units t) else None | _ \<Rightarrow> None)
         else if 224 \<le> n \<and> n < 240 then
           (case s of b # c # t \<Rightarrow> if contByte b \<and> contByte c then map_option Suc (utf16Units t) else None | _ \<Rightarrow> None)
         else if 240 \<le> n \<and> n < 248 then
           (case s of b # c # d # t \<Rightarrow> if contByte b \<and> contByte c \<and> contByte d then map_option (\<lambda>k. k + 2) (utf16Units t) else None | _ \<Rightarrow> None)
         else None)"

lemma utf16Units_length: "utf16Units s = Some k \<Longrightarrow> k \<le> length s \<and> (k = length s \<longleftrightarrow> (\<forall>c\<in>set s. (of_char c :: nat) < 128))"
proof (induction s arbitrary: k rule: utf16Units.induct)
  case (2 a s)
  show ?case
  proof (cases "(of_char a :: nat) < 128")
    case True
    then obtain m where "utf16Units s = Some m" "k = Suc m" using "2.prems" by (auto simp: Let_def)
    then show ?thesis using "2.IH"(1) [OF refl True] True by auto
  next
    case False
    have "k < length (a # s)"
      using "2.prems" False "2.IH"(2-4)
      by (fastforce simp: Let_def split: if_splits list.splits)
    then show ?thesis using False by auto
  qed
qed simp

text \<open>The documented behaviour of the conversion: the code units and a terminating zero.\<close>

definition utf16Text :: "secur32 \<Rightarrow> bool" where
  "utf16Text sys \<longleftrightarrow> (\<forall>s k. CHR 0x00 \<notin> set s \<and> utf16Units s = Some k \<longrightarrow> (\<exists>u. sc_utf16 sys s = Some (u @ [0]) \<and> length u = k))"

text \<open>Windows reads as many code units of a password as the identity says.  The length given is the number of bytes, so it is the
  length of the converted text exactly for ASCII passwords; for any other it is too long and the password is read
  beyond its end.\<close>

lemma identity_length_ascii_only:
  assumes "utf16Text sys" "winIdentity sys creds = Some i" "utf16Units (cr_password creds) = Some k" "CHR 0x00 \<notin> set (cr_password creds)"
    and "length (cr_password creds) < 2 ^ 32"
  shows "\<exists>u. id_password i = Some (u @ [0]) \<and> length u \<le> unat (id_passwordLength i) \<and>
    (length u = unat (id_passwordLength i) \<longleftrightarrow> (\<forall>c\<in>set (cr_password creds). (of_char c :: nat) < 128))"
proof -
  obtain u where u: "sc_utf16 sys (cr_password creds) = Some (u @ [0])" "length u = k" using assms(1,3,4) by (auto simp: utf16Text_def)
  have "id_password i = sc_utf16 sys (cr_password creds)" "id_passwordLength i = of_nat (length (cr_password creds))"
    using assms(2) by (auto simp: winIdentity_def split: if_splits prod.splits)
  moreover have "unat (of_nat (length (cr_password creds)) :: 32 word) = length (cr_password creds)"
    using assms(5) by (simp add: unat_of_nat take_bit_nat_eq_self)
  ultimately show ?thesis using u utf16Units_length [OF assms(3)] by auto
qed

end
