(* ===== verification/Pac_Utils.thy ===== *)
theory Pac_Utils
  imports Host_IPs Pac_Eval Config_Load
begin

text \<open>
  What a PAC script can call: the JavaScript functions of \<^verbatim>\<open>internal/pac/pacutils.go\<close> and the two functions \<^verbatim>\<open>pac.go\<close> gives to
  the engine, \<^verbatim>\<open>dnsResolve\<close> and \<^verbatim>\<open>myIpAddress\<close>; and how the script itself is read.  Strings are lists of ASCII
  characters.  The engine's \<^verbatim>\<open>RegExp\<close>, the resolver, the file system and the HTTP client are arguments.
\<close>

section \<open>Functions of the host\<close>

definition dnsResolve :: "resolver \<Rightarrow> string \<Rightarrow> string" where
  "dnsResolve lookup host =
     (case lookup host of
        None \<Rightarrow> []
      | Some ips \<Rightarrow> (case List.find (\<lambda>ip. is4 (unmap ip)) ips of None \<Rightarrow> [] | Some ip \<Rightarrow> addrString (unmap ip)))"

definition myIPAddress :: "iface list option \<Rightarrow> string" where
  "myIPAddress ifaces =
     (let ips = GetHostIPs ifaces
      in case List.find (\<lambda>ip. \<not> isLoopback ip) ips of
           Some ip \<Rightarrow> addrString ip
         | None \<Rightarrow> (case ips of ip # _ \<Rightarrow> addrString ip | [] \<Rightarrow> ''127.0.0.1''))"

text \<open>\<^verbatim>\<open>readSource\<close>: \<open>get\<close> gives status and body of the reply, if any.\<close>

definition readSource :: "osEnv \<Rightarrow> (string \<Rightarrow> (int \<times> string) option) \<Rightarrow> (string \<Rightarrow> string option) \<Rightarrow> evaluator \<Rightarrow> string go_result" where
  "readSource w get readFile e =
     (let src = ev_source e
      in if hasPrefix (toLower src) ''http://'' \<or> hasPrefix (toLower src) ''https://'' then
           (case get src of
              None \<Rightarrow> Error ''get''
            | Some (status, body) \<Rightarrow> if status \<noteq> 200 then Error (''pac fetch: http '' @ itoa status) else Return body)
         else
           (case readFile (if hasPrefix (toLower src) ''file://'' then FileURLToLocalPath w src else src) of
              None \<Rightarrow> Error ''open''
            | Some text0 \<Rightarrow> Return text0))"

section \<open>Host names and addresses\<close>

definition dnsDomainIs :: "string \<Rightarrow> string \<Rightarrow> bool" where
  "dnsDomainIs host domain \<longleftrightarrow> length host \<ge> length domain \<and> drop (length host - length domain) host = domain"

definition dnsDomainLevels :: "string \<Rightarrow> nat" where
  "dnsDomainLevels host = length (splitChar CHR ''.'' host) - 1"

text \<open>A group of one to three digits, and its comparison as a number.\<close>

definition ipField :: "string \<Rightarrow> bool" where
  "ipField f \<longleftrightarrow> 1 \<le> length f \<and> length f \<le> 3 \<and> (case parseDigits 0 f of None \<Rightarrow> False | Some n \<Rightarrow> n \<le> 255)"

definition isValidIpAddress :: "string \<Rightarrow> bool" where
  "isValidIpAddress ipchars \<longleftrightarrow> length (splitChar CHR ''.'' ipchars) = 4 \<and> list_all ipField (splitChar CHR ''.'' ipchars)"

text \<open>\<^verbatim>\<open>bytes[i] & 0xff\<close> for a decimal field; a missing field is \<^verbatim>\<open>undefined\<close> and gives 0.  The results of the 32-bit operators of
  JavaScript are compared for equality only, so a word stands for them.\<close>

definition fieldByte :: "string list \<Rightarrow> nat \<Rightarrow> 32 word" where
  "fieldByte fs i =
     (if i < length fs then (case parseDigits 0 (fs ! i) of None \<Rightarrow> 0 | Some n \<Rightarrow> of_nat n AND 0xFF) else 0)"

definition convert_addr :: "string \<Rightarrow> 32 word" where
  "convert_addr ipchars =
     (let bytes = splitChar CHR ''.'' ipchars
      in push_bit 24 (fieldByte bytes 0) OR push_bit 16 (fieldByte bytes 1) OR push_bit 8 (fieldByte bytes 2) OR fieldByte bytes 3)"

definition isInNet :: "resolver \<Rightarrow> string \<Rightarrow> string \<Rightarrow> string \<Rightarrow> bool" where
  "isInNet lookup ipaddr0 pattern maskstr =
     (if \<not> isValidIpAddress pattern \<or> \<not> isValidIpAddress maskstr then False
      else
        (let ipaddr = (if isValidIpAddress ipaddr0 then ipaddr0 else dnsResolve lookup ipaddr0)
         in if \<not> isValidIpAddress ipaddr0 \<and> ipaddr = [] then False
            else convert_addr ipaddr AND convert_addr maskstr = convert_addr pattern AND convert_addr maskstr))"

definition isPlainHostName :: "string \<Rightarrow> bool" where
  "isPlainHostName host \<longleftrightarrow> CHR ''.'' \<notin> set host \<and> CHR '':'' \<notin> set host"

definition isResolvable :: "resolver \<Rightarrow> string \<Rightarrow> bool" where
  "isResolvable lookup host \<longleftrightarrow> dnsResolve lookup host \<noteq> []"

definition localHostOrDomainIs :: "string \<Rightarrow> string \<Rightarrow> bool" where
  "localHostOrDomainIs host hostdom \<longleftrightarrow> host = hostdom \<or> hasPrefix hostdom (host @ ''.'')"

text \<open>\<^verbatim>\<open>shExpMatch\<close>: \<open>test\<close> is the engine's \<^verbatim>\<open>new RegExp(re).test(url)\<close>, which throws when the expression is malformed.  The
  three replacements are made one after the other.\<close>

definition shExpRegExp :: "string \<Rightarrow> string" where
  "shExpRegExp pattern =
     (let p1 = replaceAll pattern ''.'' [CHR 0x5C, CHR ''.''];
          p2 = replaceAll p1 ''*'' ''.*'';
          p3 = replaceAll p2 ''?'' ''.''
      in ''^'' @ p3 @ ''$'')"

definition shExpMatch :: "(string \<Rightarrow> string \<Rightarrow> bool go_result) \<Rightarrow> string \<Rightarrow> string \<Rightarrow> bool go_result" where
  "shExpMatch test url pattern = test (shExpRegExp pattern) url"

section \<open>Dates\<close>

text \<open>An argument of the variadic functions, and its conversions: \<^verbatim>\<open>Number\<close> for decimal integers and \<^verbatim>\<open>parseInt\<close> for decimal
  text, with \<^const>\<open>None\<close> for \<^verbatim>\<open>NaN\<close>.\<close>

datatype jsArg = JNum int | JStr string

definition signed :: "string \<Rightarrow> int \<times> string" where
  "signed s = (case s of [] \<Rightarrow> (1, []) | c # t \<Rightarrow> if c = CHR ''-'' then (-1, t) else if c = CHR ''+'' then (1, t) else (1, s))"

fun jsNumber :: "jsArg \<Rightarrow> int option" where
  "jsNumber (JNum n) = Some n"
| "jsNumber (JStr s) =
     (let t = trimSpace s
      in if t = [] then Some 0
         else (case signed t of (sg, ds) \<Rightarrow> if ds = [] then None else map_option (\<lambda>n. sg * int n) (parseDigits 0 ds)))"

fun jsParseInt :: "jsArg \<Rightarrow> int option" where
  "jsParseInt (JNum n) = Some n"
| "jsParseInt (JStr s) =
     (case signed (trimLeftFunc isSpace s) of (sg, t) \<Rightarrow>
        (let ds = takeWhile (\<lambda>c. digitVal c \<noteq> None) t
         in if ds = [] then None else map_option (\<lambda>n. sg * int n) (parseDigits 0 ds)))"

text \<open>A \<^verbatim>\<open>Date\<close> by its local fields, with the month from 0, in a time zone of constant offset (in minutes).  The setters
  carry what is out of range into the larger fields.\<close>

record jsDate =
  d_year :: int
  d_month :: int
  d_day :: int
  d_hour :: int
  d_min :: int
  d_sec :: int
  d_ms :: int

definition leap :: "int \<Rightarrow> bool" where
  "leap y \<longleftrightarrow> y mod 4 = 0 \<and> y mod 100 \<noteq> 0 \<or> y mod 400 = 0"

definition daysIn :: "int \<Rightarrow> int \<Rightarrow> int" where
  "daysIn y m = (if m = 1 then (if leap y then 29 else 28) else if m \<in> {3, 5, 8, 10} then 30 else 31)"

lemma daysIn_pos: "28 \<le> daysIn y m" "daysIn y m \<le> 31"
  by (simp_all add: daysIn_def)

definition prevMonth :: "int \<times> int \<Rightarrow> int \<times> int" where
  "prevMonth ym = (case ym of (y, m) \<Rightarrow> if m = 0 then (y - 1, 11) else (y, m - 1))"

definition nextMonth :: "int \<times> int \<Rightarrow> int \<times> int" where
  "nextMonth ym = (case ym of (y, m) \<Rightarrow> if m = 11 then (y + 1, 0) else (y, m + 1))"

function carryDay :: "int \<times> int \<Rightarrow> int \<Rightarrow> int \<times> int \<times> int" where
  "carryDay ym d =
     (if d < 1 then carryDay (prevMonth ym) (d + daysIn (fst (prevMonth ym)) (snd (prevMonth ym)))
      else if d > daysIn (fst ym) (snd ym) then carryDay (nextMonth ym) (d - daysIn (fst ym) (snd ym))
      else (fst ym, snd ym, d))"
  by pat_completeness auto
termination
proof (relation "measure (\<lambda>(ym, d). if d < 1 then nat (1 - d) + 40 else if d > daysIn (fst ym) (snd ym) then nat d else 0)")
  show "((prevMonth ym, d + daysIn (fst (prevMonth ym)) (snd (prevMonth ym))), ym, d) \<in>
      measure (\<lambda>(ym, d). if d < 1 then nat (1 - d) + 40 else if d > daysIn (fst ym) (snd ym) then nat d else 0)" if "d < 1" for ym d
    using daysIn_pos [of "fst (prevMonth ym)" "snd (prevMonth ym)"] that by simp
  show "((nextMonth ym, d - daysIn (fst ym) (snd ym)), ym, d) \<in>
      measure (\<lambda>(ym, d). if d < 1 then nat (1 - d) + 40 else if d > daysIn (fst ym) (snd ym) then nat d else 0)"
    if "\<not> d < 1" "d > daysIn (fst ym) (snd ym)" for ym d
    using daysIn_pos [of "fst ym" "snd ym"] that by simp
qed simp

declare carryDay.simps [simp del]

definition setDay :: "int \<Rightarrow> int \<Rightarrow> int \<Rightarrow> jsDate \<Rightarrow> jsDate" where
  "setDay y m d dt =
     (case carryDay (y + m div 12, m mod 12) d of (y', m', d') \<Rightarrow> dt\<lparr>d_year := y', d_month := m', d_day := d'\<rparr>)"

definition setFullYear :: "int \<Rightarrow> jsDate \<Rightarrow> jsDate" where
  "setFullYear y dt = setDay y (d_month dt) (d_day dt) dt"

definition setMonth :: "int \<Rightarrow> jsDate \<Rightarrow> jsDate" where
  "setMonth m dt = setDay (d_year dt) m (d_day dt) dt"

definition setDate :: "int \<Rightarrow> jsDate \<Rightarrow> jsDate" where
  "setDate d dt = setDay (d_year dt) (d_month dt) d dt"

definition setClock :: "int \<Rightarrow> int \<Rightarrow> int \<Rightarrow> jsDate \<Rightarrow> jsDate" where
  "setClock h mi s dt =
     (let mi' = mi + s div 60; h' = h + mi' div 60
      in setDay (d_year dt) (d_month dt) (d_day dt + h' div 24) (dt\<lparr>d_hour := h' mod 24, d_min := mi' mod 60, d_sec := s mod 60\<rparr>))"

definition setHours :: "int \<Rightarrow> jsDate \<Rightarrow> jsDate" where
  "setHours h dt = setClock h (d_min dt) (d_sec dt) dt"

definition setMinutes :: "int \<Rightarrow> jsDate \<Rightarrow> jsDate" where
  "setMinutes mi dt = setClock (d_hour dt) mi (d_sec dt) dt"

definition setSeconds :: "int \<Rightarrow> jsDate \<Rightarrow> jsDate" where
  "setSeconds s dt = setClock (d_hour dt) (d_min dt) s dt"

definition utc :: "int \<Rightarrow> jsDate \<Rightarrow> jsDate" where
  "utc zone dt = setClock (d_hour dt) (d_min dt - zone) (d_sec dt) dt"

fun lexLe :: "int list \<Rightarrow> int list \<Rightarrow> bool" where
  "lexLe (x # xs) (y # ys) = (x < y \<or> x = y \<and> lexLe xs ys)"
| "lexLe [] ys = True"
| "lexLe (x # xs) [] = False"

definition dateLe :: "jsDate \<Rightarrow> jsDate \<Rightarrow> bool" where
  "dateLe a b = lexLe [d_year a, d_month a, d_day a, d_hour a, d_min a, d_sec a, d_ms a]
                      [d_year b, d_month b, d_day b, d_hour b, d_min b, d_sec b, d_ms b]"

definition inRange :: "jsDate \<Rightarrow> jsDate \<Rightarrow> jsDate \<Rightarrow> bool" where
  "inRange date1 date2 date =
     (if dateLe date1 date2 then dateLe date1 date \<and> dateLe date date2 else dateLe date date2 \<or> dateLe date1 date)"

text \<open>The sequence of setters that turns the current date into UTC.  Each one reads the date its predecessors changed.\<close>

definition toGMT :: "int \<Rightarrow> jsDate \<Rightarrow> jsDate" where
  "toGMT zone d0 =
     (let d1 = setFullYear (d_year (utc zone d0)) d0;
          d2 = setMonth (d_month (utc zone d1)) d1;
          d3 = setDate (d_day (utc zone d2)) d2;
          d4 = setHours (d_hour (utc zone d3)) d3;
          d5 = setMinutes (d_min (utc zone d4)) d4
      in setSeconds (d_sec (utc zone d5)) d5)"

section \<open>Week days, dates and times\<close>

definition wdays :: "string list" where
  "wdays = [''SUN'', ''MON'', ''TUE'', ''WED'', ''THU'', ''FRI'', ''SAT'']"

definition months :: "string list" where
  "months = [''JAN'', ''FEB'', ''MAR'', ''APR'', ''MAY'', ''JUN'', ''JUL'', ''AUG'', ''SEP'', ''OCT'', ''NOV'', ''DEC'']"

fun indexFrom :: "int \<Rightarrow> string \<Rightarrow> string list \<Rightarrow> int" where
  "indexFrom i x [] = -1"
| "indexFrom i x (y # ys) = (if x = y then i else indexFrom (i + 1) x ys)"

text \<open>\<^verbatim>\<open>getDay\<close> and \<^verbatim>\<open>getMonth\<close>; names that \<^verbatim>\<open>in\<close> finds on the prototype of the table are not considered.\<close>

definition nameIndex :: "string list \<Rightarrow> jsArg \<Rightarrow> int" where
  "nameIndex names a = (case a of JNum n \<Rightarrow> -1 | JStr s \<Rightarrow> indexFrom 0 s names)"

definition dropGMT :: "jsArg list \<Rightarrow> bool \<times> jsArg list" where
  "dropGMT args = (if args \<noteq> [] \<and> last args = JStr ''GMT'' then (True, butlast args) else (False, args))"

definition weekdayRange :: "int \<Rightarrow> int \<Rightarrow> jsArg list \<Rightarrow> bool" where
  "weekdayRange localDay utcDay args =
     (if args = [] then False
      else
        (case dropGMT args of (gmt, as) \<Rightarrow>
           (let wday = (if gmt then utcDay else localDay);
                wd1 = nameIndex wdays (args ! 0);
                wd2 = (if length as = 2 then nameIndex wdays (args ! 1) else wd1)
            in if wd1 = -1 \<or> wd2 = -1 then False
               else if wd1 \<le> wd2 then wd1 \<le> wday \<and> wday \<le> wd2
               else wd2 \<ge> wday \<or> wday \<ge> wd1)))"

definition setBound :: "jsArg \<Rightarrow> jsDate \<Rightarrow> jsDate" where
  "setBound a dt =
     (case jsParseInt a of
        None \<Rightarrow> setMonth (nameIndex months a) dt
      | Some tmp \<Rightarrow> if tmp < 32 then setDate tmp dt else setFullYear tmp dt)"

definition dateRange :: "int \<Rightarrow> jsDate \<Rightarrow> jsArg list \<Rightarrow> bool" where
  "dateRange zone date args =
     (if args = [] then False
      else
        (case dropGMT args of (isGMT, as) \<Rightarrow>
           if length as = 1 then
             (let cur = (if isGMT then utc zone date else date)
              in case jsParseInt (as ! 0) of
                   None \<Rightarrow> d_month cur = nameIndex months (as ! 0)
                 | Some tmp \<Rightarrow> if tmp < 32 then d_day cur = tmp else d_year cur = tmp)
           else
             (let half = length as div 2; year = d_year date;
                  a1 = \<lparr>d_year = year, d_month = 0, d_day = 1, d_hour = 0, d_min = 0, d_sec = 0, d_ms = 0\<rparr>;
                  a2 = \<lparr>d_year = year, d_month = 11, d_day = 31, d_hour = 23, d_min = 59, d_sec = 59, d_ms = 0\<rparr>;
                  b1 = fold setBound (take half as) a1;
                  b2 = fold setBound (drop half as) a2;
                  adjust = (length as \<le> 2 \<and> list_ex (\<lambda>a. case jsParseInt a of None \<Rightarrow> False | Some tmp \<Rightarrow> tmp < 32) (take half as));
                  date1 = (if adjust then setMonth (d_month date) b1 else b1);
                  date2 = (if adjust then setMonth (d_month date) b2 else b2)
              in inRange date1 date2 (if isGMT then toGMT zone date else date))))"

text \<open>\<^verbatim>\<open>timeRange\<close>: a setter given \<^verbatim>\<open>NaN\<close> makes the date invalid (\<^const>\<open>None\<close>), and no comparison with it holds.  The three
  \<^verbatim>\<open>new Date()\<close> of a call read the same instant.\<close>

definition setOpt :: "(int \<Rightarrow> jsDate \<Rightarrow> jsDate) \<Rightarrow> jsArg \<Rightarrow> jsDate option \<Rightarrow> jsDate option" where
  "setOpt f a dt = (case (jsNumber a, dt) of (Some n, Some d) \<Rightarrow> Some (f n d) | _ \<Rightarrow> None)"

definition inRangeOpt :: "jsDate option \<Rightarrow> jsDate option \<Rightarrow> jsDate \<Rightarrow> bool" where
  "inRangeOpt date1 date2 date =
     (case (date1, date2) of
        (Some a, Some b) \<Rightarrow> inRange a b date
      | (Some a, None) \<Rightarrow> dateLe a date
      | (None, Some b) \<Rightarrow> dateLe date b
      | (None, None) \<Rightarrow> False)"

definition timeRange :: "int \<Rightarrow> jsDate \<Rightarrow> jsArg list \<Rightarrow> bool go_result" where
  "timeRange zone date args =
     (if args = [] then Return False
      else
        (case dropGMT args of (isGMT, as) \<Rightarrow>
           (let hour = d_hour (if isGMT then utc zone date else date); argc = length as
            in if argc = 1 then Return (jsNumber (as ! 0) = Some hour)
               else if argc = 2 then
                 Return ((case jsNumber (as ! 0) of None \<Rightarrow> False | Some a \<Rightarrow> a \<le> hour) \<and>
                         (case jsNumber (as ! 1) of None \<Rightarrow> False | Some b \<Rightarrow> hour \<le> b))
               else if argc = 4 \<or> argc = 6 then
                 (let middle = argc div 2;
                      s1 = (if argc = 6 then setOpt setSeconds (as ! 2) (Some date) else Some date);
                      s2 = (if argc = 6 then setOpt setSeconds (as ! 5) (Some date) else Some date);
                      date1 = setOpt setMinutes (as ! 1) (setOpt setHours (as ! 0) s1);
                      m2 = setOpt setMinutes (as ! (middle + 1)) (setOpt setHours (as ! middle) s2);
                      date2 = (if middle = 2 then map_option (setSeconds 59) m2 else m2)
                  in Return (inRangeOpt date1 date2 (if isGMT then toGMT zone date else date)))
               else Error ''timeRange: bad number of arguments'')))"

end
