(* ===== verification/Pac_Utils_Props.thy ===== *)
theory Pac_Utils_Props
  imports Pac_Utils Network_Rules
begin

text \<open>
  What the helpers of a PAC script compute: \<^verbatim>\<open>isInNet\<close> against the CIDR rules of the allow list, \<^verbatim>\<open>shExpMatch\<close> against shell
  patterns, and the week day and date ranges against intervals.
\<close>

section \<open>Addresses\<close>

lemma length_itoaNat_octet: "n < 256 \<Longrightarrow> length (itoaNat n) \<le> 3"
  by (simp add: itoaNat.simps [of n] itoaNat.simps [of "n div 10"] itoaNat.simps [of "n div 10 div 10"])

lemma ipField_itoaNat: "n < 256 \<Longrightarrow> ipField (itoaNat n)"
  using length_itoaNat_octet [of n] by (simp add: ipField_def Suc_le_eq)

lemma splitChar_string4: "splitChar CHR ''.'' (string4 w) = map (\<lambda>b. itoaNat (unat b)) (bytes4 w)"
  unfolding string4_def by (rule splitChar_joinStr) (auto simp: no_dot_itoaNat bytes4_def)

lemma isValidIpAddress_string4: "isValidIpAddress (string4 w)"
proof -
  have "ipField (itoaNat (unat b))" for b :: "8 word" using unsigned_less [of b] by (intro ipField_itoaNat) simp
  then show ?thesis by (simp add: isValidIpAddress_def splitChar_string4 bytes4_def)
qed

lemma fieldByte_itoaNat:
  "i < length bs \<Longrightarrow> fieldByte (map (\<lambda>b. itoaNat (unat b)) bs) i = ucast (bs ! i :: 8 word)"
proof -
  have ff: "(0xFF :: 32 word) = mask 8" by (simp add: mask_eq_exp_minus_1)
  assume "i < length bs"
  then have "fieldByte (map (\<lambda>b. itoaNat (unat b)) bs) i = ucast (bs ! i) AND mask 8" by (simp add: fieldByte_def ff)
  also have "\<dots> = ucast (bs ! i)" by (rule bit_word_eqI) (auto simp: bit_simps dest: bit_imp_le_length)
  finally show ?thesis .
qed

text \<open>Reading an address back from its text.\<close>

lemma convert_addr_string4: "convert_addr (string4 w) = w"
proof -
  have "convert_addr (string4 w) = push_bit 24 (ucast (ucast (drop_bit 24 w) :: 8 word)) OR
      push_bit 16 (ucast (ucast (drop_bit 16 w) :: 8 word)) OR
      push_bit 8 (ucast (ucast (drop_bit 8 w) :: 8 word)) OR ucast (ucast w :: 8 word)"
    unfolding convert_addr_def splitChar_string4 Let_def by (subst fieldByte_itoaNat, simp add: bytes4_def)+ (simp add: bytes4_def)
  also have "\<dots> = w"
  proof (rule bit_word_eqI)
    fix n assume "n < LENGTH(32)"
    then consider "n < 8" | "8 \<le> n" "n < 16" | "16 \<le> n" "n < 24" | "24 \<le> n" "n < 32" by fastforce
    then show "bit (push_bit 24 (ucast (ucast (drop_bit 24 w) :: 8 word)) OR
        push_bit 16 (ucast (ucast (drop_bit 16 w) :: 8 word)) OR
        push_bit 8 (ucast (ucast (drop_bit 8 w) :: 8 word)) OR (ucast (ucast w :: 8 word) :: 32 word)) n = bit w n"
      by cases (auto simp: bit_simps)
  qed
  finally show ?thesis .
qed

lemma isInNet_string4:
  "isInNet lookup (string4 a) (string4 p) (string4 m) \<longleftrightarrow> a AND m = p AND m"
  by (simp add: isInNet_def isValidIpAddress_string4 convert_addr_string4)

text \<open>A host name is looked up, and its first IPv4 address is tested.\<close>

lemma dnsResolve_first:
  "lookup h = Some ips \<Longrightarrow> List.find (\<lambda>ip. is4 (unmap ip)) ips = Some ip \<Longrightarrow> unmap ip = V4 a \<Longrightarrow> dnsResolve lookup h = string4 a"
  by (simp add: dnsResolve_def)

lemma dnsResolve_cases: "dnsResolve lookup h = [] \<or> (\<exists>a. dnsResolve lookup h = string4 a)"
proof (cases "lookup h")
  case (Some ips)
  show ?thesis
  proof (cases "List.find (\<lambda>ip. is4 (unmap ip)) ips")
    case (Some ip)
    then have "is4 (unmap ip)" by (auto simp: find_Some_iff)
    then show ?thesis using Some \<open>lookup h = Some ips\<close> by (cases "unmap ip") (auto simp: dnsResolve_def)
  qed (simp add: dnsResolve_def \<open>lookup h = Some ips\<close>)
qed (simp add: dnsResolve_def)

definition netmask :: "nat \<Rightarrow> 32 word" where
  "netmask n = NOT (mask (32 - n))"

lemma and_netmask: "a AND netmask n = p AND netmask n \<longleftrightarrow> unat a div 2 ^ (32 - n) = unat p div 2 ^ (32 - n)"
proof -
  have eq: "a AND netmask n = push_bit (32 - n) (drop_bit (32 - n) a)" for a
    by (rule bit_word_eqI) (auto simp: netmask_def bit_simps)
  have "drop_bit (32 - n) (push_bit (32 - n) (drop_bit (32 - n) a)) = drop_bit (32 - n) a" for a :: "32 word"
    by (rule bit_word_eqI) (auto simp: bit_simps dest: bit_imp_le_length)
  then have "a AND netmask n = p AND netmask n \<longleftrightarrow> drop_bit (32 - n) a = drop_bit (32 - n) p"
    unfolding eq by metis
  also have "\<dots> \<longleftrightarrow> unat (drop_bit (32 - n) a) = unat (drop_bit (32 - n) p)"
    by (auto dest: unsigned_word_eqI)
  finally show ?thesis by (simp add: unat_drop_bit_eq drop_bit_eq_div [where 'a = nat])
qed

lemma isInNet_cidr: "isInNet lookup (string4 a) (string4 p) (string4 (netmask n)) = rule_matches (RCidr p n) a"
  by (simp add: isInNet_string4 and_netmask)

text \<open>C13.  \<^verbatim>\<open>isInNet\<close> in a PAC script and a CIDR entry of the allow or no-proxy list mean the same set of addresses: the rule
  \<open>p/n\<close> is accepted by \<^verbatim>\<open>Parse\<close>, and for every IPv4 address \<^verbatim>\<open>MatchIP\<close> answers what \<^verbatim>\<open>isInNet\<close> answers on the
  texts of the address, of \<open>p\<close> and of the mask with \<open>n\<close> leading ones.  A host name whose first IPv4 address is \<open>a\<close> is
  treated as \<open>a\<close>.\<close>

theorem isInNet_is_cidr_rule:
  assumes "n \<le> 32"
  shows "\<exists>m. Parse (string4 p @ ''/'' @ itoaNat n) = Return m \<and>
    (\<forall>a. matchIP (Some m) (V4 a) = Return (isInNet lookup (string4 a) (string4 p) (string4 (netmask n)))) \<and>
    (\<forall>h a. \<not> isValidIpAddress h \<and> dnsResolve lookup h = string4 a \<longrightarrow>
       matchIP (Some m) (V4 a) = Return (isInNet lookup h (string4 p) (string4 (netmask n))))"
proof -
  let ?m = "rule_effect (RCidr p n) emptyMatcher"
  have wf: "\<forall>r\<in>set [RCidr p n]. rule_wf r" using assms by simp
  have "rules_text [RCidr p n] = string4 p @ ''/'' @ itoaNat n" by (simp add: rules_text_def)
  then have "Parse (string4 p @ ''/'' @ itoaNat n) = Return ?m" using Parse_rules [OF wf] by simp
  moreover have "matchIP (Some ?m) (V4 a) = Return (rule_matches (RCidr p n) a)" for a
  proof -
    have "ranges_v4 (m_ranges ?m)" by (rule ranges_v4_rule_effect) (rule emptyMatcher_facts)
    then have "matchIP (Some ?m) (V4 a) = Return (a \<in> denote ?m)" by (rule nm.matches_V4)
    moreover have "denote ?m = denote emptyMatcher \<union> {w. rule_matches (RCidr p n) w}" using wf by (intro denote_rule_effect) simp
    ultimately show ?thesis by (simp add: emptyMatcher_facts del: rule_matches.simps rule_effect.simps)
  qed
  moreover have "isInNet lookup h (string4 p) (string4 (netmask n)) = isInNet lookup (string4 a) (string4 p) (string4 (netmask n))"
    if "\<not> isValidIpAddress h" "dnsResolve lookup h = string4 a" for h a
    using that by (simp add: isInNet_def isValidIpAddress_string4)
  ultimately show ?thesis by (simp add: isInNet_cidr)
qed

theorem isInNet_is_cidr_rule_witness:
  "\<exists>m. Parse (string4 (mk4 10 0 0 0) @ ''/'' @ itoaNat 8) = Return m \<and>
     matchIP (Some m) (V4 (mk4 10 1 2 3)) =
       Return (isInNet (\<lambda>_. None) (string4 (mk4 10 1 2 3)) (string4 (mk4 10 0 0 0)) (string4 (netmask 8)))"
  using isInNet_is_cidr_rule [of 8 "mk4 10 0 0 0" "\<lambda>_. None"] by auto

section \<open>Shell patterns\<close>

text \<open>The reference: \<open>*\<close> stands for any text, \<open>?\<close> for any character, everything else for itself.\<close>

fun glob :: "string \<Rightarrow> string \<Rightarrow> bool" where
  "glob [] s = (s = [])"
| "glob (c # p) s =
     (if c = CHR ''*'' then list_ex (glob p) (suffixes s)
      else (case s of [] \<Rightarrow> False | x # t \<Rightarrow> (c = CHR ''?'' \<or> x = c) \<and> glob p t))"

text \<open>The fragment of regular expressions the helper produces, as the engine's documentation gives its text and its meaning on
  texts of one line.\<close>

datatype reTok = Lit char | Any | AnyStar

definition metaChars :: string where
  "metaChars = CHR 0x5C # ''^$.*+?()[]{}|''"

fun reText :: "reTok \<Rightarrow> string" where
  "reText (Lit c) = (if c = CHR ''.'' then [CHR 0x5C, c] else [c])"
| "reText Any = ''.''"
| "reText AnyStar = ''.*''"

definition reTok_ok :: "reTok \<Rightarrow> bool" where
  "reTok_ok t \<longleftrightarrow> (case t of Lit c \<Rightarrow> c = CHR ''.'' \<or> c \<notin> set metaChars | _ \<Rightarrow> True)"

fun reMatch :: "reTok list \<Rightarrow> string \<Rightarrow> bool" where
  "reMatch [] s = (s = [])"
| "reMatch (Lit c # ts) s = (case s of [] \<Rightarrow> False | x # t \<Rightarrow> x = c \<and> reMatch ts t)"
| "reMatch (Any # ts) s = (case s of [] \<Rightarrow> False | x # t \<Rightarrow> reMatch ts t)"
| "reMatch (AnyStar # ts) s = list_ex (reMatch ts) (suffixes s)"

definition oneLine :: "string \<Rightarrow> bool" where
  "oneLine s \<longleftrightarrow> CHR 0x0A \<notin> set s \<and> CHR 0x0D \<notin> set s"

definition RegExp_documented :: "(string \<Rightarrow> string \<Rightarrow> bool go_result) \<Rightarrow> bool" where
  "RegExp_documented test \<longleftrightarrow>
     (\<forall>ts s. list_all reTok_ok ts \<and> oneLine s \<longrightarrow> test (''^'' @ concat (map reText ts) @ ''$'') s = Return (reMatch ts s))"

definition globTok :: "char \<Rightarrow> reTok" where
  "globTok c = (if c = CHR ''*'' then AnyStar else if c = CHR ''?'' then Any else Lit c)"

lemma replaceAll_letter: "replaceAll s [c] new = concat (map (\<lambda>x. if x = c then new else [x]) s)"
  by (induction s) (auto simp: hasPrefix_iff)

text \<open>The three passes together translate character by character.\<close>

lemma shExpRegExp_toks: "shExpRegExp p = ''^'' @ concat (map reText (map globTok p)) @ ''$''"
proof -
  have "concat (map (\<lambda>x. if x = CHR ''?'' then ''.'' else [x]) (concat (map (\<lambda>x. if x = CHR ''*'' then ''.*'' else [x])
      (concat (map (\<lambda>x. if x = CHR ''.'' then [CHR 0x5C, CHR ''.''] else [x]) p))))) = concat (map reText (map globTok p))"
    by (induction p) (auto simp: globTok_def)
  then show ?thesis by (simp add: shExpRegExp_def Let_def replaceAll_letter)
qed

lemma reMatch_glob: "reMatch (map globTok p) s = glob p s"
proof (induction p arbitrary: s)
  case (Cons c p)
  then have "reMatch (map globTok p) = glob p" by blast
  then show ?case by (simp add: globTok_def [of c] split: list.split)
qed simp

text \<open>C14.  \<^verbatim>\<open>shExpMatch\<close> is shell pattern matching, for every one-line text and every pattern whose characters other than
  \<open>.\<close>, \<open>*\<close> and \<open>?\<close> are not special in a regular expression: given an engine that treats literals, \<open>.\<close> and \<open>.*\<close>
  between anchors as documented, the expression built by the three replacements never throws and matches exactly what the
  pattern means.\<close>

theorem shExpMatch_is_glob:
  assumes "RegExp_documented test" and "\<forall>c\<in>set pattern. c \<in> set ''.*?'' \<or> c \<notin> set metaChars" and "oneLine url"
  shows "shExpMatch test url pattern = Return (glob pattern url)"
proof -
  have "reTok_ok (globTok c)" if "c \<in> set pattern" for c
    using bspec [OF assms(2) that] by (auto simp: globTok_def reTok_ok_def)
  then have "list_all reTok_ok (map globTok pattern)" by (simp add: list_all_iff)
  then have "test (''^'' @ concat (map reText (map globTok pattern)) @ ''$'') url = Return (reMatch (map globTok pattern) url)"
    using assms(1,3) unfolding RegExp_documented_def by blast
  then show ?thesis by (simp only: shExpMatch_def shExpRegExp_toks reMatch_glob)
qed

text \<open>An engine for this fragment.\<close>

fun reParse :: "string \<Rightarrow> reTok list" where
  "reParse [] = []"
| "reParse [x] = (if x = CHR ''$'' then [] else if x = CHR ''.'' then [Any] else [Lit x])"
| "reParse (x # y # s) =
     (if x = CHR 0x5C then Lit y # reParse s
      else if x = CHR ''.'' then (if y = CHR ''*'' then AnyStar # reParse s else Any # reParse (y # s))
      else Lit x # reParse (y # s))"

definition fragmentTest :: "string \<Rightarrow> string \<Rightarrow> bool go_result" where
  "fragmentTest re s = (case re of [] \<Rightarrow> Return True | _ # r \<Rightarrow> Return (reMatch (reParse r) s))"

lemma reParse_text: "list_all reTok_ok ts \<Longrightarrow> reParse (concat (map reText ts) @ ''$'') = ts"
proof (induction ts)
  case (Cons t ts)
  let ?r = "concat (map reText ts) @ ''$''"
  obtain y s where r: "?r = y # s" by (cases ?r) auto
  have "y \<noteq> CHR ''*''"
  proof (cases ts)
    case (Cons u us)
    then show ?thesis using r \<open>list_all reTok_ok (t # ts)\<close> by (cases u) (auto simp: reTok_ok_def metaChars_def split: if_splits)
  qed (use r in auto)
  then show ?case using Cons r by (cases t) (auto simp: reTok_ok_def metaChars_def)
qed simp

lemma fragmentTest_documented: "RegExp_documented fragmentTest"
  by (auto simp: RegExp_documented_def fragmentTest_def reParse_text)

theorem shExpMatch_is_glob_witness:
  "shExpMatch fragmentTest ''http://www.intra.net/a'' ''*.intra.ne?/*'' = Return (glob ''*.intra.ne?/*'' ''http://www.intra.net/a'')"
  by (rule shExpMatch_is_glob [OF fragmentTest_documented]) (simp_all add: metaChars_def oneLine_def)

section \<open>Week days\<close>

lemma wdays_index: "d < 7 \<Longrightarrow> nameIndex wdays (JStr (wdays ! d)) = int d"
  by (simp add: numeral_eq_Suc less_Suc_eq) (auto simp: nameIndex_def wdays_def)

lemma wdays_not_GMT: "d < 7 \<Longrightarrow> wdays ! d \<noteq> ''GMT''"
  by (simp add: numeral_eq_Suc less_Suc_eq) (auto simp: wdays_def)

lemma cyclic_interval:
  fixes a b x :: int
  assumes "0 \<le> a" "a < n" "0 \<le> b" "b < n" "0 \<le> x" "x < n"
  shows "(if a \<le> b then a \<le> x \<and> x \<le> b else b \<ge> x \<or> x \<ge> a) \<longleftrightarrow> (x - a) mod n \<le> (b - a) mod n"
proof -
  have md: "(y - a) mod n = (if a \<le> y then y - a else y - a + n)" if "0 \<le> y" "y < n" for y
    using that assms(1,2) mod_add_self2 [of "y - a" n] mod_pos_pos_trivial [of "y - a + n" n] by (auto simp: mod_pos_pos_trivial)
  show ?thesis using assms by (simp add: md)
qed

text \<open>\<^verbatim>\<open>weekdayRange\<close> is a cyclic interval: with two day names it is true exactly on the days met when walking forward from
  the first to the second, across the end of the week too; with one name, on that day; with \<^verbatim>\<open>GMT\<close> last, of the UTC day.\<close>

lemma weekdayRange_cyclic:
  assumes "d1 < 7" "d2 < 7" "0 \<le> wday" "wday < 7"
  shows "weekdayRange wday u [JStr (wdays ! d1), JStr (wdays ! d2)] \<longleftrightarrow> (wday - int d1) mod 7 \<le> (int d2 - int d1) mod 7"
    and "weekdayRange l wday [JStr (wdays ! d1), JStr (wdays ! d2), JStr ''GMT''] \<longleftrightarrow> (wday - int d1) mod 7 \<le> (int d2 - int d1) mod 7"
    and "weekdayRange wday u [JStr (wdays ! d1)] \<longleftrightarrow> wday = int d1"
  using assms cyclic_interval [of "int d1" 7 "int d2" wday]
  by (auto simp: weekdayRange_def dropGMT_def wdays_not_GMT wdays_index Let_def)

section \<open>Dates\<close>

definition date_ok :: "jsDate \<Rightarrow> bool" where
  "date_ok d \<longleftrightarrow> 0 \<le> d_month d \<and> d_month d \<le> 11 \<and> 1 \<le> d_day d \<and> d_day d \<le> daysIn (d_year d) (d_month d) \<and>
     0 \<le> d_hour d \<and> d_hour d \<le> 23 \<and> 0 \<le> d_min d \<and> d_min d \<le> 59 \<and> 0 \<le> d_sec d \<and> d_sec d \<le> 59 \<and> 0 \<le> d_ms d \<and> d_ms d \<le> 999"

lemma carryDay_in: "1 \<le> d \<Longrightarrow> d \<le> daysIn (fst ym) (snd ym) \<Longrightarrow> carryDay ym d = (fst ym, snd ym, d)"
  by (simp add: carryDay.simps)

text \<open>The carry always ends in a day of the calendar.\<close>

lemma carryDay_ok:
  "0 \<le> snd ym \<Longrightarrow> snd ym \<le> 11 \<Longrightarrow>
   (case carryDay ym d of (y, m, d') \<Rightarrow> 0 \<le> m \<and> m \<le> 11 \<and> 1 \<le> d' \<and> d' \<le> daysIn y m)"
proof (induction ym d rule: carryDay.induct)
  case (1 ym d)
  have "0 \<le> snd (prevMonth ym)" "snd (prevMonth ym) \<le> 11" "0 \<le> snd (nextMonth ym)" "snd (nextMonth ym) \<le> 11"
    using 1(3,4) by (auto simp: prevMonth_def nextMonth_def split: prod.split)
  then show ?case using 1 by (subst carryDay.simps) auto
qed

lemma setDay_ok: "date_ok dt \<Longrightarrow> date_ok (setDay y m d dt)"
proof -
  have "0 \<le> m mod 12 \<and> m mod 12 \<le> 11" by presburger
  then show "date_ok dt \<Longrightarrow> date_ok (setDay y m d dt)"
    using carryDay_ok [of "(y + m div 12, m mod 12)" d] by (simp add: setDay_def date_ok_def split: prod.splits)
qed

lemma setClock_ok: "date_ok dt \<Longrightarrow> date_ok (setClock h mi s dt)"
proof -
  assume ok: "date_ok dt"
  have "0 \<le> x mod 60 \<and> x mod 60 \<le> 59" "0 \<le> x mod 24 \<and> x mod 24 \<le> 23" for x :: int by presburger+
  then have "date_ok (dt\<lparr>d_hour := h' mod 24, d_min := mi' mod 60, d_sec := s mod 60\<rparr>)" for h' mi'
    using ok by (simp add: date_ok_def)
  then show ?thesis unfolding setClock_def Let_def by (rule setDay_ok)
qed

lemma months_index: "j < 12 \<Longrightarrow> nameIndex months (JStr (months ! j)) = int j"
  by (simp add: numeral_eq_Suc less_Suc_eq) (auto simp: nameIndex_def months_def)

lemma months_not_GMT: "j < 12 \<Longrightarrow> months ! j \<noteq> ''GMT''"
  by (simp add: numeral_eq_Suc less_Suc_eq) (auto simp: months_def)

lemma months_not_number: "j < 12 \<Longrightarrow> jsParseInt (JStr (months ! j)) = None"
proof -
  have "list_all (\<lambda>m. jsParseInt (JStr m) = None) months" by code_simp
  then show "j < 12 \<Longrightarrow> jsParseInt (JStr (months ! j)) = None" by (simp add: list_all_length months_def del: jsParseInt.simps)
qed

lemma setBound_month: "j < 12 \<Longrightarrow> setBound (JStr (months ! j)) dt = setMonth (int j) dt"
  by (simp add: setBound_def months_not_number months_index del: jsParseInt.simps)

text \<open>The last day of the year, moved to another month, runs over into the following one when the month is short.\<close>

lemma setMonth_last_day:
  assumes "j < 12" "d_day dt = 31"
  shows "setMonth (int j) dt =
    (if daysIn (d_year dt) (int j) = 31 then dt\<lparr>d_month := int j\<rparr>
     else dt\<lparr>d_month := int j + 1, d_day := 31 - daysIn (d_year dt) (int j)\<rparr>)"
proof (cases "daysIn (d_year dt) (int j) = 31")
  case False
  then have j: "int j \<noteq> 11" by (auto simp: daysIn_def)
  have "carryDay (d_year dt, int j) 31 = carryDay (d_year dt, int j + 1) (31 - daysIn (d_year dt) (int j))"
    using False daysIn_pos [of "d_year dt" "int j"] j by (subst carryDay.simps) (simp add: nextMonth_def)
  also have "\<dots> = (d_year dt, int j + 1, 31 - daysIn (d_year dt) (int j))"
    using False daysIn_pos [of "d_year dt" "int j"] daysIn_pos [of "d_year dt" "int j + 1"] by (subst carryDay_in) simp_all
  finally show ?thesis using assms False by (simp add: setMonth_def setDay_def)
qed (use assms in \<open>simp add: setMonth_def setDay_def carryDay_in\<close>)

lemma setMonth_first_day: "j < 12 \<Longrightarrow> d_day dt = 1 \<Longrightarrow> setMonth (int j) dt = dt\<lparr>d_month := int j\<rparr>"
  using daysIn_pos [of "d_year dt" "int j"] by (simp add: setMonth_def setDay_def carryDay_in)

abbreviation yearEnd :: "int \<Rightarrow> jsDate" where
  "yearEnd y \<equiv> \<lparr>d_year = y, d_month = 11, d_day = 31, d_hour = 23, d_min = 59, d_sec = 59, d_ms = 0\<rparr>"

text \<open>The days of the following month that a short month reaches into, the last day so reached, and the fraction of a second that
  is left of a day after 23:59:59.\<close>

definition overrun :: "int \<Rightarrow> nat \<Rightarrow> int" where
  "overrun y j = 31 - daysIn y (int j)"

definition lastDay :: "jsDate \<Rightarrow> nat \<Rightarrow> bool" where
  "lastDay date j \<longleftrightarrow>
     (if overrun (d_year date) j = 0 then d_month date = int j \<and> d_day date = 31
      else d_month date = int j + 1 \<and> d_day date = overrun (d_year date) j)"

definition dayIsOver :: "jsDate \<Rightarrow> bool" where
  "dayIsOver date \<longleftrightarrow> d_hour date = 23 \<and> d_min date = 59 \<and> d_sec date = 59 \<and> 0 < d_ms date"

text \<open>Up to the second month: the days of the year to its end, or to the end of its overrun, less that fraction of a second.\<close>

definition untilMonth :: "jsDate \<Rightarrow> nat \<Rightarrow> bool" where
  "untilMonth date j \<longleftrightarrow>
     (d_month date \<le> int j \<or> d_month date = int j + 1 \<and> d_day date \<le> overrun (d_year date) j) \<and> \<not> (lastDay date j \<and> dayIsOver date)"

lemma lexLe_clock_end:
  "date_ok date \<Longrightarrow> lexLe [d_hour date, d_min date, d_sec date, d_ms date] [23, 59, 59, 0] \<longleftrightarrow> \<not> dayIsOver date"
  by (auto simp: date_ok_def dayIsOver_def)

lemma upper_month_bound:
  assumes "date_ok date" "j < 12"
  shows "dateLe date (setMonth (int j) (yearEnd (d_year date))) \<longleftrightarrow> untilMonth date j"
proof (cases "daysIn (d_year date) (int j) = 31")
  case True
  have "d_day date \<le> 31" "1 \<le> d_day date" using assms(1) daysIn_pos(2) [of "d_year date" "d_month date"] by (auto simp: date_ok_def)
  then show ?thesis
    using True assms(2) lexLe_clock_end [OF assms(1)]
    by (auto simp: setMonth_last_day dateLe_def untilMonth_def lastDay_def overrun_def)
next
  case False
  then show ?thesis
    using assms(2) lexLe_clock_end [OF assms(1)] by (auto simp: setMonth_last_day dateLe_def untilMonth_def lastDay_def overrun_def)
qed

lemma lower_month_bound:
  assumes "date_ok date"
  shows "dateLe \<lparr>d_year = d_year date, d_month = m, d_day = 1, d_hour = 0, d_min = 0, d_sec = 0, d_ms = 0\<rparr> date \<longleftrightarrow> m \<le> d_month date"
  using assms by (auto simp: dateLe_def date_ok_def)

text \<open>Turning the current date into UTC with one setter after the other is right while the calendar day is the same in both
  zones.  Otherwise each setter reads a date its predecessors have moved: at half past midnight on March 1st 2024, one hour
  east of Greenwich, the result is March 2nd instead of February 29th.\<close>

lemma setDay_same: "date_ok d \<Longrightarrow> setDay (d_year d) (d_month d) (d_day d) d = d"
  by (simp add: setDay_def date_ok_def carryDay_in)

lemma date_ok_clock:
  "date_ok d \<Longrightarrow> 0 \<le> h \<and> h \<le> 23 \<Longrightarrow> 0 \<le> mi \<and> mi \<le> 59 \<Longrightarrow> date_ok (d\<lparr>d_hour := h, d_min := mi\<rparr>)"
  by (simp add: date_ok_def)

lemma setClock_in:
  assumes "date_ok d" "0 \<le> h \<and> h \<le> 23" "0 \<le> mi \<and> mi \<le> 59"
  shows "setClock h mi (d_sec d) d = d\<lparr>d_hour := h, d_min := mi\<rparr>"
proof -
  have "d\<lparr>d_hour := h, d_min := mi, d_sec := d_sec d\<rparr> = d\<lparr>d_hour := h, d_min := mi\<rparr>" by simp
  then show ?thesis
    using assms setDay_same [OF date_ok_clock [OF assms]] by (simp add: setClock_def date_ok_def)
qed

lemma utc_fields:
  assumes "date_ok d"
  shows "d_min (utc zone d) = (d_min d - zone) mod 60" "d_sec (utc zone d) = d_sec d" "d_ms (utc zone d) = d_ms d"
    "d_hour (utc zone d) = (d_hour d + (d_min d - zone) div 60) mod 24"
  using assms by (auto simp: utc_def setClock_def setDay_def date_ok_def Let_def split: prod.splits)

lemma toGMT_same_day:
  assumes ok: "date_ok d"
    and same: "d_year (utc zone d) = d_year d" "d_month (utc zone d) = d_month d" "d_day (utc zone d) = d_day d"
  shows "toGMT zone d = utc zone d"
proof -
  let ?h = "d_hour (utc zone d)" and ?mi = "d_min (utc zone d)"
  let ?d4 = "d\<lparr>d_hour := ?h\<rparr>" and ?d5 = "d\<lparr>d_hour := ?h, d_min := ?mi\<rparr>"
  have range: "0 \<le> ?h \<and> ?h \<le> 23" "0 \<le> ?mi \<and> ?mi \<le> 59" "0 \<le> d_hour d \<and> d_hour d \<le> 23" "0 \<le> d_min d \<and> d_min d \<le> 59"
    using ok unfolding utc_fields [OF ok] by (auto simp: date_ok_def)
  have ok4: "date_ok ?d4" using date_ok_clock [OF ok range(1,4)] by simp
  have ok5: "date_ok ?d5" using date_ok_clock [OF ok range(1,2)] .
  have "setHours ?h d = ?d4" using setClock_in [OF ok range(1,4)] by (simp add: setHours_def)
  moreover have "d_min (utc zone ?d4) = ?mi" unfolding utc_fields(1) [OF ok4] utc_fields(1) [OF ok] by simp
  moreover have "setMinutes ?mi ?d4 = ?d5" using setClock_in [OF ok4 range(1,2)] by (simp add: setMinutes_def)
  moreover have "setSeconds (d_sec (utc zone ?d5)) ?d5 = ?d5"
    unfolding utc_fields(2) [OF ok5] using setClock_in [OF ok5 range(1,2)] by (simp add: setSeconds_def)
  moreover have "utc zone d = ?d5" using same utc_fields(2,3) [OF ok] by simp
  ultimately show ?thesis
    using same ok by (simp add: toGMT_def setFullYear_def setMonth_def setDate_def setDay_same Let_def)
qed

lemma toGMT_off_by_days:
  "toGMT 60 \<lparr>d_year = 2024, d_month = 2, d_day = 1, d_hour = 0, d_min = 30, d_sec = 0, d_ms = 0\<rparr> =
     \<lparr>d_year = 2024, d_month = 2, d_day = 2, d_hour = 23, d_min = 30, d_sec = 0, d_ms = 0\<rparr>"
  "utc 60 \<lparr>d_year = 2024, d_month = 2, d_day = 1, d_hour = 0, d_min = 30, d_sec = 0, d_ms = 0\<rparr> =
     \<lparr>d_year = 2024, d_month = 1, d_day = 29, d_hour = 23, d_min = 30, d_sec = 0, d_ms = 0\<rparr>"
  by code_simp+

text \<open>The months a script means by two month names, around the end of the year when the second is earlier.\<close>

definition monthBetween :: "nat \<Rightarrow> nat \<Rightarrow> int \<Rightarrow> bool" where
  "monthBetween i j m \<longleftrightarrow> (if i \<le> j then int i \<le> m \<and> m \<le> int j else int i \<le> m \<or> m \<le> int j)"

lemma dateRange_two_months:
  assumes "i < 12" "j < 12"
  shows "dateRange zone date [JStr (months ! i), JStr (months ! j)] =
    inRange \<lparr>d_year = d_year date, d_month = int i, d_day = 1, d_hour = 0, d_min = 0, d_sec = 0, d_ms = 0\<rparr>
      (setMonth (int j) (yearEnd (d_year date))) date"
  using setMonth_first_day [OF assms(1)]
  by (simp add: dateRange_def dropGMT_def Let_def months_not_GMT [OF assms(1)] months_not_GMT [OF assms(2)] setBound_month [OF assms(1)]
      setBound_month [OF assms(2)] months_not_number [OF assms(1)] del: jsParseInt.simps)

lemma months_in_order:
  assumes "j < 12"
  shows "dateLe \<lparr>d_year = y, d_month = int i, d_day = 1, d_hour = 0, d_min = 0, d_sec = 0, d_ms = 0\<rparr> (setMonth (int j) (yearEnd y)) \<longleftrightarrow>
    i \<le> j \<or> i = j + 1 \<and> overrun y j \<noteq> 0"
  using assms daysIn_pos [of y "int j"] by (auto simp: setMonth_last_day dateLe_def overrun_def)

text \<open>C38.  What \<^verbatim>\<open>dateRange\<close> with two month names answers at every moment of the year, to the millisecond.  The upper bound is made
  from 23:59:59 on December 31 by changing its month only, so it reaches one to three days into the month after a second
  month shorter than 31 days.  The answer is true from the first month on and up to that bound, or outside of the gap when the range goes around the end of
  the year; but the two bounds count as in order also when the first month directly follows a short second one, and then
  only the overrun days are in the range.  At all moments but the overrun days and the fraction of a second after the bound, and for all pairs of
  months but those adjacent ones, the answer is that of the months named and those between them.\<close>

theorem dateRange_months:
  fixes zone :: int
  assumes "date_ok date" "i < 12" "j < 12"
  defines "answer \<equiv> dateRange zone date [JStr (months ! i), JStr (months ! j)]"
    and "over \<equiv> overrun (d_year date) j"
  shows "(answer \<longleftrightarrow>
      (if i \<le> j \<or> i = j + 1 \<and> over \<noteq> 0 then int i \<le> d_month date \<and> untilMonth date j
       else int i \<le> d_month date \<or> untilMonth date j)) \<and>
    (\<not> (d_month date = int j + 1 \<and> d_day date \<le> over) \<and> \<not> (lastDay date j \<and> dayIsOver date) \<and> \<not> (i = j + 1 \<and> over \<noteq> 0) \<longrightarrow>
      (answer \<longleftrightarrow> monthBetween i j (d_month date)))"
proof
  show exact: "answer \<longleftrightarrow>
      (if i \<le> j \<or> i = j + 1 \<and> over \<noteq> 0 then int i \<le> d_month date \<and> untilMonth date j
       else int i \<le> d_month date \<or> untilMonth date j)"
    unfolding answer_def over_def dateRange_two_months [OF assms(2,3)] inRange_def months_in_order [OF assms(3)]
      lower_month_bound [OF assms(1)] upper_month_bound [OF assms(1,3)] by auto
  show "\<not> (d_month date = int j + 1 \<and> d_day date \<le> over) \<and> \<not> (lastDay date j \<and> dayIsOver date) \<and> \<not> (i = j + 1 \<and> over \<noteq> 0) \<longrightarrow>
      (answer \<longleftrightarrow> monthBetween i j (d_month date))"
    unfolding exact by (auto simp: untilMonth_def monthBetween_def over_def)
qed

definition demoDay :: "int \<Rightarrow> int \<Rightarrow> jsDate" where
  "demoDay m d = \<lparr>d_year = 2024, d_month = m, d_day = d, d_hour = 12, d_min = 0, d_sec = 0, d_ms = 250\<rparr>"

text \<open>January to February includes March 1st and not March 3rd; the range from March to February includes March 1st and not July 1st; the
  range from December to January includes January 31 at noon and not its last half second.\<close>

theorem dateRange_months_witness:
  "dateRange 60 (demoDay 2 1) [JStr (months ! 0), JStr (months ! 1)] \<and> \<not> dateRange 60 (demoDay 2 3) [JStr (months ! 0), JStr (months ! 1)] \<and>
   dateRange 60 (demoDay 2 1) [JStr (months ! 2), JStr (months ! 1)] \<and> \<not> dateRange 60 (demoDay 6 1) [JStr (months ! 2), JStr (months ! 1)] \<and>
   dateRange 60 (demoDay 0 31) [JStr (months ! 11), JStr (months ! 0)] \<and>
   \<not> dateRange 60 ((demoDay 0 31)\<lparr>d_hour := 23, d_min := 59, d_sec := 59, d_ms := 500\<rparr>) [JStr (months ! 11), JStr (months ! 0)]"
  using dateRange_months [of "demoDay 2 1" 0 1 60] dateRange_months [of "demoDay 2 3" 0 1 60]
    dateRange_months [of "demoDay 2 1" 2 1 60] dateRange_months [of "demoDay 6 1" 2 1 60] dateRange_months [of "demoDay 0 31" 11 0 60]
    dateRange_months [of "(demoDay 0 31)\<lparr>d_hour := 23, d_min := 59, d_sec := 59, d_ms := 500\<rparr>" 11 0 60]
  by (simp add: date_ok_def daysIn_def leap_def demoDay_def untilMonth_def lastDay_def overrun_def dayIsOver_def)

section \<open>The address of the host\<close>

text \<open>\<^verbatim>\<open>myIpAddress\<close> always gives a script the text of an IPv4 address of this host, and a loopback address only when there is no
  other.\<close>

lemma myIPAddress_host:
  "\<exists>w. myIPAddress ifs = string4 w \<and> V4 w \<in> set (GetHostIPs ifs) \<and>
     (isLoopback (V4 w) \<longrightarrow> (\<forall>ip\<in>set (GetHostIPs ifs). isLoopback ip))"
proof (cases "List.find (\<lambda>ip. \<not> isLoopback ip) (GetHostIPs ifs)")
  case None
  then have "\<forall>ip\<in>set (GetHostIPs ifs). isLoopback ip" by (auto simp: find_None_iff)
  moreover obtain ip ips where "GetHostIPs ifs = ip # ips" using GetHostIPs_ok [of ifs] by (cases "GetHostIPs ifs") auto
  moreover from this obtain w where "ip = V4 w" using GetHostIPs_ok [of ifs] by (metis is4.elims(2) list.set_intros(1))
  ultimately show ?thesis using None by (auto simp: myIPAddress_def)
next
  case (Some ip)
  then have "ip \<in> set (GetHostIPs ifs)" "\<not> isLoopback ip" by (auto simp: find_Some_iff)
  moreover from this obtain w where "ip = V4 w" using GetHostIPs_ok [of ifs] by (metis is4.elims(2) list.set_intros(1))
  ultimately show ?thesis using Some by (auto simp: myIPAddress_def)
qed

text \<open>Such an address is one that \<^verbatim>\<open>isInNet\<close> understands.\<close>

lemma myIPAddress_valid: "isValidIpAddress (myIPAddress ifs)"
  using myIPAddress_host [of ifs] isValidIpAddress_string4 by metis

lemma dnsResolve_valid: "isResolvable lookup h \<Longrightarrow> isValidIpAddress (dnsResolve lookup h)"
  using dnsResolve_cases [of lookup h] isValidIpAddress_string4 by (auto simp: isResolvable_def)

section \<open>Names\<close>

lemma dnsDomainIs_suffix: "dnsDomainIs host domain = hasSuffix host domain"
  unfolding dnsDomainIs_def hasSuffix_iff by (metis append_take_drop_id append_eq_conv_conj le_add2 length_append diff_add_inverse2)

text \<open>\<^verbatim>\<open>localHostOrDomainIs\<close>: the full name, or its labels up to a dot.\<close>

lemma localHostOrDomainIs_spec:
  "localHostOrDomainIs host hostdom \<longleftrightarrow> host = hostdom \<or> (\<exists>rest. hostdom = host @ CHR ''.'' # rest)"
  by (simp add: localHostOrDomainIs_def hasPrefix_iff)

lemma splitChar_length: "length (splitChar c s) = Suc (count_list s c)"
  by (induction s) (auto split: list.split)

lemma dnsDomainLevels_dots: "dnsDomainLevels host = count_list host CHR ''.''"
  by (simp add: dnsDomainLevels_def splitChar_length)

lemma isPlainHostName_levels: "isPlainHostName host \<Longrightarrow> dnsDomainLevels host = 0"
  by (simp add: isPlainHostName_def dnsDomainLevels_dots count_list_0_iff)

end
