(* ===== verification/Pac_Source.thy ===== *)
theory Pac_Source
  imports Pac_Utils Pac_Eval_Props
begin

text \<open>
  The composition of \<^verbatim>\<open>readSource\<close> with the concurrent evaluator: where the scripts come from that answer requests.
\<close>

section \<open>Scripts under way\<close>

fun pendingScript :: "pc \<Rightarrow> string option" where
  "pendingScript (SwapLock p t) = Some t"
| "pendingScript (SwapGen p t) = Some t"
| "pendingScript (SwapStore p t) = Some t"
| "pendingScript _ = None"

definition pending :: "sys \<Rightarrow> string set" where
  "pending s = {t. \<exists>g\<in>set (sys_threads s). pendingScript (th_pc g) = Some t}"

lemma pending_at: "Pac_Eval.at s i l \<Longrightarrow> pendingScript l = Some t \<Longrightarrow> t \<in> pending s"
  unfolding Pac_Eval.at_def pending_def using nth_mem by blast

lemma pending_goto: "pending (goto i l s) \<subseteq> pending s \<union> set_option (pendingScript l)"
  unfolding pending_def goto_def using set_update_subset_insert [of "sys_threads s" i] by fastforce

lemma pending_frame [simp]:
  "pending (setEv e s) = pending s" "pending (setCache c s) = pending s" "pending (s\<lparr>sys_scripts := ts\<rparr>) = pending s"
  "pending (initSys e) = {}"
  by (simp_all add: pending_def initSys_def)

lemma pending_spawn: "pendingScript (th_pc g) = None \<Longrightarrow> pending (spawn g s) = pending s"
  by (auto simp: pending_def spawn_def)

lemma pending_broadcast [simp]: "pending (broadcast s) = pending s"
proof -
  have "pendingScript (th_pc (wake g)) = pendingScript (th_pc g)" for g by (simp add: wake_def)
  then show ?thesis by (simp add: pending_def broadcast_def)
qed

section \<open>Invariant\<close>

text \<open>A script is the helpers followed by the decoded text of the source.\<close>

definition scriptOf :: "world \<Rightarrow> string \<Rightarrow> string \<Rightarrow> bool" where
  "scriptOf w enc t \<longleftrightarrow> (\<exists>d. w_source w (Some d) \<and> t = w_utils w @ [CHR 0x0A] @ decodeText d enc)"

definition inv_source :: "world \<Rightarrow> string \<Rightarrow> sys \<Rightarrow> bool" where
  "inv_source w enc s \<longleftrightarrow> ev_encoding (sys_ev s) = enc \<and> (\<forall>t\<in>set (sys_scripts s) \<union> pending s. scriptOf w enc t)"

lemma loadPool_script:
  "loadPool w e data = Some (p, t) \<Longrightarrow> w_source w data \<Longrightarrow> scriptOf w (ev_encoding e) t"
  by (auto simp: loadPool_def scriptOf_def Let_def split: option.splits)

lemma step_scripts:
  "step w a s s' \<Longrightarrow> t \<in> set (sys_scripts s') \<union> pending s' \<Longrightarrow> t \<in> set (sys_scripts s) \<union> pending s \<or> scriptOf w (ev_encoding (sys_ev s)) t"
proof (induction rule: step.induct)
  case (fetch_ok s i data p t')
  then show ?case using pending_goto [of i "SwapLock p t'" s] loadPool_script by fastforce
next
  case (swap_lock s i p t')
  then show ?case using pending_at [of s i "SwapLock p t'"] pending_goto [of i "SwapGen p t'"] by fastforce
next
  case (swap_gen s i p t')
  then show ?case using pending_at [of s i "SwapGen p t'"] pending_goto [of i _ s] by fastforce
next
  case (swap_store s i p t' now)
  then show ?case using pending_at [of s i "SwapStore p t'"] pending_goto [of i "FinishLoad True"] by fastforce
qed (use pending_goto in \<open>fastforce simp: pending_spawn bgReloader_def split: if_splits\<close>)+

lemma inv_source_reach:
  "reach w e0 s \<Longrightarrow> inv_source w (ev_encoding e0) s"
proof (induction rule: reach.induct)
  case start
  then show ?case by (simp add: inv_source_def) (simp add: initSys_def)
next
  case (next_step s a s')
  then show ?case using step_encoding [OF next_step(2)] step_scripts [OF next_step(2)] by (auto simp: inv_source_def)
qed

section \<open>From the source to the answer\<close>

text \<open>The world in which every load is one run of \<^verbatim>\<open>readSource\<close>, each with whatever the network and the file system give at that time.\<close>

type_synonym outside = "(string \<Rightarrow> (int \<times> string) option) \<times> (string \<Rightarrow> string option)"

definition sourceWorld :: "osEnv \<Rightarrow> outside set \<Rightarrow> evaluator \<Rightarrow> world \<Rightarrow> world" where
  "sourceWorld os outs e w =
     w\<lparr>w_source := (\<lambda>data. \<exists>out\<in>outs. data = (case readSource os (fst out) (snd out) e of Return d \<Rightarrow> Some d | _ \<Rightarrow> None))\<rparr>"

definition remoteSource :: "string \<Rightarrow> bool" where
  "remoteSource src \<longleftrightarrow> hasPrefix (toLower src) ''http://'' \<or> hasPrefix (toLower src) ''https://''"

lemma readSource_Return:
  "readSource os get readFile e = Return d \<Longrightarrow>
   if remoteSource (ev_source e) then get (ev_source e) = Some (200, d) else \<exists>path. readFile path = Some d"
  by (auto simp: readSource_def remoteSource_def Let_def split: option.splits if_splits)

text \<open>C26.  Where a routing answer comes from: whatever the interleaving of calls and reloads, every result a call returns is
  \<^verbatim>\<open>DIRECT\<close> or what a script, run with the helper functions before it, answered for the URL and host of that call, and the text of
  that script was the body of a reply with status 200 from the configured URL or the content of a file that could be read,
  decoded as configured.  An error page never becomes a script.\<close>

theorem result_from_source:
  assumes "reach (sourceWorld os outs (newEvaluator src enc ivl) w) (newEvaluator src enc ivl) s" "Pac_Eval.at s i (Returned r)"
    and "\<forall>g\<in>set (sys_threads s). CHR 0x00 \<notin> set (th_url g)"
  shows "r = ''DIRECT'' \<or> (\<exists>out\<in>outs. \<exists>d raw.
    (if remoteSource src then fst out src = Some (200, d) else \<exists>path. snd out path = Some d) \<and>
    w_js w (w_utils w @ [CHR 0x0A] @ decodeText d (if enc = [] then ''utf-8'' else enc))
      (th_url (sys_threads s ! i)) (th_host (sys_threads s ! i)) (Some raw) \<and> r = normalizeProxyResult raw)"
proof (cases "r = ''DIRECT''")
  case False
  let ?e = "newEvaluator src enc ivl"
  have frame: "w_js (sourceWorld os outs ?e w) = w_js w" "w_utils (sourceWorld os outs ?e w) = w_utils w" by (simp_all add: sourceWorld_def)
  have e: "ev_source ?e = src" "ev_encoding ?e = (if enc = [] then ''utf-8'' else enc)" by (simp_all add: newEvaluator_def)
  obtain t raw where t: "t \<in> set (sys_scripts s)" "r = normalizeProxyResult raw"
    "w_js w t (th_url (sys_threads s ! i)) (th_host (sys_threads s ! i)) (Some raw)"
    using returned_computed [OF assms] False unfolding frame by blast
  then have "scriptOf (sourceWorld os outs ?e w) (ev_encoding ?e) t" using inv_source_reach [OF assms(1)] by (simp add: inv_source_def)
  then obtain d where "w_source (sourceWorld os outs ?e w) (Some d)" and eq: "t = w_utils w @ [CHR 0x0A] @ decodeText d (ev_encoding ?e)"
    unfolding scriptOf_def frame by blast
  then obtain out where "out \<in> outs" "Some d = (case readSource os (fst out) (snd out) ?e of Return d \<Rightarrow> Some d | _ \<Rightarrow> None)"
    by (auto simp: sourceWorld_def)
  then have out: "out \<in> outs" "readSource os (fst out) (snd out) ?e = Return d"
    by (cases "readSource os (fst out) (snd out) ?e"; simp)+
  then show ?thesis using readSource_Return [OF out(2)] t(2,3) unfolding eq e by blast
qed simp

lemma wpad_source: "readSource os get (\<lambda>_. Some d) (newEvaluator ''wpad.dat'' enc ivl) = Return d"
proof -
  have "\<not> hasPrefix (toLower ''wpad.dat'') ''http://''" "\<not> hasPrefix (toLower ''wpad.dat'') ''https://''"
    "\<not> hasPrefix (toLower ''wpad.dat'') ''file://''" by code_simp+
  then show ?thesis by (simp add: readSource_def newEvaluator_def)
qed

definition emptyOs :: osEnv where
  "emptyOs = \<lparr>os_exists = (\<lambda>_. False), os_env = (\<lambda>_. None), os_wd = None, os_exe = None, os_home = [], os_goos = ''linux'',
     os_ini = (\<lambda>_. None), os_toml = (\<lambda>_. None), os_dotenv = (\<lambda>_ _. None)\<rparr>"

theorem result_from_source_witness:
  "\<exists>s d raw. Pac_Eval.at s 0 (Returned ''p:1,DIRECT'') \<and> sys_threads s \<noteq> [] \<and>
     w_js (det_world (\<lambda>t u h. Some ''PROXY p:1; DIRECT'') None) ([] @ [CHR 0x0A] @ decodeText d ''utf-8'')
       (th_url (sys_threads s ! 0)) (th_host (sys_threads s ! 0)) (Some raw) \<and> ''p:1,DIRECT'' = normalizeProxyResult raw"
proof -
  let ?js = "\<lambda>t u h. Some ''PROXY p:1; DIRECT''"
  let ?outs = "{(\<lambda>_. None, \<lambda>_. Some ''s'')} :: outside set"
  let ?e = "newEvaluator ''wpad.dat'' [] 0"
  have w: "sourceWorld emptyOs ?outs ?e (det_world ?js None) = det_world ?js (Some ''s'')"
    by (simp add: sourceWorld_def wpad_source det_world_def)
  have "\<exists>s. exec_run ?js (Some ''s'') 5 (replicate 13 0) (oneCall ''http://a/'' ''a'') = Some s \<and> Pac_Eval.at s 0 (Returned ''p:1,DIRECT'') \<and>
    (\<forall>g\<in>set (sys_threads s). CHR 0x00 \<notin> set (th_url g))"
    by (simp add: exec_defs go_simps numeral_eq_Suc Pac_Eval.at_def)
  then obtain s where s: "exec_run ?js (Some ''s'') 5 (replicate 13 0) (oneCall ''http://a/'' ''a'') = Some s"
    "Pac_Eval.at s 0 (Returned ''p:1,DIRECT'')" "\<forall>g\<in>set (sys_threads s). CHR 0x00 \<notin> set (th_url g)"
    by (elim exE conjE)
  have r: "reach (det_world ?js (Some ''s'')) ?e s" by (rule exec_run_reach [OF oneCall_reach s(1)])
  from result_from_source [OF r [folded w] s(2,3)] s(2) show ?thesis
    by (auto simp: det_world_def Pac_Eval.at_def)
qed

end
