(* ===== verification/Spec2Isabelle.thy ===== *)
theory Spec2Isabelle
  imports Network_Rules Pac_LRU Pac_Eval_Props Auth_Props Config_Thms Proxy_Server_Props Relay_Props Px_Main_Props Sspi_Props Pac_Utils_Props Pac_Source
begin

text \<open>
  A verification development for px-go, a local HTTP proxy that authenticates to upstream proxies on behalf
  of its clients.

  \<^bold>\<open>The program.\<close>  \<^verbatim>\<open>internal/config\<close> builds a configuration from defaults, file, environment and command line.
  \<^verbatim>\<open>internal/proxy\<close> listens, admits clients by address (rules of \<^verbatim>\<open>internal/network\<close>) and by credentials
  (\<^verbatim>\<open>internal/clientauth\<close>), bounds the number of requests in flight, decides where a request goes (\<^verbatim>\<open>noproxy\<close> rules, the
  PAC evaluator of \<^verbatim>\<open>internal/pac\<close>, configured servers, \<^verbatim>\<open>internal/platform\<close>), and forwards it, answering the
  challenges of the upstream proxy with the sessions of \<^verbatim>\<open>internal/auth\<close>; a \<^verbatim>\<open>CONNECT\<close> ends in a relay.
  \<^verbatim>\<open>internal/kerberos\<close> keeps a ticket.

  \<^bold>\<open>Shared theories.\<close>  \<open>Px_Prelude\<close> has the result type of Go calls (a value, an error, or a panic), its binding and the
  collection \<open>go_simps\<close> by which closed terms are evaluated.  \<open>Go_Strings\<close>, \<open>Go_Base64\<close>, \<open>Go_Float\<close>, \<open>Go_Crypto\<close>,
  \<open>Go_Http\<close> and \<open>Net_Addr\<close> model what the sources use of Go's library: strings as byte lists, \<^verbatim>\<open>strconv\<close>,
  base64, the float conversions of durations, hashes, URLs, header maps, addresses and prefixes.

  \<^bold>\<open>Components\<close>, each with the theories that hold its definitions and its properties:
  \<^item> \<open>Network\<close>, \<open>Network_Rules\<close>: \<^verbatim>\<open>network.go\<close>.  The documented rule language as a datatype; parsing its text and
    matching agree with its meaning, domains with one hyphen excepted, which are refused; where wildcards and IPv6 go
    wrong, also in the host test.  The locale \<open>ip_matcher\<close> is the interface the host matcher relies on.
  \<^item> \<open>Pac_Cache\<close>, \<open>Pac_LRU\<close>: \<^verbatim>\<open>cache.go\<close>, with list elements as addresses in a store; it refines an abstract LRU list and
    never serves a stale result.
  \<^item> \<open>Pac_Eval\<close>, \<open>Pac_Eval_Inv\<close>, \<open>Pac_Eval_Props\<close>: \<^verbatim>\<open>pac.go\<close> as a step relation over goroutines with their program
    counters, the mutex, the runtime pool and the cache; invariants by rule induction, single flight of reloads,
    termination of every call, and why a call returns \<^verbatim>\<open>DIRECT\<close> when no script says so.  The JavaScript engine is an argument.
  \<^item> \<open>Pac_Utils\<close>, \<open>Pac_Utils_Props\<close>: the functions a script can call, the JavaScript of \<^verbatim>\<open>pacutils.go\<close> and \<^verbatim>\<open>dnsResolve\<close> and
    \<^verbatim>\<open>myIpAddress\<close> of \<^verbatim>\<open>pac.go\<close>, and \<^verbatim>\<open>readSource\<close>.  \<^verbatim>\<open>isInNet\<close> is a CIDR rule, \<^verbatim>\<open>shExpMatch\<close> a shell pattern, \<^verbatim>\<open>weekdayRange\<close> a
    cyclic interval; what \<^verbatim>\<open>dateRange\<close> answers for two months at every moment of the year.  \<open>Pac_Source\<close> composes \<^verbatim>\<open>readSource\<close> with the evaluator: which text a
    routing answer comes from.
  \<^item> \<open>Auth\<close>, \<open>Client_Auth\<close>, \<open>Auth_Props\<close>: \<^verbatim>\<open>internal/auth\<close> and \<^verbatim>\<open>internal/clientauth\<close>.  Sessions as a datatype with one token
    function; the locale of sessions states what every scheme keeps.  The scheme chosen is the strongest that the preference
    leaves eligible.  Whom the client side accepts is stated apart from its verifiers, by what entitles a client: a
    user and password, a digest over the issued nonce, a message the session accepts.  The NTLM, SPNEGO, SSPI and
    key-ring packages are arguments.
  \<^item> \<open>Sspi\<close>, \<open>Sspi_Props\<close>: the two \<^verbatim>\<open>sspi_windows.go\<close> files over the calls of \<^verbatim>\<open>secur32\<close>, as instances of the arguments above;
    a session releases exactly the context it holds and the credentials it acquired, and the lengths of an identity are right for ASCII only.
  \<^item> \<open>Config\<close>, \<open>Config_Load\<close>, \<open>Config_Props\<close>, \<open>Config_Thms\<close>: \<^verbatim>\<open>config.go\<close>.  Precedence of the sources, validity of what is
    loaded, round trip of the saved form; which defaults a file resets that does not mention them.  The file parsers are arguments.
  \<^item> \<open>Platform\<close>, \<open>Kerberos\<close>: \<^verbatim>\<open>internal/platform\<close> and \<^verbatim>\<open>internal/kerberos\<close>, over the calls of the operating system.
  \<^item> \<open>Proxy_Route\<close>, \<open>Proxy_Route_Props\<close>: the part of \<^verbatim>\<open>handler.go\<close> without traffic.  Routes, PAC answers from the script to the
    addresses dialled, forwarded headers and the text of \<^verbatim>\<open>CONNECT\<close>.  The locale \<open>routing_contract\<close> is what the handlers
    rely on, interpreted on \<^verbatim>\<open>resolveRoute\<close>.
  \<^item> \<open>Proxy_Upstream\<close>, \<open>Proxy_Upstream_Props\<close>: the rest of \<^verbatim>\<open>handler.go\<close>, with the network as an environment and a list of the
    actions on connections, sessions and the semaphore.  Bounds on the attempts with each proxy, the order of dialling, sending and
    closing on every path, which credentials leave.
  \<^item> \<open>Host_IPs\<close>: \<^verbatim>\<open>GetHostIPs\<close>, for the server and for scripts.
  \<^item> \<open>Proxy_Server\<close>, \<open>Proxy_Server_Props\<close>: \<^verbatim>\<open>server.go\<close>.  Admission from the configuration to the
    decision, and a step relation of requests in flight: the semaphore never exceeds its size and is always given
    back, and authentication does not outlive its connection.
  \<^item> \<open>Relay\<close>, \<open>Relay_Props\<close>: \<^verbatim>\<open>tunnel.go\<close> as interleaved steps of two pumps and of their peers; delivery, and termination unless a peer
    keeps sending.
  \<^item> \<open>Px_Main\<close>, \<open>Px_Main_Props\<close>: \<^verbatim>\<open>main.go\<close> with saving, logger and health check of \<^verbatim>\<open>config.go\<close>.  What each mode may change,
    that a stored password is the one sent or accepted later, and when health check and \<^verbatim>\<open>--quit\<close> reach the program's own server,
    by the addresses it listens on, and succeed there.

  \<^bold>\<open>Loops and bounds.\<close>  Loops are structural recursion or have a termination proof; the retry loops count down from the
  four attempts of the source, and \<open>v6loop\<close> and \<open>render6\<close> from the eight groups of an address.  The cache and the LRU
  list walk their store with an option result, and a theorem says that from every reachable cache the result is there.
  The step relations have no fuel: termination is shown by well-founded measures, for the relay between two arrivals from its peers.  Go's \<^verbatim>\<open>int\<close> is an \<open>int\<close> with the range checks
  written out where text is parsed.

  \<^bold>\<open>Not modelled.\<close>  \<^verbatim>\<open>net/http\<close>, the JavaScript engine and the packages named as arguments above; the format of log lines other than
  those of the start of the program; the memory layout of the SSPI structures; daylight saving in the dates of scripts; bytes that
  a proxy sends together with its answer to \<^verbatim>\<open>CONNECT\<close>; failures of writing a configuration file once it is open;
  \<^verbatim>\<open>version.go\<close>, whose strings are arguments.
\<close>

end
